(* ===== verification/Prelude.thy ===== *)
theory Prelude
  imports "HOL-Library.Word"
begin

text \<open>
  Vocabulary shared by all components: the machine integers of the program, the result type of
  its fallible functions, the integer operations of the Rust standard library it calls
  (\<^term>\<open>saturating_add\<close>, \<^term>\<open>saturating_sub\<close>, \<^term>\<open>div_ceil\<close>,
  \<^term>\<open>is_power_of_two\<close>), little-endian access to a byte store, and the generic lemmas the
  component theories build on.

  Integers keep their width.  Arithmetic written with plain operators in the source wraps, as the
  release profile of the workspace compiles it; where a theorem needs the absence of a wrap it says
  so in its premises or derives it from an invariant.  The target is 64 bit, so usize is u64.
\<close>

unbundle bit_operations_syntax

type_synonym u8 = "8 word"
type_synonym u16 = "16 word"
type_synonym u32 = "32 word"
type_synonym u64 = "64 word"
type_synonym usize = "64 word"
type_synonym i32 = "32 word"
type_synonym i64 = "64 word"

text \<open>A double is carried by its bit pattern wherever the program only passes it on.\<close>

type_synonym f64 = "64 word"

type_synonym ('e, 'a) result = "'e + 'a"

abbreviation Err :: "'e \<Rightarrow> ('e, 'a) result" where "Err \<equiv> Inl"
abbreviation Ok :: "'a \<Rightarrow> ('e, 'a) result" where "Ok \<equiv> Inr"

named_theorems header_simps "bit-level facts about record headers"
named_theorems store_simps "loads from an updated byte store"

section \<open>Integer operations of the standard library\<close>

definition saturating_sub :: "'a::len word \<Rightarrow> 'a word \<Rightarrow> 'a word" where
  "saturating_sub a b = (if b \<le> a then a - b else 0)"

definition saturating_add :: "'a::len word \<Rightarrow> 'a word \<Rightarrow> 'a word" where
  "saturating_add a b = (if a \<le> - 1 - b then a + b else - 1)"

definition div_ceil :: "'a::len word \<Rightarrow> 'a word \<Rightarrow> 'a word" where
  "div_ceil a b = (let q = a div b; r = a mod b in if r > 0 then q + 1 else q)"

definition is_power_of_two :: "u64 \<Rightarrow> bool" where
  "is_power_of_two n = list_ex (\<lambda>k. n = 2 ^ k) [0..<64]"

lemma unat_lt: "unat (w :: 'a::len word) < 2 ^ LENGTH('a)"
  by (rule unsigned_less)

lemma unat_saturating_sub: "unat (saturating_sub a b) = unat a - unat b"
  by (simp add: saturating_sub_def unat_sub word_le_nat_alt)

lemma unat_saturating_add:
  fixes a b :: "'a::len word"
  shows "unat (saturating_add a b) = min (unat a + unat b) (2 ^ LENGTH('a) - 1)"
proof -
  have m: "unat (- 1 :: 'a word) = 2 ^ LENGTH('a) - 1" 
    by (simp add: unsigned_minus_1_eq_mask mask_eq_exp_minus_1)
  have s: "unat (- 1 - b) = 2 ^ LENGTH('a) - 1 - unat b"
    using m by (simp only: unat_sub [OF word_n1_ge])
  have lt: "unat b < 2 ^ LENGTH('a)" "unat a < 2 ^ LENGTH('a)" by simp_all
  show ?thesis
  proof (cases "a \<le> - 1 - b")
    case True
    then have "unat a + unat b < 2 ^ LENGTH('a)"
      using s lt(1) unfolding word_le_nat_alt by linarith
    then show ?thesis
      using True by (simp add: saturating_add_def unat_word_ariths)
  next
    case False
    then show ?thesis
      using s lt m by (auto simp: saturating_add_def word_le_nat_alt)
  qed
qed

lemma saturating_add_ge:
  fixes a b :: "'a::len word"
  shows "a \<le> saturating_add a b"
proof -
  have "unat a \<le> 2 ^ LENGTH('a) - 1"
    using unsigned_less [of a] by (metis Suc_pred' less_Suc_eq_le zero_less_numeral zero_less_power)
  then show ?thesis by (simp add: word_le_nat_alt unat_saturating_add)
qed

lemma unat_pow2:
  assumes "k < LENGTH('a::len)"
  shows "unat (2 ^ k :: 'a word) = 2 ^ k"
proof -
  have "(2 ^ k :: 'a word) = word_of_nat (2 ^ k)" by simp
  then show ?thesis
    using assms by (metis unat_of_nat mod_less one_less_numeral_iff power_strict_increasing semiring_norm(76))
qed

lemma is_power_of_twoE:
  assumes "is_power_of_two n"
  obtains k where "k < 64" "n = 2 ^ k" "unat n = 2 ^ k"
proof -
  from assms obtain k where k: "k < 64" "n = 2 ^ k"
    by (auto simp: is_power_of_two_def list_ex_iff)
  moreover have "unat n = 2 ^ k"
    using k by (simp add: unat_pow2)
  ultimately show thesis using that by blast
qed

lemma and_size_mask:
  assumes "is_power_of_two n"
  shows "unat (x AND (n - 1)) = unat x mod unat n"
proof -
  obtain k where k: "k < 64" "n = 2 ^ k" "unat n = 2 ^ k"
    using assms by (rule is_power_of_twoE)
  have "x AND (n - 1) = take_bit k x"
    using k by (simp add: take_bit_eq_mask mask_eq_decr_exp)
  then show ?thesis
    using k by (metis unsigned_take_bit_eq take_bit_eq_mod)
qed

section \<open>Little-endian words in a byte store\<close>

type_synonym bytes = "nat \<Rightarrow> u8"

definition load_u64 :: "bytes \<Rightarrow> nat \<Rightarrow> u64" where
  "load_u64 m a = foldr (\<lambda>i w. push_bit 8 w OR ucast (m (a + i))) [0..<8] 0"

definition le_bytes :: "u64 \<Rightarrow> u8 list" where
  "le_bytes w = map (\<lambda>i. ucast (drop_bit (8 * i) w)) [0..<8]"

lemma bit_foldr_bytes:
  fixes m :: bytes
  shows "bit (foldr (\<lambda>i w. push_bit 8 w OR ucast (m (a + i))) [k..<8] (0::u64)) n \<longleftrightarrow>
    n div 8 + k < 8 \<and> bit (m (a + (k + n div 8))) (n mod 8)"
proof (induction "8 - k" arbitrary: k n)
  case 0
  then show ?case by simp
next
  case (Suc d)
  then have k: "k < 8" "d = 8 - Suc k" by simp_all
  let ?F = "\<lambda>i w. push_bit 8 w OR ucast (m (a + i)) :: u64"
  have u: "bit (foldr ?F [k..<8] 0) n = bit (push_bit 8 (foldr ?F [Suc k..<8] 0) OR ucast (m (a + k))) n"
    using k(1) by (subst upt_conv_Cons) simp_all
  show ?case
  proof (cases "n < 8")
    case True
    with k show ?thesis
      unfolding u by (simp add: bit_or_iff bit_push_bit_iff bit_unsigned_iff)
  next
    case False
    then obtain n' where n: "n = n' + 8" by (metis le_add_diff_inverse2 not_less)
    have b: "\<not> bit (m (a + k)) (n' + 8)"
      using bit_imp_le_length [of "m (a + k)" "n' + 8"] by auto
    have "n' div 8 + Suc k < 8 \<Longrightarrow> n' + 8 < 64" "(n' + 8) div 8 = Suc (n' div 8)" by linarith+
    then show ?thesis
      unfolding u unfolding n using b Suc.hyps(1) [OF k(2), of n']
      by (auto simp: bit_or_iff bit_push_bit_iff bit_unsigned_iff)
  qed
qed

lemma bit_load_u64: "bit (load_u64 m a) n \<longleftrightarrow> n < 64 \<and> bit (m (a + n div 8)) (n mod 8)"
  unfolding load_u64_def using bit_foldr_bytes [of m a 0 n] by (simp add: div_less_iff_less_mult)

lemma length_le_bytes [simp]: "length (le_bytes w) = 8"
  by (simp add: le_bytes_def)

lemma load_le_bytes:
  assumes "\<And>i. i < 8 \<Longrightarrow> m (a + i) = le_bytes w ! i"
  shows "load_u64 m a = w"
proof (rule bit_word_eqI)
  fix n assume "n < LENGTH(64)"
  then have "n < 64" "n div 8 < 8" by auto
  with assms [of "n div 8"] show "bit (load_u64 m a) n = bit w n"
    by (simp add: bit_load_u64 le_bytes_def bit_simps)
qed

lemma load_u64_cong:
  assumes "\<And>i. i < 8 \<Longrightarrow> m (a + i) = m' (a' + i)"
  shows "load_u64 m a = load_u64 m' a'"
  using assms by (auto intro!: bit_word_eqI simp: bit_load_u64 div_less_iff_less_mult)

lemma mod_window_neq:
  fixes a b n :: nat
  assumes "a < b" "b < a + n"
  shows "a mod n \<noteq> b mod n"
proof
  assume "a mod n = b mod n"
  then have "n dvd b - a" using assms(1) by (metis less_imp_le mod_eq_dvd_iff_nat)
  with assms show False by (auto dest: dvd_imp_le)
qed

lemma unat_ucast_u32_u64 [simp]: "unat (ucast (n :: u32) :: u64) = unat n"
proof -
  have "unat n < 2 ^ 64" using unat_lt [of n] by simp
  then show ?thesis by (simp add: unsigned_ucast_eq take_bit_nat_eq_self)
qed

lemma unat_ucast_u16_u32 [simp]: "unat (ucast (n :: u16) :: u32) = unat n"
proof -
  have "unat n < 2 ^ 32" using unat_lt [of n] by simp
  then show ?thesis by (simp add: unsigned_ucast_eq take_bit_nat_eq_self)
qed

text \<open>The sign of a 32 bit word.\<close>

lemma sless_zero_i32: "(x :: i32) <s 0 \<longleftrightarrow> 2 ^ 31 \<le> unat x"
proof -
  have lt: "unat x < 2 ^ 32" using unat_lt [of x] by simp
  have "x <s 0 \<longleftrightarrow> bit (unat x) 31"
    by (simp add: word_sless_alt sint_uint bit_uint_iff bit_unsigned_iff)
  also have "\<dots> \<longleftrightarrow> odd (unat x div 2 ^ 31)" by (rule bit_iff_odd)
  also have "unat x div 2 ^ 31 = (if 2 ^ 31 \<le> unat x then 1 else 0)"
    using lt by (simp, linarith)
  finally show ?thesis by simp
qed

lemma unat_uminus_i32: "x \<noteq> 0 \<Longrightarrow> unat (- x :: i32) = 2 ^ 32 - unat x"
proof -
  assume "x \<noteq> 0"
  then have "uint x \<noteq> 0" by (simp add: uint_0_iff)
  moreover have "uint x mod 2 ^ 32 = uint x" using uint_lt2p [of x] by simp
  ultimately have "uint (- x) = 2 ^ 32 - uint x"
    unfolding uint_word_ariths by (simp add: zmod_zminus1_eq_if)
  then have "int (unat (- x)) = 2 ^ 32 - int (unat x)" by (simp only: uint_nat)
  then have "int (unat (- x) + unat x) = int (2 ^ 32)" by simp
  then have "unat (- x) + unat x = 2 ^ 32" by (simp only: of_nat_eq_iff)
  then show ?thesis by linarith
qed

lemma dvd_less_add:
  fixes a b d :: nat
  assumes "d dvd a" "d dvd b" "a < b"
  shows "a + d \<le> b"
proof -
  obtain i j where "a = d * i" "b = d * j" using assms(1,2) by (auto elim!: dvdE)
  with assms(3) have "Suc i \<le> j" by simp
  then have "d * Suc i \<le> d * j" by (rule mult_le_mono2)
  then show ?thesis using \<open>a = d * i\<close> \<open>b = d * j\<close> by simp
qed

lemma is_power_of_two_dvd_8:
  assumes "is_power_of_two n" "8 \<le> unat n"
  shows "8 dvd unat n"
proof -
  obtain k where k: "unat n = 2 ^ k" using assms(1) by (rule is_power_of_twoE)
  have "\<not> k < 3"
  proof
    assume "k < 3"
    then have "(2::nat) ^ k < 2 ^ 3" by (rule power_strict_increasing) simp
    with k assms(2) show False by simp
  qed
  then have "(2::nat) ^ 3 dvd 2 ^ k" by (intro le_imp_power_dvd) simp
  then show ?thesis by (simp add: k)
qed

lemma word_eq_of_unat: "unat w = n \<Longrightarrow> w = word_of_nat n"
  by auto

end
