(* ===== verification/MpscCommon.thy ===== *)
theory MpscCommon
  imports Prelude
begin

text \<open>
  The record header and the metadata page of the ring buffer (mpscbuf/src/common.rs), the error
  type (mpscbuf/src/error.rs) and the rounding of record sizes (mpscbuf/src/consumer.rs).

  A header is one atomic u64: the low half holds the payload length, the high half the flags.
  \<open>RecordHeader\<close> is modelled by its value; the operations that store through the reference return
  the value they store.
\<close>

section \<open>Definitions\<close>

datatype Errno = ENOMEM | EINVAL | OtherErrno nat

datatype MpscBufError =
    SizeTooSmall usize
  | SizeNotAligned usize
  | MmapFailed Errno
  | MprotectFailed Errno
  | InsufficientSpace u64 u64 u64
  | InvalidRecordSize usize
  | EventfdCreation string
  | EventfdWrite string
  | EventfdRead string
  | IoError Errno
  | LockTimeout

record Metadata =
  spinlock :: bool
  producer :: u64
  consumer :: u64
  dropped :: u64

definition Metadata_new :: Metadata where
  "Metadata_new = \<lparr>spinlock = False, producer = 0, consumer = 0, dropped = 0\<rparr>"

definition BUSY_FLAG :: u32 where "BUSY_FLAG = push_bit 31 1"
definition DISCARD_FLAG :: u32 where "DISCARD_FLAG = push_bit 30 1"
definition HEADER_SIZE :: usize where "HEADER_SIZE = 8"

definition header_new :: "u32 \<Rightarrow> u64" where
  "header_new len = ucast len OR push_bit 32 (ucast BUSY_FLAG)"

definition header_discard :: "u64 \<Rightarrow> u64" where
  "header_discard current = (let len = (ucast current :: u32) in ucast len OR push_bit 32 (ucast DISCARD_FLAG))"

definition header_commit :: "u64 \<Rightarrow> u64" where
  "header_commit current = (let len = (ucast current :: u32) in ucast len)"

definition header_is_discarded :: "u64 \<Rightarrow> bool" where
  "header_is_discarded current =
    (let flags = (ucast (drop_bit 32 current) :: u32) in flags AND DISCARD_FLAG \<noteq> 0)"

definition header_len_and_flags :: "u64 \<Rightarrow> u32 \<times> u32" where
  "header_len_and_flags current = (ucast current, ucast (drop_bit 32 current))"

definition round_up_to_8 :: "usize \<Rightarrow> usize" where
  "round_up_to_8 len = div_ceil len 8 * 8"

section \<open>Headers\<close>

lemma bit_BUSY_FLAG [header_simps]: "bit BUSY_FLAG n \<longleftrightarrow> n = 31"
  unfolding BUSY_FLAG_def bit_push_bit_iff by (auto simp: bit_1_iff)

lemma bit_DISCARD_FLAG [header_simps]: "bit DISCARD_FLAG n \<longleftrightarrow> n = 30"
  unfolding DISCARD_FLAG_def bit_push_bit_iff by (auto simp: bit_1_iff)

lemma bit_u32_high: "32 \<le> n \<Longrightarrow> \<not> bit (w :: u32) n"
  using bit_imp_le_length [of w n] by auto

lemma len_and_flags_new [header_simps]:
  "header_len_and_flags (header_new len) = (len, BUSY_FLAG)"
  by (auto simp: header_len_and_flags_def header_new_def header_simps bit_simps
        bit_u32_high intro!: bit_word_eqI)

lemma len_and_flags_commit [header_simps]:
  "header_len_and_flags (header_commit h) = (fst (header_len_and_flags h), 0)"
  by (auto simp: header_len_and_flags_def header_commit_def Let_def bit_simps
        intro!: bit_word_eqI)

lemma len_and_flags_discard [header_simps]:
  "header_len_and_flags (header_discard h) = (fst (header_len_and_flags h), DISCARD_FLAG)"
  by (auto simp: header_len_and_flags_def header_discard_def header_simps Let_def bit_simps
        intro!: bit_word_eqI)

lemma flags_nonzero [header_simps]: "BUSY_FLAG \<noteq> 0" "DISCARD_FLAG \<noteq> 0"
  using bit_BUSY_FLAG [of 31] bit_DISCARD_FLAG [of 30] by auto

lemma flags_disjoint [header_simps]: "DISCARD_FLAG AND BUSY_FLAG = 0" "BUSY_FLAG AND DISCARD_FLAG = 0"
  by (auto simp: header_simps bit_simps intro!: bit_word_eqI)

lemma flags_distinct [header_simps]: "DISCARD_FLAG \<noteq> BUSY_FLAG" "BUSY_FLAG \<noteq> DISCARD_FLAG"
  using bit_BUSY_FLAG [of 31] bit_DISCARD_FLAG [of 31] by auto

lemma is_discarded_flags:
  "header_is_discarded h \<longleftrightarrow> snd (header_len_and_flags h) AND DISCARD_FLAG \<noteq> 0"
  by (simp add: header_is_discarded_def header_len_and_flags_def Let_def)

lemma is_discarded_cases [header_simps]:
  "\<not> header_is_discarded (header_new len)"
  "header_is_discarded (header_discard h)"
  "\<not> header_is_discarded (header_commit h)"
  by (simp_all add: is_discarded_flags header_simps)

section \<open>Rounding\<close>

lemma div_ceil_8_nat: "(if x mod 8 > 0 then x div 8 + 1 else x div 8) = (x + 7) div (8::nat)"
proof -
  obtain q r where x: "x = 8 * q + r" "r < 8"
    by (metis mod_less_divisor mult_div_mod_eq zero_less_numeral)
  have "(x + 7) div 8 = q + (r + 7) div 8" "x div 8 = q" "x mod 8 = r"
    using x by (simp_all add: add.assoc)
  moreover have "(r + 7) div 8 = (if r > 0 then 1 else 0)"
    using x(2) by (auto intro: div_nat_eqI)
  ultimately show ?thesis by simp
qed

lemma unat_numeral_8: "unat (8 :: u64) = 8" by simp

lemma unat_round_up_to_8:
  assumes "unat len + 7 < 2 ^ 64"
  shows "unat (round_up_to_8 len) = (unat len + 7) div 8 * 8"
proof -
  have m: "0 < len mod 8 \<longleftrightarrow> 0 < unat len mod 8"
    by (simp add: word_less_nat_alt unat_mod_distrib)
  have "unat len div 8 + 1 < 2 ^ LENGTH(64)"
    using assms div_le_dividend [of "unat len" 8] by simp
  then have q: "unat (len div 8 + 1) = unat len div 8 + 1"
    by (simp only: unat_word_ariths(1) unat_div_distrib unat_numeral_8 unat_1 mod_less)
  have c: "unat (div_ceil len 8) = (unat len + 7) div 8"
    unfolding div_ceil_def Let_def div_ceil_8_nat [symmetric] using m q
    by (simp add: unat_div_distrib)
  have "(unat len + 7) div 8 * 8 < 2 ^ LENGTH(64)"
    using assms div_times_less_eq_dividend [of "unat len + 7" 8] by simp
  then show ?thesis
    by (simp only: round_up_to_8_def unat_word_ariths(2) c unat_numeral_8 mod_less)
qed

end
