(* ===== verification/MpscMemory.thy ===== *)
theory MpscMemory
  imports MpscCommon
begin

text \<open>
  The shared memory of the ring buffer (mpscbuf/src/memory.rs).

  \<open>Memory::new\<close> and \<open>Memory::from_fd\<close> are modelled with the operating system calls they make as
  parameters, collected in the record \<open>os\<close>: each field is the function the call computes, with an
  explicit address space (which file byte, if any, an address shows) threaded through the two
  MAP_FIXED calls.  The second half gives the byte store the two mappings of the data area present
  to the program: offset \<open>i\<close> and offset \<open>i + data_size\<close> are the same byte.
\<close>

section \<open>Definitions\<close>

type_synonym address_space = "nat \<Rightarrow> (nat \<times> nat) option"

record os =
  sysconf_pagesize :: usize
  memfd_create :: "(Errno, nat) result"
  ftruncate :: "nat \<Rightarrow> i64 \<Rightarrow> (Errno, unit) result"
  mmap_anonymous :: "usize \<Rightarrow> address_space \<Rightarrow> (Errno, nat \<times> address_space) result"
  mmap_fixed :: "nat \<Rightarrow> usize \<Rightarrow> nat \<Rightarrow> i64 \<Rightarrow> address_space \<Rightarrow> (Errno, address_space) result"
  munmap :: "nat \<Rightarrow> usize \<Rightarrow> address_space \<Rightarrow> address_space"

record Memory =
  ptr :: nat
  mem_data_size :: usize
  mem_page_size :: usize
  mem_fd :: nat

definition Memory_from_fd ::
  "os \<Rightarrow> nat \<Rightarrow> usize \<Rightarrow> address_space \<Rightarrow> (MpscBufError, Memory) result \<times> address_space" where
  "Memory_from_fd os fd data_size as =
    (let page_size = sysconf_pagesize os in
     if \<not> is_power_of_two data_size then (Err (SizeNotAligned data_size), as)
     else if data_size < page_size then (Err (SizeTooSmall page_size), as)
     else
       let total_size = data_size + page_size;
           total_virtual_size = page_size + 2 * data_size in
       case mmap_anonymous os total_virtual_size as of
         Inl _ \<Rightarrow> (Err (MmapFailed ENOMEM), as)
       | Inr (p, as1) \<Rightarrow>
           (case mmap_fixed os p total_size fd 0 as1 of
             Inl _ \<Rightarrow> (Err (MmapFailed EINVAL), as1)
           | Inr as2 \<Rightarrow>
               (case mmap_fixed os (p + unat total_size) data_size fd page_size as2 of
                 Inl _ \<Rightarrow> (Err (MmapFailed EINVAL), as2)
               | Inr as3 \<Rightarrow>
                   (Ok \<lparr>ptr = p, mem_data_size = data_size, mem_page_size = page_size, mem_fd = fd\<rparr>,
                    as3))))"

definition Memory_new ::
  "os \<Rightarrow> usize \<Rightarrow> address_space \<Rightarrow> (MpscBufError, Memory) result \<times> address_space" where
  "Memory_new os data_size as =
    (let page_size = sysconf_pagesize os in
     if \<not> is_power_of_two data_size then (Err (SizeNotAligned data_size), as)
     else if data_size < page_size then (Err (SizeTooSmall page_size), as)
     else
       let total_size = data_size + page_size in
       case memfd_create os of
         Inl _ \<Rightarrow> (Err (MmapFailed ENOMEM), as)
       | Inr fd \<Rightarrow>
           (case ftruncate os fd total_size of
             Inl _ \<Rightarrow> (Err (MmapFailed EINVAL), as)
           | Inr _ \<Rightarrow> Memory_from_fd os fd data_size as))"

definition metadata_ptr :: "Memory \<Rightarrow> nat" where
  "metadata_ptr m = ptr m"

definition data_ptr :: "Memory \<Rightarrow> nat" where
  "data_ptr m = ptr m + unat (mem_page_size m)"

definition Memory_drop :: "os \<Rightarrow> Memory \<Rightarrow> address_space \<Rightarrow> address_space" where
  "Memory_drop os m as = munmap os (ptr m) (mem_page_size m + 2 * mem_data_size m) as"

definition read_area :: "nat \<Rightarrow> bytes \<Rightarrow> nat \<Rightarrow> nat \<Rightarrow> u8 list" where
  "read_area ds m off n = map (\<lambda>i. m ((off + i) mod ds)) [0..<n]"

fun write_area :: "nat \<Rightarrow> bytes \<Rightarrow> nat \<Rightarrow> u8 list \<Rightarrow> bytes" where
  "write_area ds m off [] = m"
| "write_area ds m off (x # xs) = write_area ds (m(off mod ds := x)) (Suc off) xs"

definition load_header :: "nat \<Rightarrow> bytes \<Rightarrow> nat \<Rightarrow> u64" where
  "load_header ds m off = load_u64 (\<lambda>a. m (a mod ds)) off"

definition store_header :: "nat \<Rightarrow> bytes \<Rightarrow> nat \<Rightarrow> u64 \<Rightarrow> bytes" where
  "store_header ds m off w = write_area ds m off (le_bytes w)"

text \<open>The documented effect of a successful MAP_FIXED call.\<close>

definition mmap_documented :: "os \<Rightarrow> bool" where
  "mmap_documented os \<longleftrightarrow>
    (\<forall>addr len fd off as as'. mmap_fixed os addr len fd off as = Ok as' \<longrightarrow>
      (\<forall>a. as' a = (if addr \<le> a \<and> a < addr + unat len then Some (fd, unat off + (a - addr)) else as a)))"

section \<open>Construction\<close>

lemma from_fd_ok:
  assumes "Memory_from_fd os fd data_size as = (Ok m, as')"
  obtains p as1 as2 where
    "is_power_of_two data_size" "sysconf_pagesize os \<le> data_size"
    "mmap_fixed os p (data_size + sysconf_pagesize os) fd 0 as1 = Ok as2"
    "mmap_fixed os (p + unat (data_size + sysconf_pagesize os)) data_size fd (sysconf_pagesize os) as2 = Ok as'"
    "m = \<lparr>ptr = p, mem_data_size = data_size, mem_page_size = sysconf_pagesize os, mem_fd = fd\<rparr>"
  using assms
  by (auto simp: Memory_from_fd_def Let_def split: if_splits sum.splits prod.splits)

lemma data_mirror:
  assumes ok: "Memory_from_fd os fd data_size as = (Ok m, as')"
    and doc: "mmap_documented os"
    and fits: "unat data_size + unat (sysconf_pagesize os) < 2 ^ 64"
    and i: "i < 2 * unat data_size"
  shows "as' (data_ptr m + i) = Some (fd, unat (sysconf_pagesize os) + i mod unat data_size)"
proof -
  let ?ps = "unat (sysconf_pagesize os)" and ?ds = "unat data_size"
  from ok obtain p as1 as2 where
    f1: "mmap_fixed os p (data_size + sysconf_pagesize os) fd 0 as1 = Ok as2" and
    f2: "mmap_fixed os (p + unat (data_size + sysconf_pagesize os)) data_size fd (sysconf_pagesize os) as2 = Ok as'" and
    m: "m = \<lparr>ptr = p, mem_data_size = data_size, mem_page_size = sysconf_pagesize os, mem_fd = fd\<rparr>"
    by (rule from_fd_ok)
  have t: "unat (data_size + sysconf_pagesize os) = ?ds + ?ps"
    using fits by (simp add: unat_word_ariths)
  have a2: "as2 a = (if p \<le> a \<and> a < p + (?ds + ?ps) then Some (fd, a - p) else as1 a)" for a
    using doc [unfolded mmap_documented_def, rule_format, OF f1] t by simp
  have a3: "as' a = (if p + (?ds + ?ps) \<le> a \<and> a < p + (?ds + ?ps) + ?ds
      then Some (fd, ?ps + (a - (p + (?ds + ?ps)))) else as2 a)" for a
    using doc [unfolded mmap_documented_def, rule_format, OF f2] t by simp
  show ?thesis
  proof (cases "i < ?ds")
    case True
    then show ?thesis by (simp add: a3 a2 m data_ptr_def)
  next
    case False
    then have "i mod ?ds = i - ?ds" using i by (simp add: le_mod_geq)
    with False i show ?thesis by (simp add: a3 m data_ptr_def)
  qed
qed

lemma metadata_mapped:
  assumes ok: "Memory_from_fd os fd data_size as = (Ok m, as')"
    and doc: "mmap_documented os"
    and fits: "unat data_size + unat (sysconf_pagesize os) < 2 ^ 64"
    and i: "i < unat (sysconf_pagesize os)"
  shows "as' (metadata_ptr m + i) = Some (fd, i)"
proof -
  from ok obtain p as1 as2 where
    f1: "mmap_fixed os p (data_size + sysconf_pagesize os) fd 0 as1 = Ok as2" and
    f2: "mmap_fixed os (p + unat (data_size + sysconf_pagesize os)) data_size fd (sysconf_pagesize os) as2 = Ok as'" and
    m: "m = \<lparr>ptr = p, mem_data_size = data_size, mem_page_size = sysconf_pagesize os, mem_fd = fd\<rparr>"
    by (rule from_fd_ok)
  have t: "unat (data_size + sysconf_pagesize os) = unat data_size + unat (sysconf_pagesize os)"
    using fits by (simp add: unat_word_ariths)
  show ?thesis
    using doc [unfolded mmap_documented_def, rule_format, OF f1]
      doc [unfolded mmap_documented_def, rule_format, OF f2] i
    by (simp add: t m metadata_ptr_def)
qed

section \<open>The data area\<close>

lemma length_read_area [simp]: "length (read_area ds m off n) = n"
  by (simp add: read_area_def)

lemma nth_read_area [simp]: "i < n \<Longrightarrow> read_area ds m off n ! i = m ((off + i) mod ds)"
  by (simp add: read_area_def)

lemma write_area_other:
  "(\<And>i. i < length xs \<Longrightarrow> (off + i) mod ds \<noteq> x) \<Longrightarrow> write_area ds m off xs x = m x"
proof (induction xs arbitrary: off m)
  case (Cons y ys)
  have "write_area ds (m(off mod ds := y)) (Suc off) ys x = (m(off mod ds := y)) x"
    using Cons.prems [of "Suc i" for i] by (intro Cons.IH) auto
  then show ?case
    using Cons.prems [of 0] by simp
qed simp

lemma write_area_hit:
  "i < length xs \<Longrightarrow> length xs \<le> ds \<Longrightarrow> write_area ds m off xs ((off + i) mod ds) = xs ! i"
proof (induction xs arbitrary: off m i)
  case (Cons y ys)
  show ?case
  proof (cases i)
    case 0
    have "(Suc off + j) mod ds \<noteq> off mod ds" if "j < length ys" for j
      using that Cons.prems mod_window_neq [of off "Suc off + j" ds] by auto
    then have "write_area ds (m(off mod ds := y)) (Suc off) ys (off mod ds) = y"
      by (subst write_area_other) auto
    then show ?thesis using 0 by simp
  next
    case (Suc j)
    then show ?thesis
      using Cons.prems Cons.IH [where i = j and m = "m(off mod ds := y)" and off = "Suc off"]
      by (simp del: fun_upd_apply)
  qed
qed simp

lemma read_write_area:
  "length xs \<le> ds \<Longrightarrow> read_area ds (write_area ds m off xs) off (length xs) = xs"
  by (rule nth_equalityI) (simp_all add: write_area_hit)

lemma write_area_window:
  assumes "p + length xs \<le> q \<and> q < p + ds \<or> q < p \<and> p + length xs \<le> q + ds"
  shows "write_area ds m p xs (q mod ds) = m (q mod ds)"
proof (rule write_area_other)
  fix i assume "i < length xs"
  with assms show "(p + i) mod ds \<noteq> q mod ds"
    using mod_window_neq [of "p + i" q ds] mod_window_neq [of q "p + i" ds] by auto
qed

lemma load_header_write_area:
  assumes "p + length xs \<le> q \<and> q + 8 \<le> p + ds \<or> q + 8 \<le> p \<and> p + length xs \<le> q + ds"
  shows "load_header ds (write_area ds m p xs) q = load_header ds m q"
  unfolding load_header_def
  by (rule load_u64_cong) (use assms in \<open>auto intro!: write_area_window\<close>)

lemma read_write_area_other:
  assumes "p + length xs \<le> q \<and> q + n \<le> p + ds \<or> q + n \<le> p \<and> p + length xs \<le> q + ds"
  shows "read_area ds (write_area ds m p xs) q n = read_area ds m q n"
  by (rule nth_equalityI) (use assms in \<open>auto intro!: write_area_window\<close>)

lemma load_store_header [simp]:
  assumes "8 \<le> ds"
  shows "load_header ds (store_header ds m off w) off = w"
  unfolding load_header_def store_header_def
  using assms by (intro load_le_bytes) (simp add: write_area_hit)

lemma read_area_mod [simp]: "read_area ds m (p mod ds) n = read_area ds m p n"
  by (simp add: read_area_def mod_add_left_eq)

lemma write_area_mod [simp]: "write_area ds m (p mod ds) xs = write_area ds m p xs"
proof (induction xs arbitrary: m p)
  case (Cons x xs)
  have "write_area ds m (Suc (p mod ds)) xs = write_area ds m (Suc p) xs" for m
    using Cons.IH [of m "Suc (p mod ds)"] Cons.IH [of m "Suc p"] by (simp add: mod_Suc_eq)
  then show ?case by simp
qed simp

lemma write_area_mod_add: "write_area ds m (p mod ds + k) xs = write_area ds m (p + k) xs"
  using write_area_mod [of ds m "p mod ds + k" xs] write_area_mod [of ds m "p + k" xs]
  by (simp only: mod_add_left_eq)

lemma read_area_mod_add: "read_area ds m (p mod ds + k) n = read_area ds m (p + k) n"
  using read_area_mod [of ds m "p mod ds + k" n] read_area_mod [of ds m "p + k" n]
  by (simp only: mod_add_left_eq)

lemma load_header_mod [simp]: "load_header ds m (p mod ds) = load_header ds m p"
  unfolding load_header_def by (rule load_u64_cong) (simp add: mod_add_left_eq)

lemma store_header_mod [simp]: "store_header ds m (p mod ds) w = store_header ds m p w"
  by (simp add: store_header_def)

section \<open>Properties\<close>

text \<open>
  C10 (double mapping): after a successful \<open>Memory::from_fd\<close> the first page shows the metadata page of
  the file, and the \<open>2 * data_size\<close> bytes from \<open>data_ptr\<close> show the data area twice in a row, so that
  a record running over the end of the area is contiguous in memory.
\<close>

theorem data_area_mirrored:
  assumes "Memory_from_fd os fd data_size as = (Ok m, as')" "mmap_documented os"
    and "unat data_size + unat (sysconf_pagesize os) < 2 ^ 64"
  shows "(\<forall>i < unat (sysconf_pagesize os). as' (metadata_ptr m + i) = Some (fd, i)) \<and>
    (\<forall>i < unat data_size. as' (data_ptr m + i) = Some (fd, unat (sysconf_pagesize os) + i) \<and>
      as' (data_ptr m + unat data_size + i) = as' (data_ptr m + i))"
proof -
  have d: "as' (data_ptr m + i) = Some (fd, unat (sysconf_pagesize os) + i mod unat data_size)"
    if "i < 2 * unat data_size" for i using data_mirror [OF assms that] .
  have "as' (data_ptr m + i) = Some (fd, unat (sysconf_pagesize os) + i) \<and>
      as' (data_ptr m + unat data_size + i) = as' (data_ptr m + i)" if "i < unat data_size" for i
    using that d [of i] d [of "unat data_size + i"] by (simp add: add.assoc)
  with metadata_mapped [OF assms] show ?thesis by blast
qed

text \<open>
  \<open>Memory::new\<close> refuses a size that is not a power of two or is below the
  page size without touching the address space, and every other failure is reported as a failed
  mapping; success gives a memory of the requested size whose size is a power of two.
\<close>

theorem Memory_new_result:
  "case Memory_new os data_size as of
     (Inl e, as') \<Rightarrow>
       (\<not> is_power_of_two data_size \<and> e = SizeNotAligned data_size \<and> as' = as) \<or>
       (is_power_of_two data_size \<and> data_size < sysconf_pagesize os \<and> e = SizeTooSmall (sysconf_pagesize os) \<and> as' = as) \<or>
       (is_power_of_two data_size \<and> sysconf_pagesize os \<le> data_size \<and> e \<in> {MmapFailed ENOMEM, MmapFailed EINVAL})
   | (Inr m, as') \<Rightarrow> is_power_of_two data_size \<and> sysconf_pagesize os \<le> data_size \<and>
       mem_data_size m = data_size \<and> memfd_create os = Ok (mem_fd m)"
  by (auto simp: Memory_new_def Memory_from_fd_def Let_def split: if_splits sum.splits prod.splits)

section \<open>Witness\<close>

definition example_os :: os where
  "example_os = \<lparr>sysconf_pagesize = 4096, memfd_create = Ok 3, ftruncate = (\<lambda>_ _. Ok ()),
    mmap_anonymous = (\<lambda>len as. Ok (65536, as)),
    mmap_fixed = (\<lambda>addr len fd off as. Ok (\<lambda>a. if addr \<le> a \<and> a < addr + unat len
      then Some (fd, unat off + (a - addr)) else as a)),
    munmap = (\<lambda>addr len as a. if addr \<le> a \<and> a < addr + unat len then None else as a)\<rparr>"

theorem data_area_mirrored_witness:
  "\<exists>m as'. Memory_from_fd example_os 3 8192 (\<lambda>_. None) = (Ok m, as') \<and>
    as' (data_ptr m + 8197) = Some (3, 4101)"
proof -
  have "is_power_of_two 8192" by code_simp
  then obtain m as' where m: "Memory_from_fd example_os 3 8192 (\<lambda>_. None) = (Ok m, as')"
    by (simp add: Memory_from_fd_def example_os_def)
  have doc: "mmap_documented example_os" by (simp add: mmap_documented_def example_os_def)
  have p: "sysconf_pagesize example_os = 4096" by (simp add: example_os_def)
  have "\<forall>i < 8192. as' (data_ptr m + i) = Some (3, 4096 + i) \<and> as' (data_ptr m + 8192 + i) = as' (data_ptr m + i)"
    using data_area_mirrored [OF m doc] by (simp add: p)
  then have "as' (data_ptr m + 8197) = Some (3, 4101)"
    by (drule_tac spec [of _ 5]) (simp add: ac_simps)
  with m show ?thesis by blast
qed

end
