(* ===== verification/MpscSync.thy ===== *)
theory MpscSync
  imports MpscCommon
begin

text \<open>
  The spin lock and the wakeup notification of the ring buffer (mpscbuf/src/sync.rs, the variants
  compiled without the loom feature).

  \<open>try_lock\<close> is a loop over atomic accesses that race with other processes.  The accesses are
  numbered in program order and \<open>cas k\<close> says whether the compare-exchange at access \<open>k\<close> succeeds,
  \<open>held k\<close> whether the load at access \<open>k\<close> finds the lock taken; both are arbitrary, which also
  covers spurious failures of the weak compare-exchange.  The result is the access that took the
  lock, if any.
\<close>

section \<open>Definitions\<close>

definition SPIN_LIMIT :: nat where "SPIN_LIMIT = 100000"

function (sequential) spin :: "(nat \<Rightarrow> bool) \<Rightarrow> (nat \<Rightarrow> bool) \<Rightarrow> bool \<Rightarrow> nat \<Rightarrow> nat \<Rightarrow> nat option" where
  "spin cas held True k iterations =
    (if cas k then Some k
     else if iterations + 1 \<ge> SPIN_LIMIT then None
     else spin cas held False (k + 1) (iterations + 1))"
| "spin cas held False k iterations =
    (if held k
     then if iterations + 1 \<ge> SPIN_LIMIT then None
       else spin cas held False (k + 1) (iterations + 1)
     else spin cas held True (k + 1) iterations)"
  by pat_completeness auto
termination
  by (relation "measures [\<lambda>(cas, held, b, k, i). SPIN_LIMIT - i, \<lambda>(cas, held, b, k, i). if b then 0 else 1]")
    auto

declare spin.simps [simp del]

definition try_lock :: "(nat \<Rightarrow> bool) \<Rightarrow> (nat \<Rightarrow> bool) \<Rightarrow> nat option" where
  "try_lock cas held = spin cas held True 0 0"

text \<open>
  The eventfd behind a \<open>Notification\<close> is a kernel object: the outcomes of its create, write and
  read calls are arguments.
\<close>

definition Notification_new :: "(string, 'fd) result \<Rightarrow> (MpscBufError, 'fd) result" where
  "Notification_new eventfd = (case eventfd of Inl e \<Rightarrow> Err (EventfdCreation e) | Inr fd \<Rightarrow> Ok fd)"

definition notify :: "(string, 'n) result \<Rightarrow> (MpscBufError, unit) result" where
  "notify written = (case written of Inl e \<Rightarrow> Err (EventfdWrite e) | Inr _ \<Rightarrow> Ok ())"

definition wait :: "(string, 'n) result \<Rightarrow> (MpscBufError, unit) result" where
  "wait read = (case read of Inl e \<Rightarrow> Err (EventfdRead e) | Inr _ \<Rightarrow> Ok ())"

section \<open>The spin loop\<close>

lemma spin_SomeD: "spin cas held b k i = Some n \<Longrightarrow> cas n \<and> k \<le> n"
proof (induction cas held b k i rule: spin.induct)
  case (1 cas held k i)
  then show ?case by (auto simp: spin.simps(1) [of cas held k i] split: if_splits)
next
  case (2 cas held k i)
  then show ?case by (auto simp: spin.simps(2) [of cas held k i] split: if_splits)
qed

lemma spin_Some_bound:
  "spin cas held b k i = Some n \<Longrightarrow> i < SPIN_LIMIT \<Longrightarrow>
    n + 2 * i \<le> k + 2 * (SPIN_LIMIT - 1) + (if b then 0 else 1)"
proof (induction cas held b k i rule: spin.induct)
  case (1 cas held k i)
  then show ?case by (auto simp: spin.simps(1) [of cas held k i] split: if_splits)
next
  case (2 cas held k i)
  then show ?case by (auto simp: spin.simps(2) [of cas held k i] split: if_splits)
qed

lemma spin_free_prefix:
  "i + n < SPIN_LIMIT \<Longrightarrow> (\<And>j. k \<le> j \<Longrightarrow> j < k + n \<Longrightarrow> held j) \<Longrightarrow> \<not> held (k + n) \<Longrightarrow> cas (k + n + 1) \<Longrightarrow>
    spin cas held False k i = Some (k + n + 1)"
proof (induction n arbitrary: k i)
  case 0
  then show ?case by (simp add: spin.simps(2) [of _ _ k] spin.simps(1) [of _ _ "Suc k"])
next
  case (Suc n)
  have h: "held k" using Suc.prems(2) [of k] by simp
  have "spin cas held False (k + 1) (i + 1) = Some (k + 1 + n + 1)"
    using Suc.prems by (intro Suc.IH) auto
  with h Suc.prems(1) show ?case by (simp add: spin.simps(2) [of _ _ k])
qed

text \<open>
  With the lock free at the first access the lock is taken at once; with another holder releasing it
  while the loop spins below the limit, the next compare-exchange takes it.
\<close>

lemma try_lock_uncontended: "cas 0 \<Longrightarrow> try_lock cas held = Some 0"
  by (simp add: try_lock_def spin.simps(1))

lemma try_lock_after_release:
  assumes "\<not> cas 0" "n + 1 < SPIN_LIMIT" "\<And>j. 1 \<le> j \<Longrightarrow> j \<le> n \<Longrightarrow> held j" "\<not> held (n + 1)" "cas (n + 2)"
  shows "try_lock cas held = Some (n + 2)"
  using assms spin_free_prefix [of 1 n 1 held cas] by (simp add: try_lock_def spin.simps(1) [of _ _ 0])

lemma try_lock_timeout:
  assumes "\<And>k. \<not> cas k"
  shows "try_lock cas held = None"
  using assms spin_SomeD [of cas held True 0 0] by (cases "try_lock cas held") (auto simp: try_lock_def)



end
