(* ===== verification/MpscRing.thy ===== *)
theory MpscRing
  imports MpscMemory MpscSync
begin

text \<open>
  The ring buffer proper: mpscbuf/src/ringbuf.rs, producer.rs and consumer.rs.

  The shared state is the metadata page extended by the bytes of the data area.  \<open>reserve\<close> is split
  at its only blocking point: what runs before the lock (the size computation and the read of the
  consumer position) and what runs under it (\<open>reserve_locked\<close>).  A \<open>ReservedBuffer\<close> and a
  \<open>Record\<close> are references into the data area, so they are modelled by offsets and every access
  goes through the area.

  The abstraction of a ring is the list of its slots from the consumer to the producer position,
  read off the headers.  The lemmas give the effect of every operation on that list.
\<close>

section \<open>Definitions\<close>

record shm = Metadata +
  area :: bytes

datatype WakeupStrategy = Forced | NoWakeup

record ReservedBuffer =
  rb_size :: usize
  record_pos :: u64
  wakeup_strategy :: WakeupStrategy

record Record =
  rec_offset :: usize
  rec_len :: usize
  total_len :: u64

definition RingBuf_new :: "bytes \<Rightarrow> shm" where
  "RingBuf_new data = \<lparr>spinlock = spinlock Metadata_new, producer = producer Metadata_new,
    consumer = consumer Metadata_new, dropped = dropped Metadata_new, area = data\<rparr>"

definition size_mask :: "usize \<Rightarrow> u64" where
  "size_mask data_size = data_size - 1"

definition consumer_pos :: "shm \<Rightarrow> u64" where "consumer_pos s = consumer s"
definition producer_pos :: "shm \<Rightarrow> u64" where "producer_pos s = producer s"

definition advance_producer :: "u64 \<Rightarrow> shm \<Rightarrow> shm" where
  "advance_producer amount s = s\<lparr>producer := amount\<rparr>"

definition advance_consumer :: "u64 \<Rightarrow> shm \<Rightarrow> shm" where
  "advance_consumer amount s = s\<lparr>consumer := amount\<rparr>"

definition increment_dropped :: "shm \<Rightarrow> shm" where
  "increment_dropped s = s\<lparr>dropped := dropped s + 1\<rparr>"

definition reserve_total :: "usize \<Rightarrow> usize" where
  "reserve_total sz = round_up_to_8 (sz + HEADER_SIZE)"

definition reserve_locked ::
  "usize \<Rightarrow> WakeupStrategy \<Rightarrow> usize \<Rightarrow> u64 \<Rightarrow> shm \<Rightarrow> (MpscBufError, ReservedBuffer) result \<times> shm" where
  "reserve_locked data_size ws sz cons_pos s =
    (let prod_pos = producer_pos s;
         new_prod_pos = prod_pos + reserve_total sz in
     if new_prod_pos - cons_pos > size_mask data_size
     then (Err (InsufficientSpace new_prod_pos cons_pos (size_mask data_size)), s)
     else
       let offset = prod_pos AND size_mask data_size;
           s1 = s\<lparr>area := store_header (unat data_size) (area s) (unat offset) (header_new (ucast sz))\<rparr>;
           s2 = advance_producer new_prod_pos s1 in
       (Ok \<lparr>rb_size = sz, record_pos = offset, wakeup_strategy = ws\<rparr>, s2))"

definition reserve ::
  "usize \<Rightarrow> WakeupStrategy \<Rightarrow> bool \<Rightarrow> usize \<Rightarrow> shm \<Rightarrow> (MpscBufError, ReservedBuffer) result \<times> shm" where
  "reserve data_size ws locked sz s =
    (let cons_pos = consumer_pos s in
     if \<not> locked then (Err LockTimeout, s)
     else
       let (r, s') = reserve_locked data_size ws sz cons_pos (s\<lparr>spinlock := True\<rparr>) in
       (r, s'\<lparr>spinlock := False\<rparr>))"

definition as_mut_slice_write :: "usize \<Rightarrow> ReservedBuffer \<Rightarrow> nat \<Rightarrow> u8 list \<Rightarrow> shm \<Rightarrow> shm option" where
  "as_mut_slice_write data_size rb k xs s =
    (if k + length xs \<le> unat (rb_size rb)
     then Some (s\<lparr>area := write_area (unat data_size) (area s) (unat (record_pos rb) + 8 + k) xs\<rparr>)
     else None)"

definition update_header :: "usize \<Rightarrow> ReservedBuffer \<Rightarrow> (u64 \<Rightarrow> u64) \<Rightarrow> shm \<Rightarrow> shm" where
  "update_header data_size rb f s =
    s\<lparr>area := store_header (unat data_size) (area s) (unat (record_pos rb))
               (f (load_header (unat data_size) (area s) (unat (record_pos rb))))\<rparr>"

definition ReservedBuffer_drop :: "usize \<Rightarrow> ReservedBuffer \<Rightarrow> shm \<Rightarrow> shm \<times> bool" where
  "ReservedBuffer_drop data_size rb s =
    (let is_discarded = header_is_discarded (load_header (unat data_size) (area s) (unat (record_pos rb)));
         s1 = (if \<not> is_discarded then update_header data_size rb header_commit s else s) in
     case wakeup_strategy rb of
       Forced \<Rightarrow> (s1, True)
     | NoWakeup \<Rightarrow> (s1, False))"

definition ReservedBuffer_discard :: "usize \<Rightarrow> ReservedBuffer \<Rightarrow> shm \<Rightarrow> shm \<times> bool" where
  "ReservedBuffer_discard data_size rb s =
    ReservedBuffer_drop data_size rb (update_header data_size rb header_discard s)"

partial_function (option) consume :: "usize \<Rightarrow> shm \<Rightarrow> (Record option \<times> shm) option" where
  "consume data_size s =
    (let cons_pos = consumer_pos s;
         prod_pos = producer_pos s in
     if cons_pos \<ge> prod_pos then Some (None, s)
     else
       let offset = cons_pos AND size_mask data_size;
           (record_len_u32, flags) =
             header_len_and_flags (load_header (unat data_size) (area s) (unat offset)) in
       if flags AND BUSY_FLAG \<noteq> 0 then Some (None, s)
       else
         let record_len = ucast record_len_u32;
             total = round_up_to_8 (HEADER_SIZE + record_len) in
         if flags AND DISCARD_FLAG = 0
         then Some (Some \<lparr>rec_offset = offset + HEADER_SIZE, rec_len = record_len,
                          total_len = cons_pos + total\<rparr>, s)
         else consume data_size (advance_consumer (cons_pos + total) s))"

definition as_slice :: "usize \<Rightarrow> Record \<Rightarrow> shm \<Rightarrow> u8 list" where
  "as_slice data_size r s =
    read_area (unat data_size) (area s) (unat (rec_offset r)) (unat (rec_len r))"

definition Record_drop :: "Record \<Rightarrow> shm \<Rightarrow> shm" where
  "Record_drop r s = advance_consumer (total_len r) s"

definition available_records :: "shm \<Rightarrow> u64" where
  "available_records s = saturating_sub (producer_pos s) (consumer_pos s)"

subsection \<open>Construction\<close>

record 'fd Producer =
  prod_memory :: Memory
  prod_notification :: 'fd
  prod_wakeup :: WakeupStrategy

record 'fd Consumer =
  cons_memory :: Memory
  cons_notification :: 'fd

definition Producer_new ::
  "os \<Rightarrow> (nat \<Rightarrow> (Errno, unit) result) \<Rightarrow> nat \<Rightarrow> nat \<Rightarrow> usize \<Rightarrow> WakeupStrategy \<Rightarrow> address_space \<Rightarrow>
    (MpscBufError, nat Producer) result \<times> address_space" where
  "Producer_new os fstat memory_fd notification_fd data_size ws as =
    (case fstat memory_fd of
       Inl e \<Rightarrow> (Err (IoError e), as)
     | Inr _ \<Rightarrow>
         (case fstat notification_fd of
            Inl e \<Rightarrow> (Err (IoError e), as)
          | Inr _ \<Rightarrow>
              (case Memory_from_fd os memory_fd data_size as of
                 (Inl e, as') \<Rightarrow> (Err e, as')
               | (Inr m, as') \<Rightarrow>
                   (Ok \<lparr>prod_memory = m, prod_notification = notification_fd, prod_wakeup = ws\<rparr>, as'))))"

definition Consumer_new ::
  "os \<Rightarrow> (string, 'fd) result \<Rightarrow> usize \<Rightarrow> address_space \<Rightarrow> (MpscBufError, 'fd Consumer) result \<times> address_space" where
  "Consumer_new os eventfd data_size as =
    (case Memory_new os data_size as of
       (Inl e, as') \<Rightarrow> (Err e, as')
     | (Inr m, as') \<Rightarrow>
         (case Notification_new eventfd of
            Inl e \<Rightarrow> (Err e, Memory_drop os m as')
          | Inr fd \<Rightarrow> (Ok \<lparr>cons_memory = m, cons_notification = fd\<rparr>, as')))"

definition memory_size :: "os \<Rightarrow> 'fd Consumer \<Rightarrow> usize" where
  "memory_size os c = mem_data_size (cons_memory c) + sysconf_pagesize os"

section \<open>Slots\<close>

datatype slot = Busy u32 | Committed "u8 list" | Discarded u32 | Corrupt u32

fun slot_len :: "slot \<Rightarrow> nat" where
  "slot_len (Busy n) = unat n"
| "slot_len (Committed xs) = length xs"
| "slot_len (Discarded n) = unat n"
| "slot_len (Corrupt n) = unat n"

fun wf_slot :: "slot \<Rightarrow> bool" where
  "wf_slot (Corrupt n) = False"
| "wf_slot _ = True"

definition span :: "nat \<Rightarrow> nat" where
  "span n = (n + 15) div 8 * 8"

definition slot_at :: "nat \<Rightarrow> bytes \<Rightarrow> nat \<Rightarrow> slot" where
  "slot_at ds m c =
    (let (len, flags) = header_len_and_flags (load_header ds m c) in
     if flags = BUSY_FLAG then Busy len
     else if flags = DISCARD_FLAG then Discarded len
     else if flags = 0 then Committed (read_area ds m (c + 8) (unat len))
     else Corrupt len)"

fun slots :: "nat \<Rightarrow> bytes \<Rightarrow> nat \<Rightarrow> nat \<Rightarrow> (nat \<times> slot) list \<Rightarrow> bool" where
  "slots ds m c p [] \<longleftrightarrow> c = p"
| "slots ds m c p ((q, x) # rs) \<longleftrightarrow>
    q = c \<and> x = slot_at ds m c \<and> wf_slot x \<and> slots ds m (c + span (slot_len x)) p rs"

definition upd :: "nat \<Rightarrow> slot \<Rightarrow> (nat \<times> slot) list \<Rightarrow> (nat \<times> slot) list" where
  "upd q x rs = map (\<lambda>(q', y). (q', if q' = q then x else y)) rs"

fun q_consume :: "(nat \<times> slot) list \<Rightarrow> u8 list option \<times> (nat \<times> slot) list" where
  "q_consume [] = (None, [])"
| "q_consume ((q, Busy n) # rs) = (None, (q, Busy n) # rs)"
| "q_consume ((q, Committed xs) # rs) = (Some xs, (q, Committed xs) # rs)"
| "q_consume ((q, Discarded n) # rs) = q_consume rs"
| "q_consume ((q, Corrupt n) # rs) = (None, (q, Corrupt n) # rs)"

definition ring_rel :: "usize \<Rightarrow> shm \<Rightarrow> (nat \<times> slot) list \<Rightarrow> bool" where
  "ring_rel data_size s rs \<longleftrightarrow>
    is_power_of_two data_size \<and> 8 \<le> data_size \<and>
    8 dvd unat (consumer s) \<and>
    unat (producer s) < unat (consumer s) + unat data_size \<and>
    slots (unat data_size) (area s) (unat (consumer s)) (unat (producer s)) rs"

definition owns :: "usize \<Rightarrow> ReservedBuffer \<Rightarrow> nat \<Rightarrow> (nat \<times> slot) list \<Rightarrow> bool" where
  "owns data_size rb q rs \<longleftrightarrow>
    (q, Busy (ucast (rb_size rb))) \<in> set rs \<and> unat (rb_size rb) < 2 ^ 32 \<and>
    unat (record_pos rb) = q mod unat data_size"

section \<open>Slot lists and the byte store\<close>

lemma span_ge: "n + 8 \<le> span n" and span_le: "span n \<le> n + 15" and span_dvd [simp]: "8 dvd span n"
  unfolding span_def by (linarith, linarith, simp)

lemma span_mono: "m \<le> n \<Longrightarrow> span m \<le> span n"
  unfolding span_def by (simp add: div_le_mono)

lemma unat_reserve_total:
  assumes "unat sz + 15 < 2 ^ 64"
  shows "unat (reserve_total sz) = span (unat sz)"
proof -
  have "unat (sz + HEADER_SIZE) = unat sz + 8"
    using assms by (simp add: HEADER_SIZE_def unat_word_ariths)
  then show ?thesis
    using assms by (simp add: reserve_total_def unat_round_up_to_8 span_def)
qed

lemma slot_len_less: "slot_len (slot_at ds m c) < 2 ^ 32"
proof -
  have "unat (n :: u32) < 2 ^ 32" for n using unsigned_less [of n] by simp
  then show ?thesis by (auto simp: slot_at_def Let_def split: prod.splits)
qed

lemma slot_at_cong:
  assumes "\<And>q. c \<le> q \<Longrightarrow> q < c + span (slot_len (slot_at ds m c)) \<Longrightarrow> m' (q mod ds) = m (q mod ds)"
  shows "slot_at ds m' c = slot_at ds m c"
proof -
  obtain len flags where h: "header_len_and_flags (load_header ds m c) = (len, flags)" by fastforce
  have l: "slot_len (slot_at ds m c) = unat len"
    using h by (simp add: slot_at_def)
  have h': "load_header ds m' c = load_header ds m c"
    unfolding load_header_def
    by (rule load_u64_cong, rule assms) (use span_ge [of "unat len"] l in auto)
  have "read_area ds m' (c + 8) (unat len) = read_area ds m (c + 8) (unat len)"
    by (rule nth_equalityI) (use span_ge [of "unat len"] l in \<open>auto intro!: assms\<close>)
  then show ?thesis using h h' by (simp add: slot_at_def)
qed

lemma slots_le: "slots ds m c p rs \<Longrightarrow> c \<le> p"
  by (induction rs arbitrary: c) (auto, meson add_leD1)

lemma slots_dvd: "slots ds m c p rs \<Longrightarrow> 8 dvd c \<Longrightarrow> 8 dvd p"
  by (induction rs arbitrary: c) auto

lemma slots_append:
  "slots ds m c p (xs @ ys) \<longleftrightarrow> (\<exists>q. slots ds m c q xs \<and> slots ds m q p ys)"
  by (induction xs arbitrary: c) auto

lemma slots_cong:
  assumes "slots ds m c p rs" "\<And>q. c \<le> q \<Longrightarrow> q < p \<Longrightarrow> m' (q mod ds) = m (q mod ds)"
  shows "slots ds m' c p rs"
  using assms
proof (induction rs arbitrary: c)
  case (Cons r rs)
  obtain x where r: "r = (c, x)" "x = slot_at ds m c" "slots ds m (c + span (slot_len x)) p rs" "wf_slot x"
    using Cons.prems(1) by (cases r) auto
  have "slot_at ds m' c = slot_at ds m c"
    by (rule slot_at_cong) (use r(2) slots_le [OF r(3)] in \<open>auto intro!: Cons.prems(2)\<close>)
  moreover have "slots ds m' (c + span (slot_len x)) p rs"
    by (rule Cons.IH [OF r(3)]) (auto intro!: Cons.prems(2))
  ultimately show ?case using r by simp
qed simp

lemma slots_Cons_less: "slots ds m c p (r # rs) \<Longrightarrow> c < p"
  using span_ge [of "slot_len (slot_at ds m c)"] by (cases r) (auto dest: slots_le)

lemma slots_functional: "slots ds m c p rs \<Longrightarrow> slots ds m c p rs' \<Longrightarrow> rs = rs'"
proof (induction rs arbitrary: c rs')
  case Nil
  then show ?case by (cases rs') (auto dest: slots_Cons_less simp del: slots.simps(2))
next
  case (Cons r rs)
  from Cons.prems(1) have "c < p" by (rule slots_Cons_less)
  with Cons.prems(2) obtain r' rs2 where rs': "rs' = r' # rs2" by (cases rs') auto
  show ?case using Cons.prems Cons.IH unfolding rs' by (cases r; cases r') auto
qed

lemma slots_split:
  assumes "slots ds m c p rs" "(q, x) \<in> set rs"
  obtains ys zs where "rs = ys @ (q, x) # zs" "slots ds m c q ys" "x = slot_at ds m q"
    "slots ds m (q + span (slot_len x)) p zs"
proof -
  from assms(2) obtain ys zs where rs: "rs = ys @ (q, x) # zs" by (meson split_list)
  with assms(1) show thesis by (auto simp: slots_append intro!: that)
qed

lemma slots_positions:
  assumes "slots ds m c p rs" "(q, x) \<in> set rs"
  shows "c \<le> q" "q + span (slot_len x) \<le> p"
  using slots_split [OF assms] slots_le by metis+

lemma slots_less: "slots ds m c p rs \<Longrightarrow> (q, x) \<in> set rs \<Longrightarrow> q < p"
  using slots_positions [of ds m c p rs q x] span_ge [of "slot_len x"] by linarith

lemma slots_before: "slots ds m c q ys \<Longrightarrow> (q', x) \<in> set ys \<Longrightarrow> q' \<noteq> q"
  by (auto dest: slots_less)

lemma slots_after: "slots ds m (q + span n) p zs \<Longrightarrow> (q', x) \<in> set zs \<Longrightarrow> q' \<noteq> q"
  using slots_positions(1) [of ds m "q + span n" p zs q' x] span_ge [of n] by auto

lemma upd_absent: "(\<And>y. (q, y) \<notin> set ws) \<Longrightarrow> upd q x ws = ws"
  unfolding upd_def by (rule map_idI) auto

lemma upd_middle:
  assumes "\<And>y. (q, y) \<notin> set ys" "\<And>y. (q, y) \<notin> set zs"
  shows "upd q x (ys @ (q, y) # zs) = ys @ (q, x) # zs"
proof -
  have "upd q x (ys @ (q, y) # zs) = upd q x ys @ (q, x) # upd q x zs" by (simp add: upd_def)
  then show ?thesis using upd_absent [OF assms(1)] upd_absent [OF assms(2)] by simp
qed

lemma slots_split_upd:
  assumes "slots ds m c p rs" "(q, x) \<in> set rs"
  obtains ys zs where "rs = ys @ (q, x) # zs" "slots ds m c q ys" "x = slot_at ds m q"
    "slots ds m (q + span (slot_len x)) p zs" "\<And>x'. upd q x' rs = ys @ (q, x') # zs"
proof -
  obtain ys zs where rs: "rs = ys @ (q, x) # zs" and y: "slots ds m c q ys"
    and x: "x = slot_at ds m q" and z: "slots ds m (q + span (slot_len x)) p zs"
    using assms by (rule slots_split)
  have "(q, y') \<notin> set ys" for y' using slots_before [OF y, of q y'] by auto
  moreover have "(q, y') \<notin> set zs" for y' using slots_after [OF z, of q y'] by auto
  ultimately have "upd q x' rs = ys @ (q, x') # zs" for x'
    unfolding rs by (rule upd_middle)
  then show thesis by (rule that [OF rs y x z])
qed

lemma upd_same:
  assumes "slots ds m c p rs" "(q, x) \<in> set rs"
  shows "upd q x rs = rs"
  using slots_split_upd [OF assms] by metis

lemma slots_upd:
  assumes sl: "slots ds m c p rs" and q: "(q, x) \<in> set rs"
    and frame: "\<And>a. c \<le> a \<Longrightarrow> a < p \<Longrightarrow> a < q \<or> q + span (slot_len x) \<le> a \<Longrightarrow> m' (a mod ds) = m (a mod ds)"
    and x': "x' = slot_at ds m' q" "slot_len x' = slot_len x" "wf_slot x'"
  shows "slots ds m' c p (upd q x' rs)"
proof -
  obtain ys zs where y: "slots ds m c q ys" and z: "slots ds m (q + span (slot_len x)) p zs"
    and u: "upd q x' rs = ys @ (q, x') # zs"
    using slots_split_upd [OF sl q] by metis
  note le = slots_le [OF y] slots_le [OF z] span_ge [of "slot_len x"]
  have "slots ds m' c q ys"
    by (rule slots_cong [OF y], rule frame) (use le in simp_all)
  moreover have "slots ds m' (q + span (slot_len x)) p zs"
    by (rule slots_cong [OF z], rule frame) (use le in simp_all)
  ultimately show ?thesis
    unfolding u slots_append using x' by simp
qed

lemma ring_relD:
  assumes "ring_rel data_size s rs"
  shows "is_power_of_two data_size" "8 \<le> unat data_size" "8 dvd unat (consumer s)"
    "unat (producer s) < unat (consumer s) + unat data_size"
    "slots (unat data_size) (area s) (unat (consumer s)) (unat (producer s)) rs"
    "unat (consumer s) \<le> unat (producer s)" "8 dvd unat (producer s)"
  using assms slots_le slots_dvd by (auto simp: ring_rel_def word_le_nat_alt)

lemma unat_size_mask: "is_power_of_two n \<Longrightarrow> unat (size_mask n) = unat n - 1"
  unfolding size_mask_def by (subst unat_minus_one) (auto elim: is_power_of_twoE)

lemma unat_and_size_mask: "is_power_of_two n \<Longrightarrow> unat (x AND size_mask n) = unat x mod unat n"
  by (simp add: size_mask_def and_size_mask)

section \<open>Reserve\<close>

lemma slot_at_new:
  assumes "8 \<le> ds"
  shows "slot_at ds (store_header ds m q (header_new n)) q = Busy n"
  using assms by (simp add: slot_at_def header_simps)

lemma space_check:
  assumes rel: "ring_rel data_size s rs" and stale: "cons_pos \<le> consumer s"
    and sz: "unat sz + 15 < 2 ^ 64" "unat (producer s) + span (unat sz) < 2 ^ 64"
  shows "unat (producer s + reserve_total sz) = unat (producer s) + span (unat sz)"
    and "producer s + reserve_total sz - cons_pos > size_mask data_size \<longleftrightarrow>
      unat cons_pos + unat data_size \<le> unat (producer s) + span (unat sz)"
proof -
  note R = ring_relD [OF rel]
  show n: "unat (producer s + reserve_total sz) = unat (producer s) + span (unat sz)"
    using sz by (simp add: unat_word_ariths unat_reserve_total)
  have "unat cons_pos \<le> unat (producer s)"
    using stale R(6) by (auto simp: word_le_nat_alt)
  moreover from this have "unat (producer s + reserve_total sz - cons_pos) =
      unat (producer s) + span (unat sz) - unat cons_pos"
    using n by (subst unat_sub) (simp_all add: word_le_nat_alt)
  ultimately show "producer s + reserve_total sz - cons_pos > size_mask data_size \<longleftrightarrow>
      unat cons_pos + unat data_size \<le> unat (producer s) + span (unat sz)"
    using R(2) by (auto simp: word_less_nat_alt unat_size_mask R(1))
qed

lemma slots_store_at_end:
  assumes "ring_rel data_size s rs" "unat (producer s) + 8 \<le> unat (consumer s) + unat data_size"
  shows "slots (unat data_size) (store_header (unat data_size) (area s) (unat (producer s)) w)
    (unat (consumer s)) (unat (producer s)) rs"
  unfolding store_header_def
  by (rule slots_cong [OF ring_relD(5) [OF assms(1)]], rule write_area_window)
    (use assms(2) ring_relD(2) [OF assms(1)] in auto)

lemma reserve_locked_full:
  assumes rel: "ring_rel data_size s rs" and stale: "cons_pos \<le> consumer s"
    and sz: "unat sz + 15 < 2 ^ 64" "unat (producer s) + span (unat sz) < 2 ^ 64"
    and full: "unat cons_pos + unat data_size \<le> unat (producer s) + span (unat sz)"
  shows "reserve_locked data_size ws sz cons_pos s =
    (Err (InsufficientSpace (producer s + reserve_total sz) cons_pos (size_mask data_size)), s)"
  using space_check(2) [OF rel stale sz] full
  by (simp add: reserve_locked_def Let_def producer_pos_def)

lemma reserve_locked_space:
  assumes rel: "ring_rel data_size s rs" and stale: "cons_pos \<le> consumer s"
    and sz: "unat sz < 2 ^ 32" "unat (producer s) + span (unat sz) < 2 ^ 64"
    and space: "unat (producer s) + span (unat sz) < unat cons_pos + unat data_size"
  obtains rb s' where "reserve_locked data_size ws sz cons_pos s = (Ok rb, s')"
    "rb_size rb = sz" "unat (record_pos rb) = unat (producer s) mod unat data_size" "wakeup_strategy rb = ws"
    "ring_rel data_size s' (rs @ [(unat (producer s), Busy (ucast sz))])"
    "unat (producer s') = unat (producer s) + span (unat sz)" "consumer s' = consumer s"
    "dropped s' = dropped s" "spinlock s' = spinlock s"
proof -
  note R = ring_relD [OF rel]
  let ?ds = "unat data_size" and ?p = "unat (producer s)"
  let ?m = "store_header ?ds (area s) ?p (header_new (ucast sz))"
  have n: "unat (producer s + reserve_total sz) = ?p + span (unat sz)"
    and ok: "\<not> producer s + reserve_total sz - cons_pos > size_mask data_size"
    using space_check [OF rel stale _ sz(2)] sz(1) space by simp_all
  have len: "unat (ucast sz :: u32) = unat sz"
    using sz(1) by (simp add: unsigned_ucast_eq take_bit_nat_eq_self)
  have st: "unat cons_pos \<le> unat (consumer s)" using stale by (simp add: word_le_nat_alt)
  have "?p + 8 \<le> unat (consumer s) + ?ds" using space st span_ge [of "unat sz"] by linarith
  then have "slots ?ds ?m (unat (consumer s)) ?p rs" by (rule slots_store_at_end [OF rel])
  moreover have "slot_at ?ds ?m ?p = Busy (ucast sz)"
    using R(2) by (rule slot_at_new)
  ultimately have rel': "ring_rel data_size
      (s\<lparr>area := ?m, producer := producer s + reserve_total sz\<rparr>) (rs @ [(?p, Busy (ucast sz))])"
    using R space st n len by (auto simp: ring_rel_def slots_append word_le_nat_alt)
  have eq: "reserve_locked data_size ws sz cons_pos s =
      (Ok \<lparr>rb_size = sz, record_pos = producer s AND size_mask data_size, wakeup_strategy = ws\<rparr>,
       s\<lparr>area := ?m, producer := producer s + reserve_total sz\<rparr>)"
    using ok R(1)
    by (simp only: reserve_locked_def Let_def producer_pos_def advance_producer_def unat_and_size_mask
          store_header_mod if_False)
  show thesis
    by (rule that [OF eq _ _ _ rel']) (simp_all add: unat_and_size_mask R(1) n)
qed

lemma reserve_space:
  assumes rel: "ring_rel data_size s rs" and sz: "unat sz < 2 ^ 32" "unat (producer s) + span (unat sz) < 2 ^ 64"
    and space: "unat (producer s) + span (unat sz) < unat (consumer s) + unat data_size"
  obtains rb s' where "reserve data_size ws True sz s = (Ok rb, s')"
    "rb_size rb = sz" "wakeup_strategy rb = ws" "owns data_size rb (unat (producer s)) (rs @ [(unat (producer s), Busy (ucast sz))])"
    "ring_rel data_size s' (rs @ [(unat (producer s), Busy (ucast sz))])"
    "unat (producer s') = unat (producer s) + span (unat sz)" "consumer s' = consumer s"
    "dropped s' = dropped s" "\<not> spinlock s'"
proof -
  have rel': "ring_rel data_size (s\<lparr>spinlock := True\<rparr>) rs" using rel by (simp add: ring_rel_def)
  obtain rb s1 where 1: "reserve_locked data_size ws sz (consumer s) (s\<lparr>spinlock := True\<rparr>) = (Ok rb, s1)"
    "rb_size rb = sz" "unat (record_pos rb) = unat (producer s) mod unat data_size" "wakeup_strategy rb = ws"
    "ring_rel data_size s1 (rs @ [(unat (producer s), Busy (ucast sz))])"
    "unat (producer s1) = unat (producer s) + span (unat sz)" "consumer s1 = consumer s" "dropped s1 = dropped s"
    using reserve_locked_space [OF rel', of "consumer s" sz ws] sz space by (simp, blast)
  show thesis
    by (rule that [of rb "s1\<lparr>spinlock := False\<rparr>"])
      (use 1 sz(1) in \<open>simp_all add: reserve_def consumer_pos_def owns_def ring_rel_def\<close>)
qed

section \<open>Writing, committing and discarding a reserved slot\<close>

lemma unat_ucast_len: "unat sz < 2 ^ 32 \<Longrightarrow> unat (ucast (sz :: usize) :: u32) = unat sz"
  by (simp add: unsigned_ucast_eq take_bit_nat_eq_self)

lemma slot_at_flags:
  "slot_at ds m q = Busy n \<Longrightarrow> header_len_and_flags (load_header ds m q) = (n, BUSY_FLAG)"
  "slot_at ds m q = Discarded n \<Longrightarrow> header_len_and_flags (load_header ds m q) = (n, DISCARD_FLAG)"
  "slot_at ds m q = Committed xs \<Longrightarrow> header_len_and_flags (load_header ds m q) = (word_of_nat (length xs), 0)"
  by (cases "header_len_and_flags (load_header ds m q)", auto simp: slot_at_def split: if_splits)+

lemma slot_at_BusyD:
  "slot_at ds m q = Busy n \<Longrightarrow> fst (header_len_and_flags (load_header ds m q)) = n"
  by (drule slot_at_flags) simp

lemma slot_at_Busy_cong:
  "load_header ds m' q = load_header ds m q \<Longrightarrow> slot_at ds m q = Busy n \<Longrightarrow> slot_at ds m' q = Busy n"
  by (cases "header_len_and_flags (load_header ds m q)") (simp add: slot_at_def split: if_splits)

lemma slot_at_commit:
  assumes "slot_at ds m q = Busy n" "unat n + 8 \<le> ds" "8 \<le> ds"
  shows "slot_at ds (store_header ds m q (header_commit (load_header ds m q))) q =
    Committed (read_area ds m (q + 8) (unat n))"
proof -
  have "read_area ds (store_header ds m q w) (q + 8) (unat n) = read_area ds m (q + 8) (unat n)" for w
    unfolding store_header_def using assms(2) by (intro read_write_area_other) simp
  then show ?thesis
    using assms(3) slot_at_BusyD [OF assms(1)] by (simp add: slot_at_def header_simps)
qed

lemma slot_at_discard:
  assumes "slot_at ds m q = Busy n" "8 \<le> ds"
  shows "slot_at ds (store_header ds m q (header_discard (load_header ds m q))) q = Discarded n"
  using assms(2) slot_at_BusyD [OF assms(1)] by (simp add: slot_at_def header_simps)

lemma ownsD:
  assumes "ring_rel data_size s rs" "owns data_size rb q rs"
  shows "slot_at (unat data_size) (area s) q = Busy (ucast (rb_size rb))"
    "unat (consumer s) \<le> q" "q + span (unat (rb_size rb)) \<le> unat (producer s)"
    "unat (rb_size rb) + 8 < unat data_size"
proof -
  note R = ring_relD [OF assms(1)]
  have q: "(q, Busy (ucast (rb_size rb))) \<in> set rs" "unat (ucast (rb_size rb) :: u32) = unat (rb_size rb)"
    using assms(2) by (auto simp: owns_def unat_ucast_len)
  show "slot_at (unat data_size) (area s) q = Busy (ucast (rb_size rb))"
    using slots_split [OF R(5) q(1)] by metis
  show "unat (consumer s) \<le> q" "q + span (unat (rb_size rb)) \<le> unat (producer s)"
    using slots_positions [OF R(5) q(1)] q(2) by simp_all
  then show "unat (rb_size rb) + 8 < unat data_size"
    using R(4) span_ge [of "unat (rb_size rb)"] by linarith
qed

lemma header_store_rel:
  assumes rel: "ring_rel data_size s rs" and own: "owns data_size rb q rs"
    and x: "slot_at (unat data_size) (store_header (unat data_size) (area s) q w) q = x"
      "slot_len x = unat (rb_size rb)" "wf_slot x"
  shows "ring_rel data_size (s\<lparr>area := store_header (unat data_size) (area s) q w\<rparr>) (upd q x rs)"
proof -
  note R = ring_relD [OF rel] and O = ownsD [OF rel own]
  have q: "(q, Busy (ucast (rb_size rb))) \<in> set rs"
    and len: "unat (ucast (rb_size rb) :: u32) = unat (rb_size rb)"
    using own by (auto simp: owns_def unat_ucast_len)
  have "slots (unat data_size) (store_header (unat data_size) (area s) q w)
      (unat (consumer s)) (unat (producer s)) (upd q x rs)"
  proof (rule slots_upd [OF R(5) q])
    fix a assume a: "unat (consumer s) \<le> a" "a < unat (producer s)"
      "a < q \<or> q + span (slot_len (Busy (ucast (rb_size rb)))) \<le> a"
    then have "q + 8 \<le> a \<and> a < q + unat data_size \<or> a < q \<and> q + 8 \<le> a + unat data_size"
      using O(2,3) R(4) len span_ge [of "unat (rb_size rb)"] by auto
    then show "store_header (unat data_size) (area s) q w (a mod unat data_size) = area s (a mod unat data_size)"
      unfolding store_header_def by (intro write_area_window) simp
  qed (use x len in auto)
  then show ?thesis using rel by (simp add: ring_rel_def)
qed

lemma write_rel:
  assumes rel: "ring_rel data_size s rs" and own: "owns data_size rb q rs"
    and w: "as_mut_slice_write data_size rb k xs s = Some s'"
  shows "ring_rel data_size s' rs"
    and "k = 0 \<Longrightarrow> length xs = unat (rb_size rb) \<Longrightarrow>
      read_area (unat data_size) (area s') (q + 8) (unat (rb_size rb)) = xs"
proof -
  note R = ring_relD [OF rel] and O = ownsD [OF rel own]
  let ?ds = "unat data_size" and ?n = "unat (rb_size rb)"
  have q: "(q, Busy (ucast (rb_size rb))) \<in> set rs" "unat (record_pos rb) = q mod ?ds"
    and len: "unat (ucast (rb_size rb) :: u32) = ?n"
    using own by (auto simp: owns_def unat_ucast_len)
  have k: "k + length xs \<le> ?n" and "s' = s\<lparr>area := write_area ?ds (area s) (q mod ?ds + 8 + k) xs\<rparr>"
    using w q by (auto simp: as_mut_slice_write_def split: if_splits)
  then have s': "s' = s\<lparr>area := write_area ?ds (area s) (q + 8 + k) xs\<rparr>"
    by (simp add: add.assoc write_area_mod_add)
  have fit: "q + 8 + k + length xs \<le> q + span ?n" using k span_ge [of ?n] by linarith
  have a: "area s' = write_area ?ds (area s) (q + 8 + k) xs" by (simp add: s')
  have x: "slot_at ?ds (area s') q = Busy (ucast (rb_size rb))"
    unfolding a using O(4) k by (intro slot_at_Busy_cong [OF load_header_write_area O(1)]) simp
  have "area s' (b mod ?ds) = area s (b mod ?ds)"
    if "unat (consumer s) \<le> b" "b < unat (producer s)" "b < q \<or> q + span (slot_len (Busy (ucast (rb_size rb)))) \<le> b" for b
  proof -
    have "q + 8 + k + length xs \<le> b \<and> b < q + 8 + k + ?ds \<or> b < q + 8 + k \<and> q + 8 + k + length xs \<le> b + ?ds"
      using that O(2,3) R(4) len fit by auto
    then show ?thesis unfolding a by (rule write_area_window)
  qed
  then have "slots ?ds (area s') (unat (consumer s)) (unat (producer s)) (upd q (Busy (ucast (rb_size rb))) rs)"
    by (rule slots_upd [OF R(5) q(1)]) (simp_all add: x)
  then have "slots ?ds (area s') (unat (consumer s)) (unat (producer s)) rs"
    by (simp only: upd_same [OF R(5) q(1)])
  then show "ring_rel data_size s' rs" using rel by (simp add: ring_rel_def s')
  show "read_area ?ds (area s') (q + 8) ?n = xs" if "k = 0" "length xs = ?n"
    using that O(4) read_write_area [of xs ?ds "area s" "q + 8"] by (simp add: a)
qed

lemma update_header_abs:
  assumes "owns data_size rb q rs"
  shows "update_header data_size rb f s = s\<lparr>area :=
    store_header (unat data_size) (area s) q (f (load_header (unat data_size) (area s) q))\<rparr>"
  using assms by (simp add: update_header_def owns_def)

lemma commit_rel:
  assumes rel: "ring_rel data_size s rs" and own: "owns data_size rb q rs"
  shows "ring_rel data_size (update_header data_size rb header_commit s)
    (upd q (Committed (read_area (unat data_size) (area s) (q + 8) (unat (rb_size rb)))) rs)"
proof -
  note O = ownsD [OF rel own]
  have "unat (ucast (rb_size rb) :: u32) = unat (rb_size rb)"
    using own by (auto simp: owns_def unat_ucast_len)
  then show ?thesis
    unfolding update_header_abs [OF own]
    using O ring_relD(2) [OF rel] slot_at_commit [OF O(1)] by (intro header_store_rel [OF rel own]) auto
qed

lemma discard_rel:
  assumes rel: "ring_rel data_size s rs" and own: "owns data_size rb q rs"
  shows "ring_rel data_size (update_header data_size rb header_discard s)
    (upd q (Discarded (ucast (rb_size rb))) rs)"
  unfolding update_header_abs [OF own]
  using ring_relD(2) [OF rel] own slot_at_discard [OF ownsD(1) [OF rel own]]
  by (intro header_store_rel [OF rel own]) (auto simp: owns_def unat_ucast_len)

lemma Busy_not_discarded: "slot_at ds m q = Busy n \<Longrightarrow> \<not> header_is_discarded (load_header ds m q)"
  by (cases "header_len_and_flags (load_header ds m q)")
    (simp add: slot_at_def is_discarded_flags header_simps split: if_splits)

lemma Discarded_is_discarded: "slot_at ds m q = Discarded n \<Longrightarrow> header_is_discarded (load_header ds m q)"
  by (cases "header_len_and_flags (load_header ds m q)")
    (simp add: slot_at_def is_discarded_flags header_simps split: if_splits)

lemma drop_commits:
  assumes "ring_rel data_size s rs" "owns data_size rb q rs"
  shows "ReservedBuffer_drop data_size rb s =
    (update_header data_size rb header_commit s, wakeup_strategy rb = Forced)"
  using Busy_not_discarded [OF ownsD(1) [OF assms]] assms(2)
  by (simp add: ReservedBuffer_drop_def owns_def Let_def split: WakeupStrategy.splits)

lemma discard_drops:
  assumes "ring_rel data_size s rs" "owns data_size rb q rs"
  shows "ReservedBuffer_discard data_size rb s =
    (update_header data_size rb header_discard s, wakeup_strategy rb = Forced)"
proof -
  have "header_is_discarded (load_header (unat data_size) (area (update_header data_size rb header_discard s))
      (unat (record_pos rb)))"
    using ring_relD(2) [OF assms(1)] by (simp add: update_header_def is_discarded_cases)
  then show ?thesis
    by (simp add: ReservedBuffer_discard_def ReservedBuffer_drop_def Let_def split: WakeupStrategy.splits)
qed

section \<open>Consume\<close>

lemma ring_rel_ConsD:
  assumes "ring_rel data_size s ((q, x) # rs)"
  shows "q = unat (consumer s)" "x = slot_at (unat data_size) (area s) (unat (consumer s))" "wf_slot x"
    "slots (unat data_size) (area s) (unat (consumer s) + span (slot_len x)) (unat (producer s)) rs"
  using ring_relD(5) [OF assms] unfolding slots.simps by blast+

lemma consume_head:
  assumes rel: "ring_rel data_size s ((q, x) # rs)" and w: "unat w = slot_len x"
  shows "unat (consumer s + round_up_to_8 (HEADER_SIZE + w)) = unat (consumer s) + span (slot_len x)"
    and "ring_rel data_size (advance_consumer (consumer s + round_up_to_8 (HEADER_SIZE + w)) s) rs"
proof -
  note C = ring_rel_ConsD [OF rel]
  have "slot_len x < 2 ^ 32" unfolding C(2) by (rule slot_len_less)
  then have "unat w + 15 < 2 ^ 64" using w by simp
  from unat_reserve_total [OF this] have t: "unat (round_up_to_8 (HEADER_SIZE + w)) = span (slot_len x)"
    unfolding reserve_total_def w by (simp only: add.commute)
  have "unat (consumer s) + span (slot_len x) < 2 ^ LENGTH(64)"
    using slots_le [OF C(4)] unat_lt [of "producer s"] by (rule le_less_trans)
  then show 1: "unat (consumer s + round_up_to_8 (HEADER_SIZE + w)) = unat (consumer s) + span (slot_len x)"
    by (simp only: unat_word_ariths(1) t mod_less)
  show "ring_rel data_size (advance_consumer (consumer s + round_up_to_8 (HEADER_SIZE + w)) s) rs"
    using ring_relD [OF rel] C(4) rel unfolding ring_rel_def advance_consumer_def
    by (simp add: 1 del: slots.simps)
qed

lemma consume_empty: "ring_rel data_size s [] \<Longrightarrow> consume data_size s = Some (None, s)"
  by (subst consume.simps) (simp add: ring_rel_def consumer_pos_def producer_pos_def word_le_nat_alt)

lemma consume_nonempty:
  assumes rel: "ring_rel data_size s ((q, x) # rs)"
  shows "consume data_size s = (case x of
      Busy n \<Rightarrow> Some (None, s)
    | Committed xs \<Rightarrow> Some (Some \<lparr>rec_offset = (consumer s AND size_mask data_size) + HEADER_SIZE,
        rec_len = word_of_nat (length xs),
        total_len = consumer s + round_up_to_8 (HEADER_SIZE + word_of_nat (length xs))\<rparr>, s)
    | Discarded n \<Rightarrow> consume data_size (advance_consumer (consumer s + round_up_to_8 (HEADER_SIZE + ucast n)) s)
    | Corrupt n \<Rightarrow> undefined)"
proof -
  note R = ring_relD [OF rel]
  have "unat (consumer s) < unat (producer s)"
    using R(5) by (rule slots_Cons_less)
  then have lt: "\<not> producer s \<le> consumer s" by (simp add: word_le_nat_alt)
  have off: "unat (consumer s AND size_mask data_size) = unat (consumer s) mod unat data_size"
    using R(1) by (rule unat_and_size_mask)
  note x = ring_rel_ConsD(2,3) [OF rel]
  note step = consume.simps [of data_size s, unfolded consumer_pos_def producer_pos_def Let_def off load_header_mod]
  show ?thesis
  proof (cases x)
    case (Busy n)
    with x have "slot_at (unat data_size) (area s) (unat (consumer s)) = Busy n" by simp
    from slot_at_flags(1) [OF this] show ?thesis using lt Busy by (simp add: step header_simps)
  next
    case (Committed xs)
    with x have c: "slot_at (unat data_size) (area s) (unat (consumer s)) = Committed xs" by simp
    have "length xs < 2 ^ 32"
      using slot_len_less [of "unat data_size" "area s" "unat (consumer s)"] by (simp add: c)
    then have "(ucast (word_of_nat (length xs) :: u32) :: usize) = word_of_nat (length xs)"
      by (simp add: word_unat_eq_iff unat_of_nat)
    with slot_at_flags(3) [OF c] show ?thesis using lt Committed by (simp add: step)
  next
    case (Discarded n)
    with x have "slot_at (unat data_size) (area s) (unat (consumer s)) = Discarded n" by simp
    from slot_at_flags(2) [OF this] show ?thesis using lt Discarded by (simp add: step header_simps)
  next
    case (Corrupt n)
    then show ?thesis using x(2) by simp
  qed
qed

lemma as_slice_head:
  assumes rel: "ring_rel data_size s ((q, Committed xs) # rs)"
  shows "as_slice data_size \<lparr>rec_offset = (consumer s AND size_mask data_size) + HEADER_SIZE,
    rec_len = word_of_nat (length xs), total_len = n\<rparr> s = xs"
proof -
  note R = ring_relD [OF rel] and C = ring_rel_ConsD [OF rel]
  let ?ds = "unat data_size" and ?c = "unat (consumer s)"
  have "length xs < 2 ^ 32" using C(2) slot_len_less [of ?ds "area s" ?c] by (metis slot_len.simps(2))
  then have len: "unat (word_of_nat (length xs) :: usize) = length xs"
    by (simp add: unat_of_nat)
  have xs: "xs = read_area ?ds (area s) (?c + 8) (length xs)"
    using C(2) by (cases "header_len_and_flags (load_header ?ds (area s) ?c)")
      (simp add: slot_at_def split: if_splits)
  have "8 dvd ?ds" using R(1,2) by (rule is_power_of_two_dvd_8)
  then have "?c mod ?ds + 8 \<le> ?ds" using R(2,3) by (intro dvd_less_add) (auto simp: dvd_mod)
  also have "?ds < 2 ^ LENGTH(64)" by (rule unsigned_less)
  finally have "unat ((consumer s AND size_mask data_size) + HEADER_SIZE) = ?c mod ?ds + 8"
    using R(1) by (simp add: HEADER_SIZE_def unat_word_ariths(1) unat_and_size_mask)
  then show ?thesis
    using xs by (simp add: as_slice_def len read_area_mod_add)
qed

lemma consume_spec:
  assumes "ring_rel data_size s rs"
  obtains r s' where "consume data_size s = Some (r, s')"
    "ring_rel data_size s' (snd (q_consume rs))"
    "map_option (\<lambda>r. as_slice data_size r s') r = fst (q_consume rs)"
    "\<And>rec. r = Some rec \<Longrightarrow> ring_rel data_size (Record_drop rec s') (tl (snd (q_consume rs)))"
    "s' = s\<lparr>consumer := consumer s'\<rparr>"
proof -
  have "\<exists>r s'. consume data_size s = Some (r, s') \<and> ring_rel data_size s' (snd (q_consume rs)) \<and>
      map_option (\<lambda>r. as_slice data_size r s') r = fst (q_consume rs) \<and>
      (\<forall>rec. r = Some rec \<longrightarrow> ring_rel data_size (Record_drop rec s') (tl (snd (q_consume rs)))) \<and>
      s' = s\<lparr>consumer := consumer s'\<rparr>"
    using assms
  proof (induction rs arbitrary: s rule: q_consume.induct)
    case 1
    then show ?case using consume_empty by fastforce
  next
    case (2 q n rs)
    then show ?case using consume_nonempty [OF 2] by simp
  next
    case (3 q xs rs)
    have "slot_len (Committed xs) < 2 ^ 32"
      using ring_rel_ConsD(2) [OF 3] slot_len_less by simp
    then have "unat (word_of_nat (length xs) :: usize) = length xs" by (simp add: unat_of_nat)
    with 3 show ?case
      using consume_nonempty [OF 3] as_slice_head [OF 3] consume_head(2) [OF 3]
      by (simp add: Record_drop_def)
  next
    case (4 q n rs)
    have "unat (ucast n :: usize) = slot_len (Discarded n)" by simp
    then have "ring_rel data_size (advance_consumer (consumer s + round_up_to_8 (HEADER_SIZE + ucast n)) s) rs"
      by (rule consume_head(2) [OF 4(2)])
    from 4(1) [OF this] show ?case
      unfolding consume_nonempty [OF 4(2)] by (auto simp: advance_consumer_def)
  next
    case (5 q n rs)
    then show ?case using ring_rel_ConsD(3) [OF 5] by simp
  qed
  then show thesis using that by blast
qed

lemma reserve_full:
  assumes "ring_rel data_size s rs" "\<not> spinlock s" "unat sz < 2 ^ 32" "unat (producer s) + span (unat sz) < 2 ^ 64"
    "\<not> unat (producer s) + span (unat sz) < unat (consumer s) + unat data_size"
  shows "reserve data_size ws True sz s =
    (Err (InsufficientSpace (producer s + reserve_total sz) (consumer s) (size_mask data_size)), s)"
proof -
  have "ring_rel data_size (s\<lparr>spinlock := True\<rparr>) rs" using assms(1) by (simp add: ring_rel_def)
  from reserve_locked_full [OF this, of "consumer s" sz ws] assms(3-5)
  have "reserve_locked data_size ws sz (consumer s) (s\<lparr>spinlock := True\<rparr>) =
      (Err (InsufficientSpace (producer s + reserve_total sz) (consumer s) (size_mask data_size)), s\<lparr>spinlock := True\<rparr>)"
    by simp
  moreover have "s\<lparr>spinlock := False\<rparr> = s" using assms(2) by simp
  ultimately show ?thesis by (simp add: reserve_def consumer_pos_def)
qed

lemma write_drop_rel:
  assumes "ring_rel data_size s rs" "owns data_size rb q rs" "length xs = unat (rb_size rb)"
  shows "\<exists>s1 s2. as_mut_slice_write data_size rb 0 xs s = Some s1 \<and>
    ReservedBuffer_drop data_size rb s1 = (s2, wakeup_strategy rb = Forced) \<and>
    ring_rel data_size s2 (upd q (Committed xs) rs) \<and>
    producer s2 = producer s \<and> consumer s2 = consumer s \<and> spinlock s2 = spinlock s \<and> dropped s2 = dropped s"
proof -
  obtain s1 where w: "as_mut_slice_write data_size rb 0 xs s = Some s1"
    and f: "producer s1 = producer s" "consumer s1 = consumer s" "spinlock s1 = spinlock s" "dropped s1 = dropped s"
    using assms(3) by (simp add: as_mut_slice_write_def)
  note R = write_rel [OF assms(1,2) w]
  have "ring_rel data_size (update_header data_size rb header_commit s1) (upd q (Committed xs) rs)"
    using commit_rel [OF R(1) assms(2)] R(2) assms(3) by simp
  with w f drop_commits [OF R(1) assms(2)] show ?thesis by (simp add: update_header_def)
qed

section \<open>Properties\<close>

text \<open>
  A fresh header reads back as the reserved length with exactly the busy flag;
  committing and discarding keep the length of any header and leave exactly no flag and exactly the
  discard flag; \<open>is_discarded\<close> recognises the discarded ones only.
\<close>

theorem header_round_trip:
  "header_len_and_flags (header_new len) = (len, BUSY_FLAG) \<and>
    header_len_and_flags (header_commit h) = (fst (header_len_and_flags h), 0) \<and>
    header_len_and_flags (header_discard h) = (fst (header_len_and_flags h), DISCARD_FLAG) \<and>
    \<not> header_is_discarded (header_new len) \<and> header_is_discarded (header_discard h) \<and>
    \<not> header_is_discarded (header_commit h)"
  by (simp add: header_simps)


text \<open>
  Dropping a reserved buffer commits its slot with exactly the bytes written into it,
  asks for a wakeup exactly under the forced strategy, and changes no other slot.
\<close>

theorem write_then_drop_commits:
  assumes "ring_rel data_size s rs" "owns data_size rb q rs" "length xs = unat (rb_size rb)"
  shows "\<exists>s1 s2. as_mut_slice_write data_size rb 0 xs s = Some s1 \<and>
    ReservedBuffer_drop data_size rb s1 = (s2, wakeup_strategy rb = Forced) \<and>
    ring_rel data_size s2 (upd q (Committed xs) rs) \<and>
    producer s2 = producer s \<and> consumer s2 = consumer s \<and> spinlock s2 = spinlock s \<and> dropped s2 = dropped s"
  by (rule write_drop_rel [OF assms])

text \<open>
  C6 (consume): the loop of \<open>Consumer::consume\<close> always ends.  It skips the discarded slots at the
  front, returns nothing when it then meets the end of the queue or a busy slot, and otherwise
  returns exactly the bytes of the committed slot, which dropping the record removes.
\<close>

theorem consume_returns_front:
  assumes "ring_rel data_size s rs"
  shows "\<exists>r s'. consume data_size s = Some (r, s') \<and> s' = s\<lparr>consumer := consumer s'\<rparr> \<and>
    map_option (\<lambda>r. as_slice data_size r s') r = fst (q_consume rs) \<and>
    ring_rel data_size s' (snd (q_consume rs)) \<and>
    (\<forall>rec. r = Some rec \<longrightarrow> ring_rel data_size (Record_drop rec s') (tl (snd (q_consume rs))))"
  using consume_spec [OF assms] by metis

text \<open>
  C8 (finding): the space computation of \<open>reserve\<close> wraps for sizes close to the address space.  A
  request of \<open>2 ^ 64 - 16\<close> bytes on a ring holding one record of 8 bytes succeeds and moves the
  producer position back onto that record.
\<close>

theorem reserve_size_wrap:
  assumes "is_power_of_two data_size" "8 < data_size" "consumer s + 16 = producer s"
  shows "fst (reserve data_size ws True (- 16) s) =
      Ok \<lparr>rb_size = - 16, record_pos = producer s AND size_mask data_size, wakeup_strategy = ws\<rparr> \<and>
    producer (snd (reserve data_size ws True (- 16) s)) = producer s - 8"
proof -
  have t: "reserve_total (- 16) = - 8" by (simp add: reserve_total_def HEADER_SIZE_def round_up_to_8_def div_ceil_def)
  have "unat data_size \<ge> 9" using assms(2) by (simp add: word_less_nat_alt)
  then have m: "\<not> size_mask data_size < 8"
    using unat_size_mask [OF assms(1)] by (simp add: word_less_nat_alt)
  have e: "producer s - 8 - consumer s = 8"
    unfolding assms(3) [symmetric] by simp
  have "\<not> size_mask data_size < producer s - 8 - consumer s" unfolding e by (rule m)
  then show ?thesis
    by (simp add: reserve_def reserve_locked_def Let_def producer_pos_def consumer_pos_def t advance_producer_def)
qed

section \<open>Witnesses\<close>

definition example_ring :: shm where
  "example_ring = \<lparr>spinlock = False, producer = 32, consumer = 0, dropped = 0,
    area = write_area 4096 (write_area 4096 (\<lambda>_. 0) 0 (le_bytes (header_commit 2) @ [7, 9])) 16 (le_bytes (header_new 3))\<rparr>"

lemma example_ring_rel: "ring_rel 4096 example_ring [(0, Committed [7, 9]), (16, Busy 3)]"
proof -
  have p: "is_power_of_two 4096" by code_simp
  let ?m = "area example_ring"
  have h0: "load_header 4096 ?m 0 = 2" and h1: "load_header 4096 ?m 16 = header_new 3"
    by (simp_all add: example_ring_def load_header_def load_u64_def le_bytes_def header_commit_def header_new_def
        BUSY_FLAG_def upt_rec)
  have d: "read_area 4096 ?m 8 2 = [7, 9]"
    by (simp add: example_ring_def read_area_def le_bytes_def header_new_def header_commit_def BUSY_FLAG_def upt_rec)
  have "slot_at 4096 ?m 0 = Committed [7, 9]"
    using d by (simp add: slot_at_def h0 header_len_and_flags_def header_simps)
  moreover have "slot_at 4096 ?m 16 = Busy 3" by (simp add: slot_at_def h1 len_and_flags_new)
  ultimately show ?thesis using p by (simp add: ring_rel_def example_ring_def span_def)
qed

lemma example_owner: "owns 4096 \<lparr>rb_size = 3, record_pos = 16, wakeup_strategy = Forced\<rparr> 16 [(0, Committed [7, 9]), (16, Busy 3)]"
  by (simp add: owns_def)


theorem write_then_drop_commits_witness:
  "\<exists>s1 s2. as_mut_slice_write 4096 \<lparr>rb_size = 3, record_pos = 16, wakeup_strategy = Forced\<rparr> 0 [1, 2, 3] example_ring = Some s1 \<and>
    ReservedBuffer_drop 4096 \<lparr>rb_size = 3, record_pos = 16, wakeup_strategy = Forced\<rparr> s1 = (s2, True) \<and>
    ring_rel 4096 s2 [(0, Committed [7, 9]), (16, Committed [1, 2, 3])]"
  using write_then_drop_commits [OF example_ring_rel example_owner, of "[1, 2, 3]"] by (auto simp: upd_def)

theorem consume_returns_front_witness:
  "\<exists>r s'. consume 4096 example_ring = Some (Some r, s') \<and> as_slice 4096 r s' = [7, 9] \<and>
    ring_rel 4096 (Record_drop r s') [(16, Busy 3)]"
  using consume_returns_front [OF example_ring_rel] by auto

theorem reserve_size_wrap_witness:
  "producer (snd (reserve 4096 Forced True (- 16) (example_ring\<lparr>producer := 16\<rparr>))) = 8"
proof -
  have "is_power_of_two 4096" by code_simp
  from reserve_size_wrap [OF this, of "example_ring\<lparr>producer := 16\<rparr>" Forced]
  show ?thesis by (simp add: example_ring_def)
qed

end
