(* ===== verification/MpscConcurrent.thy ===== *)
theory MpscConcurrent
  imports MpscRing
begin

text \<open>
  The ring buffer under concurrency: any number of producers and the one consumer interleave at
  the granularity of the atomic accesses of producer.rs and consumer.rs.  Interleavings are
  sequentially consistent; the acquire/release orderings of the source are what makes the payload
  accesses fit this view.

  A producer's program counter records where it is inside \<open>reserve\<close>, inside the use of the
  \<open>ReservedBuffer\<close>, or inside its \<open>drop\<close>, together with its local variables.  The natural number
  carried along is the absolute position of the reserved slot; no step reads it, it only names the
  slot in the proofs.  \<open>step\<close> has every producer and consumer step except those of
  \<open>ReservedBuffer::discard\<close>, which \<open>step_discard\<close> adds.
\<close>

section \<open>Definitions\<close>

datatype pc =
    Idle
  | ReadCons usize u64
  | Locked usize u64
  | HeaderWritten ReservedBuffer nat u64
  | Advanced ReservedBuffer nat
  | Owner ReservedBuffer nat
  | DropLoaded ReservedBuffer nat bool
  | CommitLoaded ReservedBuffer nat u64
  | DiscardLoaded ReservedBuffer nat u64
  | DiscardStored ReservedBuffer nat

datatype cpc = CIdle | CStart u64 | CCheck u64 | CSkip u64 | CHold Record

record sys =
  mem :: shm
  pcs :: "nat \<Rightarrow> pc"
  cons :: cpc

definition sys_init :: "bytes \<Rightarrow> sys" where
  "sys_init data = \<lparr>mem = RingBuf_new data, pcs = (\<lambda>_. Idle), cons = CIdle\<rparr>"

definition at_pc :: "nat \<Rightarrow> pc \<Rightarrow> shm \<Rightarrow> sys \<Rightarrow> sys" where
  "at_pc i p m s = s\<lparr>mem := m, pcs := (pcs s)(i := p)\<rparr>"

definition at_cons :: "cpc \<Rightarrow> shm \<Rightarrow> sys \<Rightarrow> sys" where
  "at_cons p m s = s\<lparr>mem := m, cons := p\<rparr>"

definition rb_header :: "usize \<Rightarrow> ReservedBuffer \<Rightarrow> shm \<Rightarrow> u64" where
  "rb_header ds rb m = load_header (unat ds) (area m) (unat (record_pos rb))"

inductive pstep :: "usize \<Rightarrow> WakeupStrategy \<Rightarrow> nat \<Rightarrow> sys \<Rightarrow> sys \<Rightarrow> bool"
  for ds :: usize and ws :: WakeupStrategy and i :: nat where
  p_begin: "pcs s i = Idle \<Longrightarrow> unat sz < 2 ^ 32 \<Longrightarrow>
    pstep ds ws i s (at_pc i (ReadCons sz (consumer_pos (mem s))) (mem s) s)"
| p_lock: "pcs s i = ReadCons sz c \<Longrightarrow> \<not> spinlock (mem s) \<Longrightarrow>
    pstep ds ws i s (at_pc i (Locked sz c) ((mem s)\<lparr>spinlock := True\<rparr>) s)"
| p_timeout: "pcs s i = ReadCons sz c \<Longrightarrow> pstep ds ws i s (at_pc i Idle (mem s) s)"
| p_full: "pcs s i = Locked sz c \<Longrightarrow>
    producer_pos (mem s) + reserve_total sz - c > size_mask ds \<Longrightarrow>
    pstep ds ws i s (at_pc i Idle ((mem s)\<lparr>spinlock := False\<rparr>) s)"
| p_header: "pcs s i = Locked sz c \<Longrightarrow>
    \<not> producer_pos (mem s) + reserve_total sz - c > size_mask ds \<Longrightarrow>
    offset = producer_pos (mem s) AND size_mask ds \<Longrightarrow>
    pstep ds ws i s (at_pc i
      (HeaderWritten \<lparr>rb_size = sz, record_pos = offset, wakeup_strategy = ws\<rparr>
        (unat (producer_pos (mem s))) (producer_pos (mem s) + reserve_total sz))
      ((mem s)\<lparr>area := store_header (unat ds) (area (mem s)) (unat offset) (header_new (ucast sz))\<rparr>) s)"
| p_advance: "pcs s i = HeaderWritten rb q new_prod_pos \<Longrightarrow>
    pstep ds ws i s (at_pc i (Advanced rb q) (advance_producer new_prod_pos (mem s)) s)"
| p_unlock: "pcs s i = Advanced rb q \<Longrightarrow>
    pstep ds ws i s (at_pc i (Owner rb q) ((mem s)\<lparr>spinlock := False\<rparr>) s)"
| p_write: "pcs s i = Owner rb q \<Longrightarrow> as_mut_slice_write ds rb k xs (mem s) = Some m \<Longrightarrow>
    pstep ds ws i s (at_pc i (Owner rb q) m s)"
| p_drop: "pcs s i = Owner rb q \<Longrightarrow>
    pstep ds ws i s (at_pc i (DropLoaded rb q (header_is_discarded (rb_header ds rb (mem s)))) (mem s) s)"
| p_dropped: "pcs s i = DropLoaded rb q True \<Longrightarrow> pstep ds ws i s (at_pc i Idle (mem s) s)"
| p_commit_load: "pcs s i = DropLoaded rb q False \<Longrightarrow>
    pstep ds ws i s (at_pc i (CommitLoaded rb q (rb_header ds rb (mem s))) (mem s) s)"
| p_commit_store: "pcs s i = CommitLoaded rb q cur \<Longrightarrow>
    pstep ds ws i s (at_pc i Idle ((mem s)\<lparr>area :=
      store_header (unat ds) (area (mem s)) (unat (record_pos rb)) (header_commit cur)\<rparr>) s)"
| p_count_dropped: "pcs s i = Idle \<Longrightarrow> pstep ds ws i s (at_pc i Idle (increment_dropped (mem s)) s)"

inductive dstep :: "usize \<Rightarrow> nat \<Rightarrow> sys \<Rightarrow> sys \<Rightarrow> bool" for ds :: usize and i :: nat where
  d_load: "pcs s i = Owner rb q \<Longrightarrow>
    dstep ds i s (at_pc i (DiscardLoaded rb q (rb_header ds rb (mem s))) (mem s) s)"
| d_store: "pcs s i = DiscardLoaded rb q cur \<Longrightarrow>
    dstep ds i s (at_pc i (DiscardStored rb q) ((mem s)\<lparr>area :=
      store_header (unat ds) (area (mem s)) (unat (record_pos rb)) (header_discard cur)\<rparr>) s)"
| d_drop: "pcs s i = DiscardStored rb q \<Longrightarrow>
    dstep ds i s (at_pc i (DropLoaded rb q (header_is_discarded (rb_header ds rb (mem s)))) (mem s) s)"

inductive cstep :: "usize \<Rightarrow> sys \<Rightarrow> sys \<Rightarrow> bool" for ds :: usize where
  c_begin: "cons s = CIdle \<Longrightarrow> cstep ds s (at_cons (CStart (consumer_pos (mem s))) (mem s) s)"
| c_empty: "cons s = CStart c \<Longrightarrow> c \<ge> producer_pos (mem s) \<Longrightarrow> cstep ds s (at_cons CIdle (mem s) s)"
| c_some: "cons s = CStart c \<Longrightarrow> \<not> c \<ge> producer_pos (mem s) \<Longrightarrow> cstep ds s (at_cons (CCheck c) (mem s) s)"
| c_busy: "cons s = CCheck c \<Longrightarrow>
    header_len_and_flags (load_header (unat ds) (area (mem s)) (unat (c AND size_mask ds))) = (len, flags) \<Longrightarrow>
    flags AND BUSY_FLAG \<noteq> 0 \<Longrightarrow> cstep ds s (at_cons CIdle (mem s) s)"
| c_record: "cons s = CCheck c \<Longrightarrow>
    header_len_and_flags (load_header (unat ds) (area (mem s)) (unat (c AND size_mask ds))) = (len, flags) \<Longrightarrow>
    flags AND BUSY_FLAG = 0 \<Longrightarrow> flags AND DISCARD_FLAG = 0 \<Longrightarrow>
    cstep ds s (at_cons (CHold \<lparr>rec_offset = (c AND size_mask ds) + HEADER_SIZE, rec_len = ucast len,
      total_len = c + round_up_to_8 (HEADER_SIZE + ucast len)\<rparr>) (mem s) s)"
| c_discarded: "cons s = CCheck c \<Longrightarrow>
    header_len_and_flags (load_header (unat ds) (area (mem s)) (unat (c AND size_mask ds))) = (len, flags) \<Longrightarrow>
    flags AND BUSY_FLAG = 0 \<Longrightarrow> flags AND DISCARD_FLAG \<noteq> 0 \<Longrightarrow>
    cstep ds s (at_cons (CSkip (c + round_up_to_8 (HEADER_SIZE + ucast len))) (mem s) s)"
| c_skip: "cons s = CSkip n \<Longrightarrow> cstep ds s (at_cons CIdle (advance_consumer n (mem s)) s)"
| c_release: "cons s = CHold r \<Longrightarrow> cstep ds s (at_cons CIdle (Record_drop r (mem s)) s)"

inductive step :: "usize \<Rightarrow> WakeupStrategy \<Rightarrow> sys \<Rightarrow> sys \<Rightarrow> bool" for ds ws where
  step_producer: "pstep ds ws i s t \<Longrightarrow> step ds ws s t"
| step_consumer: "cstep ds s t \<Longrightarrow> step ds ws s t"

inductive step_discard :: "usize \<Rightarrow> WakeupStrategy \<Rightarrow> sys \<Rightarrow> sys \<Rightarrow> bool" for ds ws where
  no_discard: "step ds ws s t \<Longrightarrow> step_discard ds ws s t"
| with_discard: "dstep ds i s t \<Longrightarrow> step_discard ds ws s t"

text \<open>
  Runs are followed while the absolute positions stay below \<open>2 ^ 63\<close>: at one gigabyte per second the
  producer position needs centuries to get there, and beyond \<open>2 ^ 64\<close> it would wrap.
\<close>

definition bounded :: "sys \<Rightarrow> bool" where
  "bounded s \<longleftrightarrow> unat (producer (mem s)) < 2 ^ 63"

definition bstep :: "usize \<Rightarrow> WakeupStrategy \<Rightarrow> sys \<Rightarrow> sys \<Rightarrow> bool" where
  "bstep ds ws s t \<longleftrightarrow> bounded s \<and> step ds ws s t"

definition reach :: "usize \<Rightarrow> WakeupStrategy \<Rightarrow> bytes \<Rightarrow> sys \<Rightarrow> bool" where
  "reach ds ws data s \<longleftrightarrow> (bstep ds ws)\<^sup>*\<^sup>* (sys_init data) s"

text \<open>
  The abstract machine: a list of slots that grows at the end by reservations, whose busy slots
  become committed with some payload of the reserved length, and that loses finished slots at the
  front.
\<close>

inductive astep :: "(nat \<times> slot) list \<Rightarrow> (nat \<times> slot) list \<Rightarrow> bool" where
  a_stutter: "astep rs rs"
| a_reserve: "\<forall>(q', x) \<in> set rs. q' < q \<Longrightarrow> astep rs (rs @ [(q, Busy n)])"
| a_commit: "(q, Busy n) \<in> set rs \<Longrightarrow> length xs = unat n \<Longrightarrow> astep rs (upd q (Committed xs) rs)"
| a_consume: "astep ((q, Committed xs) # rs) rs"

fun owner_of :: "pc \<Rightarrow> (ReservedBuffer \<times> nat) option" where
  "owner_of (Advanced rb q) = Some (rb, q)"
| "owner_of (Owner rb q) = Some (rb, q)"
| "owner_of (DropLoaded rb q b) = Some (rb, q)"
| "owner_of (CommitLoaded rb q cur) = Some (rb, q)"
| "owner_of (DiscardLoaded rb q cur) = Some (rb, q)"
| "owner_of _ = None"

fun holds_lock :: "pc \<Rightarrow> bool" where
  "holds_lock (Locked sz c) = True"
| "holds_lock (HeaderWritten rb q n) = True"
| "holds_lock (Advanced rb q) = True"
| "holds_lock _ = False"

fun pc_ok :: "usize \<Rightarrow> shm \<Rightarrow> (nat \<times> slot) list \<Rightarrow> pc \<Rightarrow> bool" where
  "pc_ok ds m rs Idle \<longleftrightarrow> True"
| "pc_ok ds m rs (ReadCons sz c) \<longleftrightarrow> unat sz < 2 ^ 32 \<and> c \<le> consumer m"
| "pc_ok ds m rs (Locked sz c) \<longleftrightarrow> unat sz < 2 ^ 32 \<and> c \<le> consumer m"
| "pc_ok ds m rs (HeaderWritten rb q n) \<longleftrightarrow>
    q = unat (producer m) \<and> unat (rb_size rb) < 2 ^ 32 \<and> unat (record_pos rb) = q mod unat ds \<and>
    slot_at (unat ds) (area m) q = Busy (ucast (rb_size rb)) \<and>
    unat n = q + span (unat (rb_size rb)) \<and> unat n < unat (consumer m) + unat ds"
| "pc_ok ds m rs (Advanced rb q) \<longleftrightarrow> owns ds rb q rs"
| "pc_ok ds m rs (Owner rb q) \<longleftrightarrow> owns ds rb q rs"
| "pc_ok ds m rs (DropLoaded rb q b) \<longleftrightarrow> owns ds rb q rs \<and> \<not> b"
| "pc_ok ds m rs (CommitLoaded rb q cur) \<longleftrightarrow> owns ds rb q rs \<and> cur = load_header (unat ds) (area m) q"
| "pc_ok ds m rs (DiscardLoaded rb q cur) \<longleftrightarrow> False"
| "pc_ok ds m rs (DiscardStored rb q) \<longleftrightarrow> False"

definition buffer_bytes :: "usize \<Rightarrow> ReservedBuffer \<Rightarrow> nat set" where
  "buffer_bytes ds rb = (\<lambda>k. (unat (record_pos rb) + k) mod unat ds) ` {..<8 + unat (rb_size rb)}"

definition record_bytes :: "usize \<Rightarrow> Record \<Rightarrow> nat set" where
  "record_bytes ds r = (\<lambda>k. (unat (rec_offset r) + k) mod unat ds) ` {..<unat (rec_len r)}"

definition head_record :: "usize \<Rightarrow> shm \<Rightarrow> u8 list \<Rightarrow> Record" where
  "head_record ds m xs = \<lparr>rec_offset = (consumer m AND size_mask ds) + HEADER_SIZE,
    rec_len = word_of_nat (length xs),
    total_len = consumer m + round_up_to_8 (HEADER_SIZE + word_of_nat (length xs))\<rparr>"

fun cons_ok :: "usize \<Rightarrow> shm \<Rightarrow> (nat \<times> slot) list \<Rightarrow> cpc \<Rightarrow> bool" where
  "cons_ok ds m rs CIdle \<longleftrightarrow> True"
| "cons_ok ds m rs (CStart c) \<longleftrightarrow> c = consumer m"
| "cons_ok ds m rs (CCheck c) \<longleftrightarrow> c = consumer m \<and> rs \<noteq> []"
| "cons_ok ds m rs (CSkip n) \<longleftrightarrow> False"
| "cons_ok ds m rs (CHold r) \<longleftrightarrow> (\<exists>q xs rs'. rs = (q, Committed xs) # rs' \<and> r = head_record ds m xs)"

definition conc_inv :: "usize \<Rightarrow> sys \<Rightarrow> (nat \<times> slot) list \<Rightarrow> bool" where
  "conc_inv ds s rs \<longleftrightarrow>
    ring_rel ds (mem s) rs \<and>
    (\<forall>(q, x) \<in> set rs. \<forall>n. x \<noteq> Discarded n) \<and>
    (\<forall>i. pc_ok ds (mem s) rs (pcs s i)) \<and>
    (\<forall>i. holds_lock (pcs s i) \<longrightarrow> spinlock (mem s)) \<and>
    (\<forall>i j. holds_lock (pcs s i) \<longrightarrow> holds_lock (pcs s j) \<longrightarrow> i = j) \<and>
    (\<forall>i j rb q rb' q'. i \<noteq> j \<longrightarrow> owner_of (pcs s i) = Some (rb, q) \<longrightarrow>
      owner_of (pcs s j) = Some (rb', q') \<longrightarrow> q \<noteq> q') \<and>
    cons_ok ds (mem s) rs (cons s)"

definition empty_ring :: "usize \<Rightarrow> nat \<Rightarrow> sys \<Rightarrow> bool" where
  "empty_ring ds P s \<longleftrightarrow> ring_rel ds (mem s) [] \<and> unat (producer (mem s)) = P \<and>
    \<not> spinlock (mem s) \<and> cons s = CIdle"

section \<open>Framing\<close>

lemma at_pc_simps [simp]:
  "mem (at_pc i p m s) = m" "pcs (at_pc i p m s) = (pcs s)(i := p)" "cons (at_pc i p m s) = cons s"
  by (simp_all add: at_pc_def)

lemma at_cons_simps [simp]:
  "mem (at_cons c m s) = m" "pcs (at_cons c m s) = pcs s" "cons (at_cons c m s) = c"
  by (simp_all add: at_cons_def)

lemma slots_disjoint:
  assumes sl: "slots ds m c p rs" and q: "(q, x) \<in> set rs" "(q', x') \<in> set rs" "q \<noteq> q'"
  shows "q + span (slot_len x) \<le> q' \<or> q' + span (slot_len x') \<le> q"
proof -
  obtain ys zs where rs: "rs = ys @ (q, x) # zs" and y: "slots ds m c q ys"
    and z: "slots ds m (q + span (slot_len x)) p zs"
    using sl q(1) by (rule slots_split)
  from q(2,3) rs consider "(q', x') \<in> set ys" | "(q', x') \<in> set zs" by auto
  then show ?thesis
    by cases (use slots_positions [OF y] slots_positions [OF z] in blast)+
qed

lemma pc_frame:
  assumes "pc_ok ds m rs p" "consumer m \<le> consumer m'"
    and own: "\<And>rb q. owner_of p = Some (rb, q) \<Longrightarrow> owns ds rb q rs \<Longrightarrow>
      owns ds rb q rs' \<and> load_header (unat ds) (area m') q = load_header (unat ds) (area m) q"
    and hw: "\<And>rb q n. p = HeaderWritten rb q n \<Longrightarrow>
      producer m' = producer m \<and> load_header (unat ds) (area m') q = load_header (unat ds) (area m) q"
  shows "pc_ok ds m' rs' p"
proof (cases p)
  case (HeaderWritten rb q n)
  have "unat (consumer m) \<le> unat (consumer m')" using assms(2) by (simp add: word_le_nat_alt)
  with HeaderWritten assms(1) hw [OF HeaderWritten] show ?thesis
    by (auto intro: slot_at_Busy_cong)
qed (use assms in \<open>auto intro: order.trans\<close>)

lemma conc_invD:
  assumes "conc_inv ds s rs"
  shows "ring_rel ds (mem s) rs" "(q, Discarded n) \<notin> set rs" "pc_ok ds (mem s) rs (pcs s i)"
    "holds_lock (pcs s i) \<Longrightarrow> spinlock (mem s)"
    "holds_lock (pcs s i) \<Longrightarrow> holds_lock (pcs s j) \<Longrightarrow> i = j"
    "i \<noteq> j \<Longrightarrow> owner_of (pcs s i) = Some (rb, q) \<Longrightarrow> owner_of (pcs s j) = Some (rb', q') \<Longrightarrow> q \<noteq> q'"
    "cons_ok ds (mem s) rs (cons s)"
  using assms unfolding conc_inv_def by blast+

lemma conc_inv_producer:
  assumes inv: "conc_inv ds s rs" and rel: "ring_rel ds m rs'"
    and nd: "\<And>q n. (q, Discarded n) \<notin> set rs'"
    and self: "pc_ok ds m rs' p" and others: "\<And>j. j \<noteq> i \<Longrightarrow> pc_ok ds m rs' (pcs s j)"
    and lock: "holds_lock p \<Longrightarrow> spinlock m \<and> (holds_lock (pcs s i) \<or> \<not> spinlock (mem s))"
    and olock: "\<And>j. j \<noteq> i \<Longrightarrow> holds_lock (pcs s j) \<Longrightarrow> spinlock m"
    and own: "\<And>rb q. owner_of p = Some (rb, q) \<Longrightarrow> owner_of (pcs s i) = Some (rb, q) \<or>
      (\<forall>j rb' q'. j \<noteq> i \<longrightarrow> owner_of (pcs s j) = Some (rb', q') \<longrightarrow> q' \<noteq> q)"
    and cons: "cons_ok ds m rs' (cons s)"
  shows "conc_inv ds (at_pc i p m s) rs'"
proof -
  note I = conc_invD [OF inv]
  have l: "\<not> holds_lock (pcs s j)" if "holds_lock p" "j \<noteq> i" for j
    using lock [OF that(1)] I(4) [of j] I(5) [of i j] that(2) by blast
  have o: "q \<noteq> q'" if "j \<noteq> i" "owner_of p = Some (rb, q)" "owner_of (pcs s j) = Some (rb', q')" for j rb q rb' q'
    using own [OF that(2)] I(6) [of i j rb q rb' q'] that by metis
  let ?f = "(pcs s)(i := p)"
  have "\<forall>(q, x) \<in> set rs'. \<forall>n. x \<noteq> Discarded n" using nd by auto
  moreover have "pc_ok ds m rs' (?f j)" for j
    using self others by (cases "j = i") simp_all
  moreover have "holds_lock (?f j) \<longrightarrow> spinlock m" for j
    using lock olock by (cases "j = i") simp_all
  moreover have "j = k" if "holds_lock (?f j)" "holds_lock (?f k)" for j k
    using that l [of j] l [of k] I(5) [of j k] by (metis fun_upd_apply)
  moreover have "q \<noteq> q'" if "j \<noteq> k" "owner_of (?f j) = Some (rb, q)" "owner_of (?f k) = Some (rb', q')"
    for j k rb q rb' q'
    using that o [of k rb q rb' q'] o [of j rb' q' rb q] I(6) [of j k rb q rb' q']
    by (metis fun_upd_apply)
  ultimately show ?thesis
    unfolding conc_inv_def at_pc_simps using rel cons by blast
qed

lemma conc_inv_consumer:
  assumes inv: "conc_inv ds s rs" and rel: "ring_rel ds m rs'"
    and sub: "set rs' \<subseteq> set rs" and pc: "\<And>j. pc_ok ds m rs' (pcs s j)"
    and lock: "spinlock m = spinlock (mem s)" and cons: "cons_ok ds m rs' p"
  shows "conc_inv ds (at_cons p m s) rs'"
  using inv rel sub pc lock cons unfolding conc_inv_def at_cons_simps by blast

lemma same_ring:
  assumes "consumer m' = consumer m" "producer m' = producer m" "area m' = area m"
  shows "ring_rel ds m' rs = ring_rel ds m rs" "pc_ok ds m' rs p = pc_ok ds m rs p"
    "cons_ok ds m' rs c = cons_ok ds m rs c"
proof -
  show "ring_rel ds m' rs = ring_rel ds m rs" using assms by (simp add: ring_rel_def)
  show "pc_ok ds m' rs p = pc_ok ds m rs p" using assms by (cases p) simp_all
  show "cons_ok ds m' rs c = cons_ok ds m rs c" using assms by (cases c) (simp_all add: head_record_def)
qed

lemma owner_owns:
  assumes "conc_inv ds s rs" "owner_of (pcs s i) = Some (rb, q)"
  shows "owns ds rb q rs"
  using conc_invD(3) [OF assms(1), of i] assms(2) by (cases "pcs s i") auto

lemma header_frame:
  assumes rel: "ring_rel ds m rs" and own: "owns ds rb q rs"
    and w: "q \<le> a" "a + length xs \<le> q + span (unat (rb_size rb))"
    and q': "(q', x) \<in> set rs \<and> q' \<noteq> q \<or> q' = unat (producer m) \<and> q' + 8 \<le> unat (consumer m) + unat ds"
  shows "load_header (unat ds) (write_area (unat ds) (area m) a xs) q' = load_header (unat ds) (area m) q'"
proof (rule load_header_write_area)
  note R = ring_relD [OF rel] and O = ownsD [OF rel own]
  have q: "(q, Busy (ucast (rb_size rb))) \<in> set rs" "unat (ucast (rb_size rb) :: u32) = unat (rb_size rb)"
    using own by (auto simp: owns_def unat_ucast_len)
  from q' show "a + length xs \<le> q' \<and> q' + 8 \<le> a + unat ds \<or> q' + 8 \<le> a \<and> a + length xs \<le> q' + unat ds"
  proof
    assume x: "(q', x) \<in> set rs \<and> q' \<noteq> q"
    then have "q + span (unat (rb_size rb)) \<le> q' \<or> q' + span (slot_len x) \<le> q"
      using slots_disjoint [OF R(5) q(1), of q' x] q(2) by auto
    moreover have "unat (consumer m) \<le> q'" "q' + span (slot_len x) \<le> unat (producer m)"
      using slots_positions [OF R(5)] x by blast+
    ultimately show ?thesis
      using w O R(4) span_ge [of "slot_len x"] by linarith
  next
    assume "q' = unat (producer m) \<and> q' + 8 \<le> unat (consumer m) + unat ds"
    then show ?thesis using w O by linarith
  qed
qed

lemma other_pcs_write:
  assumes inv: "conc_inv ds s rs" and own: "owner_of (pcs s i) = Some (rb, q)"
    and w: "q \<le> a" "a + length xs \<le> q + span (unat (rb_size rb))" and ji: "j \<noteq> i"
    and keep: "\<And>q' y. q' \<noteq> q \<Longrightarrow> (q', y) \<in> set rs \<Longrightarrow> (q', y) \<in> set rs'"
  shows "pc_ok ds ((mem s)\<lparr>area := write_area (unat ds) (area (mem s)) a xs\<rparr>) rs' (pcs s j)"
proof (rule pc_frame [OF conc_invD(3) [OF inv]])
  note rel = conc_invD(1) [OF inv] and o = owner_owns [OF inv own]
  fix rb' q' assume "owner_of (pcs s j) = Some (rb', q')" "owns ds rb' q' rs"
  moreover from this have "q' \<noteq> q" using conc_invD(6) [OF inv ji _ own] by blast
  ultimately show "owns ds rb' q' rs' \<and> load_header (unat ds)
      (area ((mem s)\<lparr>area := write_area (unat ds) (area (mem s)) a xs\<rparr>)) q' = load_header (unat ds) (area (mem s)) q'"
    using header_frame [OF rel o w, of q'] keep by (auto simp: owns_def)
next
  note rel = conc_invD(1) [OF inv] and o = owner_owns [OF inv own]
  fix rb' q' n assume "pcs s j = HeaderWritten rb' q' n"
  with conc_invD(3) [OF inv, of j] span_ge [of "unat (rb_size rb')"]
  have "q' = unat (producer (mem s)) \<and> q' + 8 \<le> unat (consumer (mem s)) + unat ds" by auto
  then show "producer ((mem s)\<lparr>area := write_area (unat ds) (area (mem s)) a xs\<rparr>) = producer (mem s) \<and>
      load_header (unat ds) (area ((mem s)\<lparr>area := write_area (unat ds) (area (mem s)) a xs\<rparr>)) q' =
      load_header (unat ds) (area (mem s)) q'"
    using header_frame [OF rel o w, of q'] by auto
qed simp

section \<open>Producer steps\<close>

lemma quiet_step:
  assumes inv: "conc_inv ds s rs"
    and m: "consumer m = consumer (mem s)" "producer m = producer (mem s)" "area m = area (mem s)"
    and self: "pc_ok ds (mem s) rs p"
    and lock: "holds_lock p \<Longrightarrow> spinlock m \<and> (holds_lock (pcs s i) \<or> \<not> spinlock (mem s))"
    and unlock: "spinlock m = spinlock (mem s) \<or> holds_lock (pcs s i) \<or> \<not> spinlock (mem s)"
    and own: "owner_of p = None \<or> owner_of p = owner_of (pcs s i)"
  shows "conc_inv ds (at_pc i p m s) rs"
proof (rule conc_inv_producer [OF inv])
  note I = conc_invD [OF inv]
  show "ring_rel ds m rs" using I(1) same_ring(1) [OF m] by simp
  show "(q, Discarded n) \<notin> set rs" for q n by (rule I(2))
  show "pc_ok ds m rs p" using self same_ring(2) [OF m] by simp
  show "pc_ok ds m rs (pcs s j)" for j using I(3) same_ring(2) [OF m] by simp
  show "cons_ok ds m rs (cons s)" using I(7) same_ring(3) [OF m] by simp
  show "spinlock m" if "j \<noteq> i" "holds_lock (pcs s j)" for j
    using unlock I(4) [of j] I(5) [of i j] that by auto
qed (use lock own in auto)

lemma cons_ok_frame:
  assumes "cons_ok ds m rs c" "consumer m' = consumer m"
    and "\<And>q xs rs2. rs = (q, Committed xs) # rs2 \<Longrightarrow> \<exists>rs3. rs' = (q, Committed xs) # rs3"
    and "rs \<noteq> [] \<Longrightarrow> rs' \<noteq> []"
  shows "cons_ok ds m' rs' c"
proof (cases c)
  case (CHold r)
  with assms(1) obtain q xs rs2 where "rs = (q, Committed xs) # rs2" "r = head_record ds m xs" by auto
  with assms(2,3) CHold show ?thesis by (fastforce simp: head_record_def)
qed (use assms in auto)

lemma header_step:
  assumes inv: "conc_inv ds s rs" and pc: "pcs s i = Locked sz c"
    and bound: "unat (producer (mem s)) < 2 ^ 63"
    and space: "\<not> producer (mem s) + reserve_total sz - c > size_mask ds"
  shows "conc_inv ds (at_pc i
      (HeaderWritten \<lparr>rb_size = sz, record_pos = producer (mem s) AND size_mask ds, wakeup_strategy = ws\<rparr>
        (unat (producer (mem s))) (producer (mem s) + reserve_total sz))
      ((mem s)\<lparr>area := store_header (unat ds) (area (mem s)) (unat (producer (mem s) AND size_mask ds))
        (header_new (ucast sz))\<rparr>) s) rs"
    (is "conc_inv ds (at_pc i ?p ?m s) rs")
proof (rule conc_inv_producer [OF inv])
  note I = conc_invD [OF inv] and R = ring_relD [OF conc_invD(1) [OF inv]]
  let ?P = "unat (producer (mem s))" and ?C = "unat (consumer (mem s))" and ?D = "unat ds"
  have sz: "unat sz < 2 ^ 32" "c \<le> consumer (mem s)" using I(3) [of i] pc by simp_all
  then have b: "unat sz + 15 < 2 ^ 64" "?P + span (unat sz) < 2 ^ 64"
    using bound span_le [of "unat sz"] by simp_all
  note sc = space_check [OF I(1) sz(2) b]
  have fit: "?P + span (unat sz) < ?C + ?D" using sc(2) space sz(2) by (auto simp: word_le_nat_alt)
  then have p8: "?P + 8 \<le> ?C + ?D" using span_ge [of "unat sz"] by linarith
  have off: "unat (producer (mem s) AND size_mask ds) = ?P mod ?D" using R(1) by (rule unat_and_size_mask)
  have m: "?m = (mem s)\<lparr>area := store_header ?D (area (mem s)) ?P (header_new (ucast sz))\<rparr>"
    by (simp add: off)
  show "ring_rel ds ?m rs"
    using I(1) slots_store_at_end [OF I(1) p8] unfolding m ring_rel_def by simp
  show "(q, Discarded n) \<notin> set rs" for q n by (rule I(2))
  show "pc_ok ds ?m rs ?p"
    unfolding m using sz(1) off sc(1) fit R(2) by (simp add: slot_at_new)
  show "pc_ok ds ?m rs (pcs s j)" if "j \<noteq> i" for j
  proof (rule pc_frame [OF I(3)])
    fix rb q assume o: "owner_of (pcs s j) = Some (rb, q)" "owns ds rb q rs"
    have "q + 8 \<le> ?P" "?C \<le> q" using ownsD(2,3) [OF I(1) o(2)] span_ge [of "unat (rb_size rb)"] by linarith+
    then have "load_header ?D (area ?m) q = load_header ?D (area (mem s)) q"
      unfolding m unfolding store_header_def using p8 by (simp add: load_header_write_area)
    with o(2) show "owns ds rb q rs \<and> load_header ?D (area ?m) q = load_header ?D (area (mem s)) q" by simp
  next
    fix rb q n assume "pcs s j = HeaderWritten rb q n"
    with I(5) [of i j] pc that show "producer ?m = producer (mem s) \<and>
      load_header ?D (area ?m) q = load_header ?D (area (mem s)) q" by auto
  qed simp
  show "cons_ok ds ?m rs (cons s)" by (rule cons_ok_frame [OF I(7)]) auto
  show "spinlock ?m \<and> (holds_lock (pcs s i) \<or> \<not> spinlock (mem s))" using I(4) [of i] pc by simp
  show "spinlock ?m" if "j \<noteq> i" "holds_lock (pcs s j)" for j using that I(4) by simp
qed simp

lemma advance_step:
  assumes inv: "conc_inv ds s rs" and pc: "pcs s i = HeaderWritten rb q n"
  shows "conc_inv ds (at_pc i (Advanced rb q) (advance_producer n (mem s)) s) (rs @ [(q, Busy (ucast (rb_size rb)))])"
    (is "conc_inv ds (at_pc i ?p ?m s) ?rs")
    and "\<forall>(q', x) \<in> set rs. q' < q"
proof -
  note I = conc_invD [OF inv] and R = ring_relD [OF conc_invD(1) [OF inv]]
  have p: "q = unat (producer (mem s))" "unat (rb_size rb) < 2 ^ 32" "unat (record_pos rb) = q mod unat ds"
    "slot_at (unat ds) (area (mem s)) q = Busy (ucast (rb_size rb))" "unat n = q + span (unat (rb_size rb))"
    "unat n < unat (consumer (mem s)) + unat ds"
    using I(3) [of i] unfolding pc pc_ok.simps by blast+
  show old: "\<forall>(q', x) \<in> set rs. q' < q" using slots_less [OF R(5)] p(1) by auto
  show "conc_inv ds (at_pc i ?p ?m s) ?rs"
  proof (rule conc_inv_producer [OF inv])
    show "ring_rel ds ?m ?rs"
      using R p unat_ucast_len [OF p(2)] I(1) by (auto simp: ring_rel_def advance_producer_def slots_append)
    show "(q', Discarded k) \<notin> set ?rs" for q' k using I(2) [of q' k] by simp
    show "pc_ok ds ?m ?rs ?p" using p by (simp add: owns_def)
    show "pc_ok ds ?m ?rs (pcs s j)" if "j \<noteq> i" for j
      by (rule pc_frame [OF I(3)]) (use I(5) [of i j] pc that in \<open>auto simp: advance_producer_def owns_def\<close>)
    show "cons_ok ds ?m ?rs (cons s)"
      by (rule cons_ok_frame [OF I(7)]) (auto simp: advance_producer_def)
    show "spinlock ?m \<and> (holds_lock (pcs s i) \<or> \<not> spinlock (mem s))"
      using I(4) [of i] pc by (simp add: advance_producer_def)
    show "spinlock ?m" if "j \<noteq> i" "holds_lock (pcs s j)" for j using that I(4) by (simp add: advance_producer_def)
    show "owner_of (pcs s i) = Some (rb', k) \<or>
        (\<forall>j rb'' q'. j \<noteq> i \<longrightarrow> owner_of (pcs s j) = Some (rb'', q') \<longrightarrow> q' \<noteq> k)"
      if "owner_of ?p = Some (rb', k)" for rb' k
      using that old owner_owns [OF inv] by (fastforce simp: owns_def)
  qed
qed

lemma upd_Committed_head:
  assumes "slots ds m c p ((q, Committed xs) # rs)" "(q', Busy n) \<in> set ((q, Committed xs) # rs)"
  shows "upd q' y ((q, Committed xs) # rs) = (q, Committed xs) # upd q' y rs"
proof -
  have c: "q = c" "slots ds m (c + span (length xs)) p rs" using assms(1) by simp_all
  have "(q', Busy n) \<in> set rs" using assms(2) by simp
  with c have "q' \<noteq> q" using slots_after by blast
  then show ?thesis by (simp add: upd_def)
qed

lemma write_step:
  assumes inv: "conc_inv ds s rs" and pc: "pcs s i = Owner rb q"
    and w: "as_mut_slice_write ds rb k xs (mem s) = Some m"
  shows "conc_inv ds (at_pc i (Owner rb q) m s) rs"
proof (rule conc_inv_producer [OF inv])
  note I = conc_invD [OF inv]
  have own: "owns ds rb q rs" using I(3) [of i] pc by simp
  have m: "m = (mem s)\<lparr>area := write_area (unat ds) (area (mem s)) (q + 8 + k) xs\<rparr>"
    and k: "k + length xs \<le> unat (rb_size rb)"
    using w own by (auto simp: as_mut_slice_write_def owns_def add.assoc write_area_mod_add split: if_splits)
  show "ring_rel ds m rs" by (rule write_rel(1) [OF I(1) own w])
  show "(q, Discarded n) \<notin> set rs" for q n by (rule I(2))
  show "pc_ok ds m rs (Owner rb q)" using own by simp
  show "pc_ok ds m rs (pcs s j)" if "j \<noteq> i" for j
    unfolding m
    by (rule other_pcs_write [OF inv _ _ _ that, of rb q]) (use pc k span_ge [of "unat (rb_size rb)"] in auto)
  show "cons_ok ds m rs (cons s)" by (rule cons_ok_frame [OF I(7)]) (auto simp: m)
  show "spinlock m" if "j \<noteq> i" "holds_lock (pcs s j)" for j using that I(4) by (simp add: m)
qed (use pc in auto)

lemma commit_step:
  assumes inv: "conc_inv ds s rs" and pc: "pcs s i = CommitLoaded rb q cur"
  shows "conc_inv ds (at_pc i Idle ((mem s)\<lparr>area :=
      store_header (unat ds) (area (mem s)) (unat (record_pos rb)) (header_commit cur)\<rparr>) s)
    (upd q (Committed (read_area (unat ds) (area (mem s)) (q + 8) (unat (rb_size rb)))) rs)"
    (is "conc_inv ds (at_pc i Idle ?m s) ?rs")
proof (rule conc_inv_producer [OF inv])
  note I = conc_invD [OF inv] and R = ring_relD [OF conc_invD(1) [OF inv]]
  have own: "owns ds rb q rs" and cur: "cur = load_header (unat ds) (area (mem s)) q"
    using I(3) [of i] pc by simp_all
  then have m: "?m = update_header ds rb header_commit (mem s)"
    by (simp add: update_header_def owns_def)
  then have m': "?m = (mem s)\<lparr>area := write_area (unat ds) (area (mem s)) q (le_bytes (header_commit cur))\<rparr>"
    using own by (simp add: owns_def store_header_def)
  show "ring_rel ds ?m ?rs" unfolding m by (rule commit_rel [OF I(1) own])
  show "(q', Discarded n) \<notin> set ?rs" for q' n 
    using I(2) [of q' n] by (auto simp: upd_def split: if_splits)
  show "pc_ok ds ?m ?rs (pcs s j)" if "j \<noteq> i" for j
    unfolding m'
  proof (rule other_pcs_write [OF inv _ _ _ that, of rb q])
    show "(q', y) \<in> set ?rs" if "q' \<noteq> q" "(q', y) \<in> set rs" for q' y
      using that unfolding upd_def by force
  qed (use pc span_ge [of "unat (rb_size rb)"] in simp_all)
  have b: "(q, Busy (ucast (rb_size rb))) \<in> set rs" using own by (simp add: owns_def)
  show "cons_ok ds ?m ?rs (cons s)"
  proof (rule cons_ok_frame [OF I(7)])
    fix q0 xs rs2 assume rs: "rs = (q0, Committed xs) # rs2"
    show "\<exists>rs3. ?rs = (q0, Committed xs) # rs3"
      using upd_Committed_head [OF R(5) [unfolded rs] b [unfolded rs]] unfolding rs by blast
  qed (simp_all add: upd_def)
  show "spinlock ?m" if "j \<noteq> i" "holds_lock (pcs s j)" for j using that I(4) by simp
qed simp_all

lemma pstep_simulates:
  assumes "pstep ds ws i s t" "conc_inv ds s rs" "unat (producer (mem s)) < 2 ^ 63"
  shows "\<exists>rs'. conc_inv ds t rs' \<and> astep rs rs'"
  using assms
proof cases
  case (p_begin sz)
  then have "conc_inv ds t rs"
    using assms by (auto intro!: quiet_step simp: consumer_pos_def)
  then show ?thesis using a_stutter by blast
next
  case (p_lock sz c)
  then have "conc_inv ds t rs"
    using assms conc_invD(3) [OF assms(2), of i] by (auto intro!: quiet_step)
  then show ?thesis using a_stutter by blast
next
  case (p_timeout sz c)
  then have "conc_inv ds t rs" using assms by (auto intro!: quiet_step)
  then show ?thesis using a_stutter by blast
next
  case (p_full sz c)
  then have "conc_inv ds t rs" using assms by (auto intro!: quiet_step)
  then show ?thesis using a_stutter by blast
next
  case (p_header sz c offset)
  then have "conc_inv ds t rs" using header_step [OF assms(2)] assms(3) by (simp add: producer_pos_def)
  then show ?thesis using a_stutter by blast
next
  case (p_advance rb q n)
  then show ?thesis using advance_step [OF assms(2) p_advance(2)] a_reserve by metis
next
  case (p_unlock rb q)
  then have "conc_inv ds t rs"
    using assms conc_invD(3) [OF assms(2), of i] by (auto intro!: quiet_step)
  then show ?thesis using a_stutter by blast
next
  case (p_write rb q k xs m)
  then show ?thesis using write_step [OF assms(2)] a_stutter by blast
next
  case (p_drop rb q)
  then have own: "owns ds rb q rs" using conc_invD(3) [OF assms(2), of i] by simp
  have "\<not> header_is_discarded (rb_header ds rb (mem s))"
    using Busy_not_discarded [OF ownsD(1) [OF conc_invD(1) [OF assms(2)] own]] own
    by (simp add: rb_header_def owns_def)
  then have "conc_inv ds t rs" using p_drop own assms by (auto intro!: quiet_step)
  then show ?thesis using a_stutter by blast
next
  case (p_dropped rb q)
  then have "conc_inv ds t rs" using assms by (auto intro!: quiet_step)
  then show ?thesis using a_stutter by blast
next
  case (p_commit_load rb q)
  then have own: "owns ds rb q rs" using conc_invD(3) [OF assms(2), of i] by simp
  then have "conc_inv ds t rs"
    using p_commit_load assms by (auto intro!: quiet_step simp: rb_header_def owns_def)
  then show ?thesis using a_stutter by blast
next
  case (p_commit_store rb q cur)
  then have "owns ds rb q rs" using conc_invD(3) [OF assms(2), of i] by simp
  then show ?thesis
    using commit_step [OF assms(2) p_commit_store(2)] p_commit_store(1)
      a_commit [of q "ucast (rb_size rb)" rs "read_area (unat ds) (area (mem s)) (q + 8) (unat (rb_size rb))"]
    by (auto simp: owns_def unat_ucast_len)
next
  case p_count_dropped
  then have "conc_inv ds t rs" using assms by (auto intro!: quiet_step simp: increment_dropped_def)
  then show ?thesis using a_stutter by blast
qed

section \<open>Consumer steps\<close>

lemma quiet_cstep:
  assumes "conc_inv ds s rs" "cons_ok ds (mem s) rs p"
  shows "\<exists>rs'. conc_inv ds (at_cons p (mem s) s) rs' \<and> astep rs rs'"
  using conc_inv_consumer [OF assms(1) conc_invD(1) [OF assms(1)] _ conc_invD(3) [OF assms(1)] _ assms(2)] a_stutter
  by blast

lemma check_head:
  assumes inv: "conc_inv ds s rs" and c: "cons s = CCheck c"
    and h: "header_len_and_flags (load_header (unat ds) (area (mem s)) (unat (c AND size_mask ds))) = (len, flags)"
    and nb: "flags AND BUSY_FLAG = 0"
  obtains q xs rs' where "rs = (q, Committed xs) # rs'" "c = consumer (mem s)"
    "len = word_of_nat (length xs)" "length xs < 2 ^ 32" "flags = 0"
proof -
  note I = conc_invD [OF inv] and R = ring_relD [OF conc_invD(1) [OF inv]]
  have cc: "c = consumer (mem s)" and "rs \<noteq> []" using I(7) c by simp_all
  then obtain q x rs' where rs: "rs = (q, x) # rs'" by (cases rs) auto
  note C = ring_rel_ConsD [OF I(1) [unfolded rs]]
  have h': "header_len_and_flags (load_header (unat ds) (area (mem s)) (unat (consumer (mem s)))) = (len, flags)"
    using h R(1) by (simp add: cc unat_and_size_mask)
  show thesis
  proof (cases x)
    case (Busy n)
    with slot_at_flags(1) [of "unat ds" "area (mem s)" "unat (consumer (mem s))" n] C(2) h' nb
    show ?thesis by (simp add: header_simps)
  next
    case (Committed xs)
    with slot_at_flags(3) [of "unat ds" "area (mem s)" "unat (consumer (mem s))" xs] C(2) h'
      slot_len_less [of "unat ds" "area (mem s)" "unat (consumer (mem s))"]
    show ?thesis by (intro that [of q xs rs']) (auto simp: rs cc dest: sym)
  next
    case (Discarded n)
    with I(2) [of q n] rs show ?thesis by simp
  next
    case (Corrupt n)
    with C(3) show ?thesis by simp
  qed
qed

lemma release_step:
  assumes inv: "conc_inv ds s ((q, Committed xs) # rs)" and c: "cons s = CHold (head_record ds (mem s) xs)"
  shows "conc_inv ds (at_cons CIdle (Record_drop (head_record ds (mem s) xs) (mem s)) s) rs"
    (is "conc_inv ds (at_cons CIdle ?m s) rs")
proof (rule conc_inv_consumer [OF inv])
  note I = conc_invD [OF inv]
  let ?n = "consumer (mem s) + round_up_to_8 (HEADER_SIZE + word_of_nat (length xs))"
  have m: "?m = advance_consumer ?n (mem s)" by (simp add: Record_drop_def head_record_def)
  have "slot_len (Committed xs) < 2 ^ 32"
    unfolding ring_rel_ConsD(2) [OF I(1)] by (rule slot_len_less)
  then have len: "unat (word_of_nat (length xs) :: usize) = slot_len (Committed xs)" by (simp add: unat_of_nat)
  show "ring_rel ds ?m rs" unfolding m by (rule consume_head(2) [OF I(1) len])
  have le: "consumer (mem s) \<le> ?n" using consume_head(1) [OF I(1) len] by (simp add: word_le_nat_alt)
  show "pc_ok ds ?m rs (pcs s j)" for j
    by (rule pc_frame [OF I(3)]) (use le in \<open>auto simp: m advance_consumer_def owns_def\<close>)
qed (auto simp: Record_drop_def advance_consumer_def)

lemma cstep_simulates:
  assumes "cstep ds s t" "conc_inv ds s rs"
  shows "\<exists>rs'. conc_inv ds t rs' \<and> astep rs rs'"
  using assms(1)
proof cases
  case c_begin
  then show ?thesis using quiet_cstep [OF assms(2)] by (simp add: consumer_pos_def)
next
  case (c_empty c)
  then show ?thesis using quiet_cstep [OF assms(2)] by simp
next
  case (c_some c)
  have "c = consumer (mem s)" using conc_invD(7) [OF assms(2)] c_some by simp
  moreover have "rs \<noteq> []"
    using ring_relD(5) [OF conc_invD(1) [OF assms(2)]] c_some calculation
    by (auto simp: producer_pos_def word_le_nat_alt)
  ultimately show ?thesis using quiet_cstep [OF assms(2)] c_some by simp
next
  case (c_busy c len flags)
  then show ?thesis using quiet_cstep [OF assms(2)] by simp
next
  case (c_record c len flags)
  obtain q xs rs' where r: "rs = (q, Committed xs) # rs'" "c = consumer (mem s)"
    "len = word_of_nat (length xs)" "length xs < 2 ^ 32"
    using check_head [OF assms(2) c_record(2,3,4)] by metis
  then have "(ucast len :: usize) = word_of_nat (length xs)"
    by (simp add: word_unat_eq_iff unat_of_nat)
  then show ?thesis
    using quiet_cstep [OF assms(2), of "CHold (head_record ds (mem s) xs)"] r c_record(1)
    by (simp add: head_record_def)
next
  case (c_discarded c len flags)
  have "flags = 0" using check_head [OF assms(2) c_discarded(2,3,4)] by metis
  then show ?thesis using c_discarded(5) by simp
next
  case (c_skip n)
  then show ?thesis using conc_invD(7) [OF assms(2)] by simp
next
  case (c_release r)
  then obtain q xs rs' where "rs = (q, Committed xs) # rs'" "r = head_record ds (mem s) xs"
    using conc_invD(7) [OF assms(2)] by auto
  then show ?thesis
    using release_step [of ds s q xs rs'] assms(2) c_release a_consume by blast
qed

section \<open>Reachable states\<close>

lemma init_inv:
  assumes "is_power_of_two ds" "8 \<le> ds"
  shows "conc_inv ds (sys_init data) []"
  using assms unat_lt [of ds]
  by (auto simp: conc_inv_def sys_init_def RingBuf_new_def Metadata_new_def ring_rel_def word_le_nat_alt)

lemma step_simulates:
  assumes "bstep ds ws s t" "conc_inv ds s rs"
  shows "\<exists>rs'. conc_inv ds t rs' \<and> astep rs rs'"
proof -
  have b: "unat (producer (mem s)) < 2 ^ 63" and "step ds ws s t"
    using assms(1) by (auto simp: bstep_def bounded_def)
  from this(2) show ?thesis
    by cases (use pstep_simulates [OF _ assms(2) b] cstep_simulates [OF _ assms(2)] in blast)+
qed

lemma reach_inv:
  assumes "reach ds ws data s" "is_power_of_two ds" "8 \<le> ds"
  shows "\<exists>rs. conc_inv ds s rs"
  using assms(1) unfolding reach_def
proof (induction rule: rtranclp_induct)
  case base
  then show ?case using init_inv [OF assms(2,3)] by blast
next
  case (step s t)
  then show ?case using step_simulates by blast
qed

section \<open>The sequential operations as runs\<close>

lemma at_pc_at_pc [simp]: "at_pc i p m (at_pc i p' m' s) = at_pc i p m s"
  by (simp add: at_pc_def)

lemma producer_star:
  "pstep ds ws i s t \<Longrightarrow> bounded s \<Longrightarrow> (bstep ds ws)\<^sup>*\<^sup>* t u \<Longrightarrow> (bstep ds ws)\<^sup>*\<^sup>* s u"
  by (meson bstep_def converse_rtranclp_into_rtranclp step_producer)

lemma reserve_run:
  assumes pc: "pcs s i = Idle" and lock: "\<not> spinlock (mem s)" and sz: "unat sz < 2 ^ 32"
    and ok: "reserve ds ws True sz (mem s) = (Ok rb, m)"
    and b: "bounded s" "unat (producer m) < 2 ^ 63"
  shows "(bstep ds ws)\<^sup>*\<^sup>* s (at_pc i (Owner rb (unat (producer (mem s)))) m s)"
proof -
  let ?m1 = "(mem s)\<lparr>spinlock := True\<rparr>" and ?c = "consumer (mem s)" and ?P = "producer (mem s)"
  let ?off = "?P AND size_mask ds"
  let ?m2 = "?m1\<lparr>area := store_header (unat ds) (area (mem s)) (unat ?off) (header_new (ucast sz))\<rparr>"
  have sp: "\<not> ?P + reserve_total sz - ?c > size_mask ds"
    and rb: "rb = \<lparr>rb_size = sz, record_pos = ?off, wakeup_strategy = ws\<rparr>"
    and m: "m = (advance_producer (?P + reserve_total sz) ?m2)\<lparr>spinlock := False\<rparr>"
    using ok by (auto simp: reserve_def reserve_locked_def Let_def producer_pos_def consumer_pos_def split: if_splits)
  let ?s1 = "at_pc i (ReadCons sz ?c) (mem s) s" and ?s2 = "at_pc i (Locked sz ?c) ?m1 s"
  let ?s3 = "at_pc i (HeaderWritten rb (unat ?P) (?P + reserve_total sz)) ?m2 s"
  let ?s4 = "at_pc i (Advanced rb (unat ?P)) (advance_producer (?P + reserve_total sz) ?m2) s"
  have "pstep ds ws i s ?s1" using p_begin [OF pc sz] by (simp add: consumer_pos_def)
  moreover have "pstep ds ws i ?s1 ?s2" using p_lock [of ?s1 i sz ?c] lock by simp
  moreover have "pstep ds ws i ?s2 ?s3"
    using p_header [of ?s2 i sz ?c] sp by (simp add: producer_pos_def rb)
  moreover have "pstep ds ws i ?s3 ?s4" using p_advance [of ?s3 i] by simp
  moreover have "pstep ds ws i ?s4 (at_pc i (Owner rb (unat ?P)) m s)" using p_unlock [of ?s4 i] by (simp add: m)
  moreover have "bounded ?s1" "bounded ?s2" "bounded ?s3" "bounded ?s4"
    using b by (simp_all add: bounded_def m advance_producer_def)
  ultimately show ?thesis using b(1) by (blast intro: producer_star)
qed

lemma drop_run:
  assumes pc: "pcs s i = DropLoaded rb q False" and b: "bounded s"
  shows "(bstep ds ws)\<^sup>*\<^sup>* s (at_pc i Idle (update_header ds rb header_commit (mem s)) s)"
proof -
  let ?s1 = "at_pc i (CommitLoaded rb q (rb_header ds rb (mem s))) (mem s) s"
  have "pstep ds ws i s ?s1" using p_commit_load [OF pc] .
  moreover have "pstep ds ws i ?s1 (at_pc i Idle (update_header ds rb header_commit (mem s)) s)"
    using p_commit_store [of ?s1 i rb q] by (simp add: update_header_def rb_header_def)
  moreover have "bounded ?s1" using b by (simp add: bounded_def)
  ultimately show ?thesis using b by (blast intro: producer_star)
qed

lemma commit_run:
  assumes pc: "pcs s i = Owner rb q" and nd: "\<not> header_is_discarded (rb_header ds rb (mem s))"
    and b: "bounded s"
  shows "(bstep ds ws)\<^sup>*\<^sup>* s (at_pc i Idle (update_header ds rb header_commit (mem s)) s)"
proof -
  let ?s1 = "at_pc i (DropLoaded rb q False) (mem s) s"
  have "pstep ds ws i s ?s1" using p_drop [OF pc, of ds ws] nd by simp
  moreover have "(bstep ds ws)\<^sup>*\<^sup>* ?s1 (at_pc i Idle (update_header ds rb header_commit (mem s)) s)"
    using drop_run [of ?s1 i rb q ds ws] b by (simp add: bounded_def)
  ultimately show ?thesis using b by (blast intro: producer_star)
qed

lemma consumer_star:
  "cstep ds s t \<Longrightarrow> bounded s \<Longrightarrow> (bstep ds ws)\<^sup>*\<^sup>* t u \<Longrightarrow> (bstep ds ws)\<^sup>*\<^sup>* s u"
  by (meson bstep_def converse_rtranclp_into_rtranclp step_consumer)

lemma at_cons_at_cons [simp]: "at_cons p m (at_cons p' m' s) = at_cons p m s"
  by (simp add: at_cons_def)

lemma bounded_at_cons: "bounded s \<Longrightarrow> bounded (at_cons p (mem s) s)"
  by (simp add: bounded_def)

lemma check_run:
  assumes c: "cons s = CIdle" and rel: "ring_rel ds (mem s) (r # rs)" and b: "bounded s"
  shows "(bstep ds ws)\<^sup>*\<^sup>* s (at_cons (CCheck (consumer (mem s))) (mem s) s)"
proof -
  have "unat (consumer (mem s)) < unat (producer (mem s))"
    using ring_relD(5) [OF rel] by (rule slots_Cons_less)
  then have "\<not> consumer (mem s) \<ge> producer_pos (mem s)" by (simp add: producer_pos_def word_le_nat_alt)
  then have "cstep ds (at_cons (CStart (consumer (mem s))) (mem s) s) (at_cons (CCheck (consumer (mem s))) (mem s) s)"
    using c_some [of "at_cons (CStart (consumer (mem s))) (mem s) s"] by simp
  moreover have "cstep ds s (at_cons (CStart (consumer (mem s))) (mem s) s)"
    using c_begin [OF c] by (simp add: consumer_pos_def)
  moreover have "bounded (at_cons (CStart (consumer (mem s))) (mem s) s)" using b by (simp add: bounded_def)
  ultimately show ?thesis using b by (blast intro: consumer_star)
qed

lemma hold_run:
  assumes c: "cons s = CIdle" and rel: "ring_rel ds (mem s) ((q, Committed xs) # rs)" and b: "bounded s"
  shows "(bstep ds ws)\<^sup>*\<^sup>* s (at_cons (CHold (head_record ds (mem s) xs)) (mem s) s)"
proof -
  note C = ring_rel_ConsD [OF rel] and R = ring_relD [OF rel]
  let ?s = "at_cons (CCheck (consumer (mem s))) (mem s) s"
  have "slot_len (Committed xs) < 2 ^ 32" unfolding C(2) by (rule slot_len_less)
  then have u: "(ucast (word_of_nat (length xs) :: u32) :: usize) = word_of_nat (length xs)"
    by (simp add: word_unat_eq_iff unat_of_nat)
  have "cstep ds ?s (at_cons (CHold (head_record ds (mem s) xs)) (mem s) s)"
    using c_record [of ?s "consumer (mem s)" ds "word_of_nat (length xs)" 0] slot_at_flags(3) [OF C(2) [symmetric]] R(1)
    by (simp add: u head_record_def unat_and_size_mask)
  then have "(bstep ds ws)\<^sup>*\<^sup>* ?s (at_cons (CHold (head_record ds (mem s) xs)) (mem s) s)"
    using b by (blast intro: consumer_star dest: bounded_at_cons)
  with check_run [OF c rel b] show ?thesis by (rule rtranclp_trans)
qed

lemma skip_run:
  assumes c: "cons s = CIdle" and rel: "ring_rel ds (mem s) ((q, Discarded n) # rs)" and b: "bounded s"
  shows "(bstep ds ws)\<^sup>*\<^sup>* s (at_cons CIdle
    (advance_consumer (consumer (mem s) + round_up_to_8 (HEADER_SIZE + ucast n)) (mem s)) s)"
proof -
  note C = ring_rel_ConsD [OF rel] and R = ring_relD [OF rel]
  let ?s = "at_cons (CCheck (consumer (mem s))) (mem s) s"
  let ?n = "consumer (mem s) + round_up_to_8 (HEADER_SIZE + ucast n)"
  have "cstep ds ?s (at_cons (CSkip ?n) (mem s) s)"
    using c_discarded [of ?s "consumer (mem s)" ds n DISCARD_FLAG] slot_at_flags(2) [OF C(2) [symmetric]] R(1)
    by (simp add: unat_and_size_mask header_simps)
  moreover have "cstep ds (at_cons (CSkip ?n) (mem s) s) (at_cons CIdle (advance_consumer ?n (mem s)) s)"
    using c_skip [of "at_cons (CSkip ?n) (mem s) s"] by simp
  ultimately have "(bstep ds ws)\<^sup>*\<^sup>* ?s (at_cons CIdle (advance_consumer ?n (mem s)) s)"
    using b by (blast intro: consumer_star dest: bounded_at_cons)
  with check_run [OF c rel b] show ?thesis by (rule rtranclp_trans)
qed

lemma consume_run:
  assumes c: "cons s = CIdle" and rel: "ring_rel ds (mem s) ((q, Committed xs) # rs)" and b: "bounded s"
  shows "(bstep ds ws)\<^sup>*\<^sup>* s (at_cons CIdle
    (advance_consumer (consumer (mem s) + round_up_to_8 (HEADER_SIZE + word_of_nat (length xs))) (mem s)) s)"
proof -
  let ?s = "at_cons (CHold (head_record ds (mem s) xs)) (mem s) s"
  have "cstep ds ?s (at_cons CIdle
      (advance_consumer (consumer (mem s) + round_up_to_8 (HEADER_SIZE + word_of_nat (length xs))) (mem s)) s)"
    using c_release [of ?s "head_record ds (mem s) xs" ds] by (simp add: Record_drop_def head_record_def)
  then have "(bstep ds ws)\<^sup>*\<^sup>* ?s (at_cons CIdle
      (advance_consumer (consumer (mem s) + round_up_to_8 (HEADER_SIZE + word_of_nat (length xs))) (mem s)) s)"
    using b by (blast intro: consumer_star dest: bounded_at_cons)
  with hold_run [OF c rel b] show ?thesis by (rule rtranclp_trans)
qed

section \<open>Safety of reachable states\<close>

lemma window_disjoint:
  fixes a b m n ds :: nat
  assumes "a + m \<le> b" "b + n \<le> a + ds"
  shows "(\<lambda>k. (a + k) mod ds) ` {..<m} \<inter> (\<lambda>k. (b + k) mod ds) ` {..<n} = {}"
proof (rule ccontr)
  assume "(\<lambda>k. (a + k) mod ds) ` {..<m} \<inter> (\<lambda>k. (b + k) mod ds) ` {..<n} \<noteq> {}"
  then obtain i j where "i < m" "j < n" "(a + i) mod ds = (b + j) mod ds" by auto
  then show False using mod_window_neq [of "a + i" "b + j" ds] assms by simp
qed

lemma buffer_bytes_abs:
  assumes "owns ds rb q rs"
  shows "buffer_bytes ds rb = (\<lambda>k. (q + k) mod unat ds) ` {..<8 + unat (rb_size rb)}"
  using assms by (simp add: buffer_bytes_def owns_def mod_add_left_eq)

lemma buffers_disjoint:
  assumes rel: "ring_rel ds m rs" and own: "owns ds rb q rs" "owns ds rb' q' rs" and neq: "q \<noteq> q'"
  shows "buffer_bytes ds rb \<inter> buffer_bytes ds rb' = {}"
proof -
  note R = ring_relD [OF rel] and O = ownsD [OF rel own(1)] and O' = ownsD [OF rel own(2)]
  have "q + span (unat (rb_size rb)) \<le> q' \<or> q' + span (unat (rb_size rb')) \<le> q"
    using slots_disjoint [OF R(5), of q "Busy (ucast (rb_size rb))" q' "Busy (ucast (rb_size rb'))"] own neq
    by (simp add: owns_def unat_ucast_len)
  then show ?thesis
    unfolding buffer_bytes_abs [OF own(1)] buffer_bytes_abs [OF own(2)]
  proof
    assume "q + span (unat (rb_size rb)) \<le> q'"
    then show "(\<lambda>k. (q + k) mod unat ds) ` {..<8 + unat (rb_size rb)} \<inter>
        (\<lambda>k. (q' + k) mod unat ds) ` {..<8 + unat (rb_size rb')} = {}"
      using O O' R(4) span_ge [of "unat (rb_size rb)"] span_ge [of "unat (rb_size rb')"]
      by (intro window_disjoint) linarith+
  next
    assume "q' + span (unat (rb_size rb')) \<le> q"
    then have "(\<lambda>k. (q' + k) mod unat ds) ` {..<8 + unat (rb_size rb')} \<inter>
        (\<lambda>k. (q + k) mod unat ds) ` {..<8 + unat (rb_size rb)} = {}"
      using O O' R(4) span_ge [of "unat (rb_size rb)"] span_ge [of "unat (rb_size rb')"]
      by (intro window_disjoint) linarith+
    then show "(\<lambda>k. (q + k) mod unat ds) ` {..<8 + unat (rb_size rb)} \<inter>
        (\<lambda>k. (q' + k) mod unat ds) ` {..<8 + unat (rb_size rb')} = {}" by blast
  qed
qed

lemma head_record_fields:
  assumes rel: "ring_rel ds m ((q, Committed xs) # rs)"
  shows "unat (rec_len (head_record ds m xs)) = length xs"
    "unat (rec_offset (head_record ds m xs)) = q mod unat ds + 8"
proof -
  note R = ring_relD [OF rel] and C = ring_rel_ConsD [OF rel]
  have "slot_len (Committed xs) < 2 ^ 32" unfolding C(2) by (rule slot_len_less)
  then show "unat (rec_len (head_record ds m xs)) = length xs"
    by (simp add: head_record_def unat_of_nat)
  have "8 dvd unat ds" using R(1,2) by (rule is_power_of_two_dvd_8)
  then have "q mod unat ds + 8 \<le> unat ds"
    using R(2,3) C(1) by (intro dvd_less_add) (auto simp: dvd_mod)
  also have "unat ds < 2 ^ LENGTH(64)" by (rule unat_lt)
  finally show "unat (rec_offset (head_record ds m xs)) = q mod unat ds + 8"
    using R(1) C(1) by (simp add: head_record_def HEADER_SIZE_def unat_word_ariths(1) unat_and_size_mask)
qed

lemma record_disjoint:
  assumes rel: "ring_rel ds m ((q, Committed xs) # rs)" and own: "owns ds rb q' ((q, Committed xs) # rs)"
  shows "buffer_bytes ds rb \<inter> record_bytes ds (head_record ds m xs) = {}"
proof -
  note R = ring_relD [OF rel] and C = ring_rel_ConsD [OF rel] and O = ownsD [OF rel own]
  have "(q', Busy (ucast (rb_size rb))) \<in> set rs" using own by (simp add: owns_def)
  then have q: "q + span (length xs) \<le> q'" using slots_positions(1) [OF C(4)] C(1) by simp
  have "record_bytes ds (head_record ds m xs) = (\<lambda>k. (q + 8 + k) mod unat ds) ` {..<length xs}"
    by (simp add: record_bytes_def head_record_fields [OF rel] add.assoc mod_add_left_eq)
  moreover have "(\<lambda>k. (q + 8 + k) mod unat ds) ` {..<length xs} \<inter> (\<lambda>k. (q' + k) mod unat ds) ` {..<8 + unat (rb_size rb)} = {}"
    using q O R(4) C(1) span_ge [of "length xs"] span_ge [of "unat (rb_size rb)"]
    by (intro window_disjoint) linarith+
  ultimately show ?thesis unfolding buffer_bytes_abs [OF own] by blast
qed

lemma pstep_consumer: "pstep ds ws i s t \<Longrightarrow> consumer (mem t) = consumer (mem s) \<and> cons t = cons s"
  by (induction rule: pstep.induct)
    (auto simp: advance_producer_def increment_dropped_def as_mut_slice_write_def split: if_splits)

lemma held_head_kept:
  assumes "astep rs rs'" "slots ds m c p rs" "slots ds m' c p' rs'"
    "rs = (q, Committed xs) # rs1" "rs' = (q', Committed xs') # rs1'"
  shows "xs' = xs"
  using assms(1)
proof cases
  case (a_commit q0 n ys)
  have "rs' = (q, Committed xs) # upd q0 (Committed ys) rs1"
    using upd_Committed_head [of ds m c p q xs rs1 q0 n "Committed ys"] a_commit assms(2,4) by simp
  then show ?thesis using assms(5) by simp
next
  case (a_consume q0 ys)
  have "slots ds m (c + span (length xs)) p rs'" using assms(2,4) a_consume by auto
  then have "c + span (length xs) \<le> q'" using slots_positions(1) assms(5) by fastforce
  moreover have "q' = c" using assms(3,5) by simp
  ultimately show ?thesis using span_ge [of "length xs"] by simp
qed (use assms(4,5) in auto)

text \<open>
  C3 (mutual exclusion): in no reachable state are two producers inside the critical section of
  \<open>Producer::reserve\<close>, that is, between taking and dropping the spin lock guard.
\<close>

theorem reserve_mutual_exclusion:
  assumes "is_power_of_two ds" "8 \<le> ds" "reach ds ws data s"
    and "holds_lock (pcs s i)" "holds_lock (pcs s j)"
  shows "i = j"
  using reach_inv [OF assms(3,1,2)] conc_invD(5) assms(4,5) by blast




section \<open>The discard race\<close>

lemma discard_run:
  assumes pc: "pcs s i = Owner rb q"
  shows "(step_discard ds ws)\<^sup>*\<^sup>* s (at_pc i (DiscardStored rb q) (update_header ds rb header_discard (mem s)) s)"
proof -
  let ?s1 = "at_pc i (DiscardLoaded rb q (rb_header ds rb (mem s))) (mem s) s"
  have "dstep ds i s ?s1" using d_load [OF pc] .
  moreover have "dstep ds i ?s1 (at_pc i (DiscardStored rb q) (update_header ds rb header_discard (mem s)) s)"
    using d_store [of ?s1 i rb q] by (simp add: update_header_def rb_header_def)
  ultimately show ?thesis by (meson with_discard r_into_rtranclp rtranclp.rtrancl_into_rtrancl)
qed

lemma bstep_discard: "(bstep ds ws)\<^sup>*\<^sup>* s t \<Longrightarrow> (step_discard ds ws)\<^sup>*\<^sup>* s t"
  by (rule rtranclp_mono [THEN predicate2D, rotated]) (auto simp: bstep_def intro: no_discard)

lemma reserve_stage:
  assumes e: "empty_ring ds P s" and pc: "pcs s i = Idle"
    and sz: "unat sz < 2 ^ 32" "span (unat sz) < unat ds" "P + span (unat sz) < 2 ^ 63"
  shows "\<exists>rb m. (bstep ds ws)\<^sup>*\<^sup>* s (at_pc i (Owner rb P) m s) \<and>
    rb_size rb = sz \<and> owns ds rb P [(P, Busy (ucast sz))] \<and> ring_rel ds m [(P, Busy (ucast sz))] \<and>
    unat (producer m) = P + span (unat sz) \<and> \<not> spinlock m"
proof -
  have rel: "ring_rel ds (mem s) []" and P: "P = unat (producer (mem s))" and lock: "\<not> spinlock (mem s)"
    using e by (auto simp: empty_ring_def)
  have "consumer (mem s) = producer (mem s)" using ring_relD(5) [OF rel] by (simp add: word_unat_eq_iff)
  then have b: "unat (producer (mem s)) + span (unat sz) < 2 ^ 64"
    "unat (producer (mem s)) + span (unat sz) < unat (consumer (mem s)) + unat ds"
    using sz P by simp_all
  obtain rb m where r: "reserve ds ws True sz (mem s) = (Ok rb, m)" "rb_size rb = sz"
    "owns ds rb P ([] @ [(P, Busy (ucast sz))])" "ring_rel ds m ([] @ [(P, Busy (ucast sz))])"
    "unat (producer m) = P + span (unat sz)" "\<not> spinlock m"
    using reserve_space [OF rel sz(1) b, of ws] unfolding P by metis
  have "(bstep ds ws)\<^sup>*\<^sup>* s (at_pc i (Owner rb P) m s)"
    using sz r unfolding P by (intro reserve_run [OF pc lock]) (simp_all add: bounded_def)
  with r show ?thesis by auto
qed

lemma discard_lap:
  fixes sz :: usize
  assumes e: "empty_ring ds P s" and pc: "pcs s i = Idle"
    and sz: "unat sz < 2 ^ 32" "span (unat sz) < unat ds" "P + span (unat sz) < 2 ^ 63"
  shows "\<exists>rb t. (step_discard ds ws)\<^sup>*\<^sup>* s t \<and> pcs t = (pcs s)(i := DiscardStored rb P) \<and>
    unat (record_pos rb) = P mod unat ds \<and> empty_ring ds (P + span (unat sz)) t"
proof -
  obtain rb m where r: "(bstep ds ws)\<^sup>*\<^sup>* s (at_pc i (Owner rb P) m s)" "rb_size rb = sz"
    "owns ds rb P [(P, Busy (ucast sz))]" "ring_rel ds m [(P, Busy (ucast sz))]"
    "unat (producer m) = P + span (unat sz)" "\<not> spinlock m"
    using reserve_stage [OF assms, of ws] by blast
  let ?m = "update_header ds rb header_discard m" and ?n = "ucast (ucast sz :: u32) :: usize"
  let ?s = "at_pc i (DiscardStored rb P) ?m s"
  have rel: "ring_rel ds ?m [(P, Discarded (ucast sz))]"
    using discard_rel [OF r(4,3)] r(2) by (simp add: upd_def)
  let ?t = "at_cons CIdle (advance_consumer (consumer ?m + round_up_to_8 (HEADER_SIZE + ?n)) ?m) ?s"
  have "(step_discard ds ws)\<^sup>*\<^sup>* (at_pc i (Owner rb P) m s) ?s"
    using discard_run [of "at_pc i (Owner rb P) m s" i rb P ds ws] by simp
  with bstep_discard [OF r(1)] have "(step_discard ds ws)\<^sup>*\<^sup>* s ?s" by (rule rtranclp_trans)
  also have "(step_discard ds ws)\<^sup>*\<^sup>* ?s ?t"
    using skip_run [of ?s ds P "ucast sz" "[]" ws] rel e r(5) sz(3)
    by (intro bstep_discard) (simp add: empty_ring_def bounded_def update_header_def)
  finally have run: "(step_discard ds ws)\<^sup>*\<^sup>* s ?t" .
  have "ring_rel ds (mem ?t) []" unfolding at_cons_simps by (rule consume_head(2) [OF rel]) simp
  then have "empty_ring ds (P + span (unat sz)) ?t"
    using r(5,6) by (simp add: empty_ring_def advance_consumer_def update_header_def)
  moreover have "unat (record_pos rb) = P mod unat ds" using r(3) by (simp add: owns_def)
  ultimately show ?thesis
    using run by (intro exI [of _ rb] exI [of _ ?t]) (simp only: at_cons_simps at_pc_simps simp_thms)
qed

lemma commit_stage:
  fixes sz :: usize
  assumes e: "empty_ring ds P s" and pc: "pcs s i = Idle"
    and sz: "unat sz < 2 ^ 32" "span (unat sz) < unat ds" "P + span (unat sz) < 2 ^ 63"
  shows "\<exists>m xs. (bstep ds ws)\<^sup>*\<^sup>* s (at_pc i Idle m s) \<and> ring_rel ds m [(P, Committed xs)] \<and>
    unat (producer m) = P + span (unat sz) \<and> \<not> spinlock m"
proof -
  obtain rb m where r: "(bstep ds ws)\<^sup>*\<^sup>* s (at_pc i (Owner rb P) m s)" "rb_size rb = sz"
    "owns ds rb P [(P, Busy (ucast sz))]" "ring_rel ds m [(P, Busy (ucast sz))]"
    "unat (producer m) = P + span (unat sz)" "\<not> spinlock m"
    using reserve_stage [OF assms, of ws] by blast
  let ?o = "at_pc i (Owner rb P) m s" and ?m = "update_header ds rb header_commit m"
  have "\<not> header_is_discarded (rb_header ds rb m)"
    using Busy_not_discarded [OF ownsD(1) [OF r(4,3)]] r(3) by (simp add: rb_header_def owns_def)
  then have "(bstep ds ws)\<^sup>*\<^sup>* ?o (at_pc i Idle ?m s)"
    using commit_run [of ?o i rb P ds ws] r(5) sz(3) by (simp add: bounded_def)
  with r(1) have "(bstep ds ws)\<^sup>*\<^sup>* s (at_pc i Idle ?m s)" by (rule rtranclp_trans)
  moreover obtain xs where "ring_rel ds ?m [(P, Committed xs)]"
    using commit_rel [OF r(4,3)] by (simp add: upd_def)
  moreover have "unat (producer ?m) = P + span (unat sz)" "\<not> spinlock ?m"
    using r(5,6) by (simp_all add: update_header_def)
  ultimately show ?thesis by blast
qed

lemma send_lap:
  fixes sz :: usize
  assumes e: "empty_ring ds P s" and pc: "pcs s i = Idle"
    and sz: "unat sz < 2 ^ 32" "span (unat sz) < unat ds" "P + span (unat sz) < 2 ^ 63"
  shows "\<exists>t. (bstep ds ws)\<^sup>*\<^sup>* s t \<and> pcs t = pcs s \<and> empty_ring ds (P + span (unat sz)) t"
proof -
  obtain m xs where r: "(bstep ds ws)\<^sup>*\<^sup>* s (at_pc i Idle m s)" "ring_rel ds m [(P, Committed xs)]"
    "unat (producer m) = P + span (unat sz)" "\<not> spinlock m"
    using commit_stage [OF assms, of ws] by blast
  let ?s = "at_pc i Idle m s"
  have "slot_len (Committed xs) < 2 ^ 32" unfolding ring_rel_ConsD(2) [OF r(2)] by (rule slot_len_less)
  then have len: "unat (word_of_nat (length xs) :: usize) = slot_len (Committed xs)" by (simp add: unat_of_nat)
  let ?t = "at_cons CIdle (advance_consumer (consumer m + round_up_to_8 (HEADER_SIZE + word_of_nat (length xs))) m) ?s"
  have "(bstep ds ws)\<^sup>*\<^sup>* ?s ?t"
    using consume_run [of ?s ds P xs "[]" ws] r e sz(3) by (simp add: empty_ring_def bounded_def)
  with r(1) have run: "(bstep ds ws)\<^sup>*\<^sup>* s ?t" by (rule rtranclp_trans)
  have "ring_rel ds (mem ?t) []" unfolding at_cons_simps by (rule consume_head(2) [OF r(2) len])
  then have "empty_ring ds (P + span (unat sz)) ?t"
    using r(3,4) by (simp add: empty_ring_def advance_consumer_def)
  moreover have "pcs ?t = pcs s" using pc by auto
  ultimately show ?thesis using run by blast
qed

lemma empty_init:
  assumes "is_power_of_two ds" "8 \<le> unat ds"
  shows "empty_ring ds 0 (sys_init data)"
  using assms by (simp add: empty_ring_def ring_rel_def sys_init_def RingBuf_new_def Metadata_new_def word_le_nat_alt)

text \<open>
  C5 (finding): \<open>ReservedBuffer::discard\<close> is not safe.  Its first half publishes the discard flag,
  then \<open>drop\<close> reads the header again; when the ring makes one lap in between, \<open>drop\<close> finds the
  busy header of another producer's reservation and commits it.  With a ring of 4096 bytes there is
  a run in which the consumer holds a record that producer 1 has reserved and is still writing.
\<close>

theorem discard_race:
  "\<exists>s rb q r. (step_discard 4096 ws)\<^sup>*\<^sup>* (sys_init data) s \<and> pcs s 1 = Owner rb q \<and> rb_size rb = 2040 \<and>
    cons s = CHold r \<and> unat (rec_offset r) = unat (record_pos rb) + 8 \<and> unat (rec_len r) = 2040"
proof -
  let ?D = "(step_discard 4096 ws)\<^sup>*\<^sup>*"
  have sp: "span (unat (2040 :: usize)) = 2048" by (simp add: span_def)
  have pow: "is_power_of_two 4096" by code_simp
  obtain rb0 s1 where 1: "?D (sys_init data) s1" "pcs s1 = (\<lambda>_. Idle)(0 := DiscardStored rb0 0)"
    "unat (record_pos rb0) = 0" "empty_ring 4096 2048 s1"
    using discard_lap [OF empty_init [OF pow], of data 0 "2040 :: usize" ws] sp by (auto simp: sys_init_def)
  obtain s2 where 2: "(bstep 4096 ws)\<^sup>*\<^sup>* s1 s2" "pcs s2 = pcs s1" "empty_ring 4096 4096 s2"
    using send_lap [OF 1(4), of 1 "2040 :: usize" ws] 1(2) sp by auto
  obtain rb m where 3: "(bstep 4096 ws)\<^sup>*\<^sup>* s2 (at_pc 1 (Owner rb 4096) m s2)" "rb_size rb = 2040"
    "owns 4096 rb 4096 [(4096, Busy 2040)]" "ring_rel 4096 m [(4096, Busy 2040)]" "unat (producer m) = 6144"
    using reserve_stage [OF 2(3), of 1 "2040 :: usize" ws] 1(2) 2(2) sp by auto
  let ?s3 = "at_pc 1 (Owner rb 4096) m s2" and ?m = "update_header 4096 rb header_commit m"
  have same: "record_pos rb0 = record_pos rb" using 1(3) 3(3) by (simp add: owns_def word_unat_eq_iff)
  have "\<not> header_is_discarded (rb_header 4096 rb0 m)"
    using Busy_not_discarded [OF ownsD(1) [OF 3(4,3)]] 3(3) same load_header_mod [of 4096 "area m" 4096]
    by (simp add: rb_header_def owns_def)
  then have "dstep 4096 0 ?s3 (at_pc 0 (DropLoaded rb0 0 False) m ?s3)"
    using d_drop [of ?s3 0 rb0 0 4096] 1(2) 2(2) by simp
  moreover have "(bstep 4096 ws)\<^sup>*\<^sup>* (at_pc 0 (DropLoaded rb0 0 False) m ?s3) (at_pc 0 Idle ?m ?s3)"
    using drop_run [of "at_pc 0 (DropLoaded rb0 0 False) m ?s3" 0 rb0 0 4096 ws] 3(5) same
    by (simp add: bounded_def update_header_def)
  ultimately have 4: "?D ?s3 (at_pc 0 Idle ?m ?s3)"
    by (meson bstep_discard with_discard converse_rtranclp_into_rtranclp)
  obtain xs where rel: "ring_rel 4096 ?m [(4096, Committed xs)]" and len: "length xs = 2040"
    using commit_rel [OF 3(4,3)] 3(2) by (simp add: upd_def)
  let ?t = "at_cons (CHold (head_record 4096 ?m xs)) ?m (at_pc 0 Idle ?m ?s3)"
  have "(bstep 4096 ws)\<^sup>*\<^sup>* (at_pc 0 Idle ?m ?s3) ?t"
    using hold_run [of "at_pc 0 Idle ?m ?s3" 4096 4096 xs "[]" ws] rel 2(3) 3(5)
    by (simp add: empty_ring_def bounded_def update_header_def)
  then have "?D (sys_init data) ?t"
    using 1(1) bstep_discard 2(1) 3(1) 4 by (meson rtranclp_trans)
  then show ?thesis
    using head_record_fields [OF rel] len 3(2,3) by (intro exI [of _ ?t] exI) (auto simp: owns_def)
qed

section \<open>Witnesses\<close>

lemma pow_4096: "is_power_of_two 4096"
  by code_simp

lemma locked_state: "reach 4096 ws data (at_pc 0 (Locked 16 0) ((mem (sys_init data))\<lparr>spinlock := True\<rparr>) (sys_init data))"
proof -
  let ?s0 = "sys_init data"
  let ?s1 = "at_pc 0 (ReadCons 16 0) (mem ?s0) ?s0"
  have "pstep 4096 ws 0 ?s0 ?s1"
    using p_begin [of ?s0 0 16 4096 ws]
    by (simp add: sys_init_def consumer_pos_def RingBuf_new_def Metadata_new_def)
  moreover have "pstep 4096 ws 0 ?s1 (at_pc 0 (Locked 16 0) ((mem ?s0)\<lparr>spinlock := True\<rparr>) ?s0)"
    using p_lock [of ?s1 0 16 0 4096 ws] by (simp add: sys_init_def RingBuf_new_def Metadata_new_def)
  moreover have "bounded ?s0" "bounded ?s1"
    by (simp_all add: bounded_def sys_init_def RingBuf_new_def Metadata_new_def)
  ultimately show ?thesis unfolding reach_def by (blast intro: producer_star)
qed

lemma two_owners:
  "\<exists>s rb rb'. reach 4096 ws data s \<and> owner_of (pcs s 0) = Some (rb, 0) \<and> owner_of (pcs s 1) = Some (rb', 24)"
proof -
  have sp: "span (unat (16 :: usize)) = 24" by (simp add: span_def)
  obtain rb m where 1: "(bstep 4096 ws)\<^sup>*\<^sup>* (sys_init data) (at_pc 0 (Owner rb 0) m (sys_init data))"
    "ring_rel 4096 m [(0, Busy 16)]" "unat (producer m) = 24" "\<not> spinlock m"
    using reserve_stage [OF empty_init [OF pow_4096], of data 0 16 ws] sp by (auto simp: sys_init_def)
  let ?s1 = "at_pc 0 (Owner rb 0) m (sys_init data)"
  have b: "unat (16 :: usize) < 2 ^ 32" "unat (producer m) + span (unat (16 :: usize)) < 2 ^ 64"
    "unat (producer m) + span (unat (16 :: usize)) < unat (consumer m) + unat (4096 :: usize)"
    using 1(3) sp by simp_all
  obtain rb' m' where 2: "reserve 4096 ws True 16 m = (Ok rb', m')"
    "unat (producer m') = unat (producer m) + span (unat (16 :: usize))"
    using reserve_space [OF 1(2) b, of ws] by metis
  have "(bstep 4096 ws)\<^sup>*\<^sup>* ?s1 (at_pc 1 (Owner rb' 24) m' ?s1)"
    using reserve_run [of ?s1 1 16 4096 ws rb' m'] 1(3,4) 2 sp by (simp add: sys_init_def bounded_def)
  with 1(1) have "reach 4096 ws data (at_pc 1 (Owner rb' 24) m' ?s1)"
    unfolding reach_def by (rule rtranclp_trans)
  moreover have "owner_of (pcs (at_pc 1 (Owner rb' 24) m' ?s1) 0) = Some (rb, 0)"
    "owner_of (pcs (at_pc 1 (Owner rb' 24) m' ?s1) 1) = Some (rb', 24)" by simp_all
  ultimately show ?thesis by blast
qed

lemma holding_state:
  "\<exists>s r. reach 4096 ws data s \<and> bounded s \<and> cons s = CHold r \<and> pcs s 0 = Idle"
proof -
  have sp: "span (unat (16 :: usize)) = 24" by (simp add: span_def)
  obtain m xs where 1: "(bstep 4096 ws)\<^sup>*\<^sup>* (sys_init data) (at_pc 0 Idle m (sys_init data))"
    "ring_rel 4096 m [(0, Committed xs)]" "unat (producer m) = 24"
    using commit_stage [OF empty_init [OF pow_4096], of data 0 "16 :: usize" ws] sp by (auto simp: sys_init_def)
  let ?s1 = "at_pc 0 Idle m (sys_init data)"
  have b: "bounded ?s1" using 1(3) by (simp add: bounded_def)
  have "(bstep 4096 ws)\<^sup>*\<^sup>* ?s1 (at_cons (CHold (head_record 4096 m xs)) m ?s1)"
    using hold_run [of ?s1 4096 0 xs "[]" ws] 1(2) b by (simp add: sys_init_def)
  with 1(1) have "reach 4096 ws data (at_cons (CHold (head_record 4096 m xs)) m ?s1)"
    unfolding reach_def by (rule rtranclp_trans)
  moreover have "bounded (at_cons (CHold (head_record 4096 m xs)) m ?s1)" using b by (simp add: bounded_def)
  moreover have "cons (at_cons (CHold (head_record 4096 m xs)) m ?s1) = CHold (head_record 4096 m xs)"
    "pcs (at_cons (CHold (head_record 4096 m xs)) m ?s1) 0 = Idle" by simp_all
  ultimately show ?thesis by blast
qed

theorem reserve_mutual_exclusion_witness:
  "\<exists>s. reach 4096 NoWakeup (\<lambda>_. 0) s \<and> {j. holds_lock (pcs s j)} = {0}"
proof -
  let ?s = "at_pc 0 (Locked 16 0) ((mem (sys_init (\<lambda>_. 0)))\<lparr>spinlock := True\<rparr>) (sys_init (\<lambda>_. 0))"
  have le: "(8 :: usize) \<le> 4096" by simp
  have z: "holds_lock (pcs ?s 0)" by simp
  have "j = 0" if "holds_lock (pcs ?s j)" for j
    by (rule reserve_mutual_exclusion [OF pow_4096 le locked_state that z])
  then have "{j. holds_lock (pcs ?s j)} = {0}" using z by blast
  then show ?thesis using locked_state by blast
qed




end
