(* ===== verification/Stateful.thy ===== *)
theory Stateful
  imports Prelude
begin

text \<open>
  Fallible code over a mutable state, as the methods on \<open>&mut self\<close> with the \<open>?\<close> operator are
  written: a computation takes the state and returns a result together with the new state, and
  \<open>try_bind\<close> stops at the first error and keeps the state changes made so far.  \<open>triple P m Q\<close>
  says that from every state in \<open>P\<close> the result and the state after \<open>m\<close>, error or not, satisfy
  \<open>Q\<close>; its rules carry the invariant proofs of the components.
\<close>

type_synonym ('s, 'e, 'a) stm = "'s \<Rightarrow> ('e, 'a) result \<times> 's"

definition ret :: "'a \<Rightarrow> ('s, 'e, 'a) stm" where
  "ret a s = (Ok a, s)"

definition throw :: "'e \<Rightarrow> ('s, 'e, 'a) stm" where
  "throw e s = (Err e, s)"

definition try_bind :: "('s, 'e, 'a) stm \<Rightarrow> ('a \<Rightarrow> ('s, 'e, 'b) stm) \<Rightarrow> ('s, 'e, 'b) stm" where
  "try_bind m k s = (case m s of (Inl e, s') \<Rightarrow> (Err e, s') | (Inr a, s') \<Rightarrow> k a s')"

definition gets :: "('s \<Rightarrow> 'a) \<Rightarrow> ('s, 'e, 'a) stm" where
  "gets f s = (Ok (f s), s)"

definition modify :: "('s \<Rightarrow> 's) \<Rightarrow> ('s, 'e, unit) stm" where
  "modify f s = (Ok (), f s)"

text \<open>Running a method of a field of the state.\<close>

definition on_field ::
  "('s \<Rightarrow> 't) \<Rightarrow> ('t \<Rightarrow> 's \<Rightarrow> 's) \<Rightarrow> ('t, 'e, 'a) stm \<Rightarrow> ('s, 'e, 'a) stm" where
  "on_field g p m s = (case m (g s) of (r, t) \<Rightarrow> (r, p t s))"

text \<open>A \<open>for\<close> loop with \<open>?\<close> in its body.\<close>

primrec try_each :: "('x \<Rightarrow> ('s, 'e, unit) stm) \<Rightarrow> 'x list \<Rightarrow> ('s, 'e, unit) stm" where
  "try_each f [] = ret ()"
| "try_each f (x # xs) = try_bind (f x) (\<lambda>_. try_each f xs)"

section \<open>Unfolding\<close>

named_theorems stm_simps "evaluation of fallible stateful code"

lemma ret_apply [simp, stm_simps]: "ret a s = (Ok a, s)"
  by (simp add: ret_def)

lemma throw_apply [simp, stm_simps]: "throw e s = (Err e, s)"
  by (simp add: throw_def)

lemma gets_apply [simp, stm_simps]: "gets f s = (Ok (f s), s)"
  by (simp add: gets_def)

lemma modify_apply [simp, stm_simps]: "modify f s = (Ok (), f s)"
  by (simp add: modify_def)

lemma try_bind_Ok [stm_simps]: "m s = (Ok a, s') \<Longrightarrow> try_bind m k s = k a s'"
  by (simp add: try_bind_def)

lemma try_bind_Err [stm_simps]: "m s = (Err e, s') \<Longrightarrow> try_bind m k s = (Err e, s')"
  by (simp add: try_bind_def)

lemma try_bind_gets [simp, stm_simps]: "try_bind (gets f) k s = k (f s) s"
  by (simp add: try_bind_def)

lemma try_bind_modify [simp, stm_simps]: "try_bind (modify f) k s = k () (f s)"
  by (simp add: try_bind_def)

lemma try_bind_ret [simp, stm_simps]: "try_bind (ret a) k = k a"
  by (rule ext) (simp add: try_bind_def)

lemma try_bind_throw [simp, stm_simps]: "try_bind (throw e) k = throw e"
  by (rule ext) (simp add: try_bind_def)

lemma try_bind_assoc: "try_bind (try_bind m k) l = try_bind m (\<lambda>a. try_bind (k a) l)"
  by (rule ext) (simp add: try_bind_def split: prod.split sum.split)

lemma try_bind_OkE:
  assumes "try_bind m k s = (Ok b, s'')"
  obtains a s' where "m s = (Ok a, s')" "k a s' = (Ok b, s'')"
  using assms by (auto simp: try_bind_def split: prod.splits sum.splits)

section \<open>Triples\<close>

definition triple :: "('s \<Rightarrow> bool) \<Rightarrow> ('s, 'e, 'a) stm \<Rightarrow> (('e, 'a) result \<Rightarrow> 's \<Rightarrow> bool) \<Rightarrow> bool" where
  "triple P m Q \<longleftrightarrow> (\<forall>s. P s \<longrightarrow> (case m s of (r, s') \<Rightarrow> Q r s'))"

lemma tripleI: "(\<And>s r s'. P s \<Longrightarrow> m s = (r, s') \<Longrightarrow> Q r s') \<Longrightarrow> triple P m Q"
  by (auto simp: triple_def)

lemma tripleD: "triple P m Q \<Longrightarrow> P s \<Longrightarrow> m s = (r, s') \<Longrightarrow> Q r s'"
  by (auto simp: triple_def)

lemma triple_snd: "triple P m (\<lambda>_. Q) \<Longrightarrow> P s \<Longrightarrow> Q (snd (m s))"
  by (auto simp: triple_def case_prod_beta)

lemma triple_conseq:
  "triple P m Q \<Longrightarrow> (\<And>s. P' s \<Longrightarrow> P s) \<Longrightarrow> (\<And>r s. Q r s \<Longrightarrow> Q' r s) \<Longrightarrow> triple P' m Q'"
  by (fastforce simp: triple_def split: prod.splits)

lemma triple_ret: "(\<And>s. P s \<Longrightarrow> Q (Ok a) s) \<Longrightarrow> triple P (ret a) Q"
  by (simp add: triple_def)

lemma triple_gets: "(\<And>s. P s \<Longrightarrow> Q (Ok (f s)) s) \<Longrightarrow> triple P (gets f) Q"
  by (simp add: triple_def)

lemma triple_modify: "(\<And>s. P s \<Longrightarrow> Q (Ok ()) (f s)) \<Longrightarrow> triple P (modify f) Q"
  by (simp add: triple_def)

lemma triple_bind:
  assumes "triple P m Q" "\<And>e s. Q (Err e) s \<Longrightarrow> R (Err e) s" "\<And>a. triple (Q (Ok a)) (k a) R"
  shows "triple P (try_bind m k) R"
proof (rule tripleI)
  fix s r s'
  assume "P s" "try_bind m k s = (r, s')"
  then show "R r s'"
    using assms tripleD [OF assms(1) \<open>P s\<close>] tripleD [OF assms(3)]
    by (auto simp: try_bind_def split: prod.splits sum.splits)
qed

lemma triple_each:
  "(\<And>x. x \<in> set xs \<Longrightarrow> triple I (f x) (\<lambda>_. I)) \<Longrightarrow> triple I (try_each f xs) (\<lambda>_. I)"
proof (induction xs)
  case Nil
  then show ?case by (simp add: triple_def)
next
  case (Cons x xs)
  have "triple I (f x) (\<lambda>_. I)" "triple I (try_each f xs) (\<lambda>_. I)" using Cons by simp_all
  then show ?case by (auto intro: triple_bind)
qed

lemma triple_if:
  "(b \<Longrightarrow> triple P m Q) \<Longrightarrow> (\<not> b \<Longrightarrow> triple P m' Q) \<Longrightarrow> triple P (if b then m else m') Q"
  by simp

lemma triple_gets_bind: "(\<And>s0. triple (\<lambda>s. P s \<and> f s = f s0) (k (f s0)) R) \<Longrightarrow> triple P (try_bind (gets f) k) R"
  by (auto simp: triple_def)

end
