(* ===== verification/Protocol.thy ===== *)
theory Protocol
  imports Prelude
begin

text \<open>
  The wire protocol (protocol/src/lib.rs): the event and control message types, the conversions of
  track types, the stream id allocator and the argument validation.

  A HashMap is an association list in its iteration order with distinct keys; \<open>hm_insert\<close> and
  \<open>hm_get\<close> are its insert and get, \<open>hm_remove\<close> its remove.  Archived values are what the derived code of the rkyv crate
  reads out of a buffer: the archived types have the fields and cases of the native ones over archived
  scalars.  The archived scalars are a type parameter \<open>'a\<close> and the conversions \<open>to_native\<close> of the
  crate are an argument, the record \<open>natives\<close>.
\<close>

section \<open>Definitions\<close>

type_synonym 'v hashmap = "(string \<times> 'v) list"

definition hm_get :: "('k \<times> 'v) list \<Rightarrow> 'k \<Rightarrow> 'v option" where
  "hm_get m k = map_of m k"

fun hm_insert :: "'k \<Rightarrow> 'v \<Rightarrow> ('k \<times> 'v) list \<Rightarrow> ('k \<times> 'v) list" where
  "hm_insert k v [] = [(k, v)]"
| "hm_insert k v ((k', v') # m) = (if k = k' then (k, v) # m else (k', v') # hm_insert k v m)"

definition hm_remove :: "'k \<Rightarrow> ('k \<times> 'v) list \<Rightarrow> ('k \<times> 'v) list" where
  "hm_remove k m = filter (\<lambda>(k', _). k' \<noteq> k) m"

definition VERSION :: string where "VERSION = ''0.1''"

type_synonym StreamId = u16

record StreamIdAllocator =
  next_id :: StreamId

definition StreamIdAllocator_new :: StreamIdAllocator where
  "StreamIdAllocator_new = \<lparr>next_id = 1\<rparr>"

definition allocate :: "StreamIdAllocator \<Rightarrow> StreamId \<times> StreamIdAllocator" where
  "allocate a = (next_id a, a\<lparr>next_id := saturating_add (next_id a) 1\<rparr>)"

record Labels =
  strings :: "string hashmap"
  ints :: "i64 hashmap"
  bools :: "bool hashmap"
  floats :: "f64 hashmap"

definition Labels_new :: Labels where
  "Labels_new = \<lparr>strings = [], ints = [], bools = [], floats = []\<rparr>"

datatype TrackId =
    TrackId_Cpu u32
  | TrackId_Thread i32 i32
  | TrackId_Process i32
  | TrackId_Custom u64
  | TrackId_Counter u64

datatype TrackType =
    TrackType_Cpu u32
  | TrackType_Thread i32 i32
  | TrackType_Process i32
  | TrackType_Custom u64
  | TrackType_Counter u64 "string option"

fun to_id :: "TrackType \<Rightarrow> TrackId" where
  "to_id (TrackType_Cpu cpu) = TrackId_Cpu cpu"
| "to_id (TrackType_Thread tid pid) = TrackId_Thread tid pid"
| "to_id (TrackType_Process pid) = TrackId_Process pid"
| "to_id (TrackType_Custom i) = TrackId_Custom i"
| "to_id (TrackType_Counter i _) = TrackId_Counter i"

record 'a natives =
  u16_native :: "'a \<Rightarrow> u16"
  u32_native :: "'a \<Rightarrow> u32"
  i32_native :: "'a \<Rightarrow> i32"
  u64_native :: "'a \<Rightarrow> u64"
  i64_native :: "'a \<Rightarrow> i64"
  f64_native :: "'a \<Rightarrow> f64"

datatype 'a ArchivedTrackId =
    ArchivedTrackId_Cpu 'a
  | ArchivedTrackId_Thread 'a 'a
  | ArchivedTrackId_Process 'a
  | ArchivedTrackId_Custom 'a
  | ArchivedTrackId_Counter 'a

fun ArchivedTrackId_to_native :: "'a natives \<Rightarrow> 'a ArchivedTrackId \<Rightarrow> TrackId" where
  "ArchivedTrackId_to_native n (ArchivedTrackId_Cpu cpu) = TrackId_Cpu (u32_native n cpu)"
| "ArchivedTrackId_to_native n (ArchivedTrackId_Thread tid pid) = TrackId_Thread (i32_native n tid) (i32_native n pid)"
| "ArchivedTrackId_to_native n (ArchivedTrackId_Process pid) = TrackId_Process (i32_native n pid)"
| "ArchivedTrackId_to_native n (ArchivedTrackId_Custom i) = TrackId_Custom (u64_native n i)"
| "ArchivedTrackId_to_native n (ArchivedTrackId_Counter i) = TrackId_Counter (u64_native n i)"

datatype 'a ArchivedTrackType =
    ArchivedTrackType_Cpu 'a
  | ArchivedTrackType_Thread 'a 'a
  | ArchivedTrackType_Process 'a
  | ArchivedTrackType_Custom 'a
  | ArchivedTrackType_Counter 'a "string option"

fun ArchivedTrackType_to_native :: "'a natives \<Rightarrow> 'a ArchivedTrackType \<Rightarrow> TrackType" where
  "ArchivedTrackType_to_native n (ArchivedTrackType_Cpu cpu) = TrackType_Cpu (u32_native n cpu)"
| "ArchivedTrackType_to_native n (ArchivedTrackType_Thread tid pid) = TrackType_Thread (i32_native n tid) (i32_native n pid)"
| "ArchivedTrackType_to_native n (ArchivedTrackType_Process pid) = TrackType_Process (i32_native n pid)"
| "ArchivedTrackType_to_native n (ArchivedTrackType_Custom i) = TrackType_Custom (u64_native n i)"
| "ArchivedTrackType_to_native n (ArchivedTrackType_Counter i u) = TrackType_Counter (u64_native n i) u"

record Track =
  track_name :: string
  track_type :: TrackType
  track_parent :: "TrackType option"

record Counter =
  counter_name :: string
  counter_value :: f64
  counter_timestamp :: u64
  counter_track_id :: TrackId
  counter_labels :: Labels
  counter_unit :: "string option"

record Span =
  span_name :: string
  span_id :: u64
  start_timestamp :: u64
  end_timestamp :: u64
  span_track_id :: TrackId
  span_labels :: Labels

record Instant =
  instant_name :: string
  instant_timestamp :: u64
  instant_track_id :: TrackId
  instant_labels :: Labels

record InternedString =
  istr_iid :: u64
  istr_str :: string

record Frame =
  frame_iid :: u64
  function_name_id :: u64
  mapping_id :: u64
  rel_pc :: u64

record Callstack =
  callstack_iid :: u64
  frame_ids :: "u64 list"

record Mapping =
  mapping_iid :: u64
  build_id :: u64
  exact_offset :: u64
  start_offset :: u64
  mapping_start :: u64
  mapping_end :: u64
  load_bias :: u64
  path_string_ids :: "u64 list"

record InternedData =
  function_names :: "InternedString list"
  frames :: "Frame list"
  callstacks :: "Callstack list"
  mappings :: "Mapping list"
  build_ids :: "InternedString list"
  continuation :: bool

definition InternedData_new :: InternedData where
  "InternedData_new = \<lparr>function_names = [], frames = [], callstacks = [], mappings = [],
    build_ids = [], continuation = False\<rparr>"

datatype CpuMode = CpuMode_Unknown | CpuMode_Kernel | CpuMode_User

record Sample =
  sample_cpu :: u32
  sample_track_id :: TrackId
  sample_timestamp :: u64
  sample_callstack_iid :: u64
  sample_cpu_mode :: CpuMode

datatype Event =
    Event_Counter Counter
  | Event_Span Span
  | Event_Instant Instant
  | Event_InternedData InternedData
  | Event_Sample Sample
  | Event_Track Track

datatype Message =
    Message_Event Event
  | Message_Stream StreamId Event

datatype TimestampType = Monotonic | Boottime | Realtime

datatype Value = Value_String string | Value_Int i64 | Value_Float f64 | Value_Bool bool

record TracingArgs =
  log_filter :: string
  timestamp_type :: TimestampType

record Args =
  args_tracing :: "TracingArgs option"
  args_options :: "Value hashmap"

definition Args_validate :: "Args \<Rightarrow> (string, unit) result" where
  "Args_validate args = (if args_tracing args = None then Err ''at least one arg must be non-empty'' else Ok ())"

datatype ControlMessage =
    Start u64 Args
  | Stop
  | Continue
  | Ack
  | Nack string
  | Version
  | VersionResponse string

section \<open>Association lists\<close>

lemma hm_get_insert [simp]: "hm_get (hm_insert k v m) k' = (if k' = k then Some v else hm_get m k')"
  by (induction k v m rule: hm_insert.induct) (auto simp: hm_get_def)

lemma hm_insert_keys: "fst ` set (hm_insert k v m) = insert k (fst ` set m)"
  by (induction k v m rule: hm_insert.induct) auto

lemma hm_insert_distinct: "distinct (map fst m) \<Longrightarrow> distinct (map fst (hm_insert k v m))"
proof (induction k v m rule: hm_insert.induct)
  case (2 k v k' v' m)
  then show ?case using hm_insert_keys [of k v m] by auto
qed simp

lemma hm_insert_fresh: "k \<notin> fst ` set m \<Longrightarrow> hm_insert k v m = m @ [(k, v)]"
  by (induction k v m rule: hm_insert.induct) auto

lemma hm_get_remove [simp]: "hm_get (hm_remove k m) k' = (if k' = k then None else hm_get m k')"
  by (induction m) (auto simp: hm_get_def hm_remove_def)

lemma hm_remove_keys: "fst ` set (hm_remove k m) = fst ` set m - {k}"
  by (auto simp: hm_remove_def)

lemma hm_remove_distinct: "distinct (map fst m) \<Longrightarrow> distinct (map fst (hm_remove k m))"
  by (induction m) (auto simp: hm_remove_def)

lemma hm_get_mem: "distinct (map fst m) \<Longrightarrow> hm_get m k = Some v \<longleftrightarrow> (k, v) \<in> set m"
  by (simp add: hm_get_def)

lemma hm_get_None: "hm_get m k = None \<longleftrightarrow> k \<notin> fst ` set m"
  by (simp add: hm_get_def map_of_eq_None_iff)

section \<open>Track conversions\<close>

fun archived_id_of :: "'a ArchivedTrackType \<Rightarrow> 'a ArchivedTrackId" where
  "archived_id_of (ArchivedTrackType_Cpu cpu) = ArchivedTrackId_Cpu cpu"
| "archived_id_of (ArchivedTrackType_Thread tid pid) = ArchivedTrackId_Thread tid pid"
| "archived_id_of (ArchivedTrackType_Process pid) = ArchivedTrackId_Process pid"
| "archived_id_of (ArchivedTrackType_Custom i) = ArchivedTrackId_Custom i"
| "archived_id_of (ArchivedTrackType_Counter i u) = ArchivedTrackId_Counter i"

lemma to_id_to_native:
  "to_id (ArchivedTrackType_to_native n t) = ArchivedTrackId_to_native n (archived_id_of t)"
  by (cases t) simp_all

section \<open>Stream ids\<close>

fun allocate_n :: "nat \<Rightarrow> StreamIdAllocator \<Rightarrow> StreamId list \<times> StreamIdAllocator" where
  "allocate_n 0 a = ([], a)"
| "allocate_n (Suc n) a = (let (i, a1) = allocate a; (is, a2) = allocate_n n a1 in (i # is, a2))"

lemma allocate_n_ids:
  "unat (next_id a) + n \<le> 2 ^ 16 \<Longrightarrow>
    map unat (fst (allocate_n n a)) = [unat (next_id a)..<unat (next_id a) + n]"
proof (induction n arbitrary: a)
  case (Suc n)
  let ?a = "a\<lparr>next_id := saturating_add (next_id a) 1\<rparr>"
  show ?case
  proof (cases n)
    case 0
    then show ?thesis by (simp add: allocate_def)
  next
    case (Suc k)
    then have u: "unat (next_id ?a) = unat (next_id a) + 1"
      using Suc.prems by (simp add: unat_saturating_add)
    then show ?thesis
      using Suc.IH [of ?a] Suc.prems upt_conv_Cons [of "unat (next_id a)" "unat (next_id a) + Suc n"]
      by (simp add: allocate_def case_prod_beta)
  qed
qed simp

text \<open>
  The first 65535 ids handed out by a fresh allocator are 1, 2, 3, ..., so they are
  pairwise different; from then on the saturated counter hands out 65535 for ever.
\<close>

theorem stream_ids_distinct:
  "(n \<le> 65535 \<longrightarrow> map unat (fst (allocate_n n StreamIdAllocator_new)) = [1..<n + 1] \<and>
      distinct (fst (allocate_n n StreamIdAllocator_new))) \<and>
    (next_id a = 65535 \<longrightarrow> allocate a = (65535, a))"
proof (intro conjI impI)
  assume "n \<le> 65535"
  then show m: "map unat (fst (allocate_n n StreamIdAllocator_new)) = [1..<n + 1]"
    using allocate_n_ids [of StreamIdAllocator_new n] by (simp add: StreamIdAllocator_new_def)
  show "distinct (fst (allocate_n n StreamIdAllocator_new))"
    using m by (metis distinct_map distinct_upt)
next
  assume "next_id a = 65535"
  then show "allocate a = (65535, a)"
    by (cases a) (simp add: allocate_def saturating_add_def)
qed

theorem stream_ids_distinct_witness:
  "map unat (fst (allocate_n 3 StreamIdAllocator_new)) = [1, 2, 3] \<and>
    allocate \<lparr>next_id = 65535\<rparr> = (65535, \<lparr>next_id = 65535\<rparr>)"
  using stream_ids_distinct [of 3 "\<lparr>next_id = 65535\<rparr>"] by (simp add: upt_rec)

end
