(* ===== verification/ProtocolIter.thy ===== *)
theory ProtocolIter
  imports Protocol
begin

text \<open>
  Archived messages and the traits over interned data (protocol/src/lib.rs).

  A trait is a record of its functions, and an \<open>impl\<close> is a value of that record; the implementations
  for archived data take the scalar conversions of the rkyv crate as an argument.  The locale
  \<open>interned_view\<close> is the contract a client of \<open>InternedDataIterable\<close> relies on: whatever the
  representation is, the trait shows one plain \<open>InternedData\<close> value.
\<close>

section \<open>Definitions\<close>

record 'a ArchivedLabels =
  astrings :: "string hashmap"
  aints :: "'a hashmap"
  abools :: "bool hashmap"
  afloats :: "'a hashmap"

record 'a ArchivedTrack =
  atrack_name :: string
  atrack_type :: "'a ArchivedTrackType"
  atrack_parent :: "'a ArchivedTrackType option"

record 'a ArchivedCounter =
  acounter_name :: string
  acounter_value :: 'a
  acounter_timestamp :: 'a
  acounter_track_id :: "'a ArchivedTrackId"
  acounter_labels :: "'a ArchivedLabels"
  acounter_unit :: "string option"

record 'a ArchivedSpan =
  aspan_name :: string
  aspan_id :: 'a
  astart_timestamp :: 'a
  aend_timestamp :: 'a
  aspan_track_id :: "'a ArchivedTrackId"
  aspan_labels :: "'a ArchivedLabels"

record 'a ArchivedInstant =
  ainstant_name :: string
  ainstant_timestamp :: 'a
  ainstant_track_id :: "'a ArchivedTrackId"
  ainstant_labels :: "'a ArchivedLabels"

record 'a ArchivedInternedString =
  aistr_iid :: 'a
  aistr_str :: string

record 'a ArchivedFrame =
  aframe_iid :: 'a
  afunction_name_id :: 'a
  amapping_id :: 'a
  arel_pc :: 'a

record 'a ArchivedCallstack =
  acallstack_iid :: 'a
  aframe_ids :: "'a list"

record 'a ArchivedMapping =
  amapping_iid :: 'a
  abuild_id :: 'a
  aexact_offset :: 'a
  astart_offset :: 'a
  amapping_start :: 'a
  amapping_end :: 'a
  aload_bias :: 'a
  apath_string_ids :: "'a list"

record 'a ArchivedInternedData =
  afunction_names :: "'a ArchivedInternedString list"
  aframes :: "'a ArchivedFrame list"
  acallstacks :: "'a ArchivedCallstack list"
  amappings :: "'a ArchivedMapping list"
  abuild_ids :: "'a ArchivedInternedString list"
  acontinuation :: bool

record 'a ArchivedSample =
  asample_cpu :: 'a
  asample_track_id :: "'a ArchivedTrackId"
  asample_timestamp :: 'a
  asample_callstack_iid :: 'a
  asample_cpu_mode :: CpuMode

datatype 'a ArchivedEvent =
    ArchivedEvent_Counter "'a ArchivedCounter"
  | ArchivedEvent_Span "'a ArchivedSpan"
  | ArchivedEvent_Instant "'a ArchivedInstant"
  | ArchivedEvent_InternedData "'a ArchivedInternedData"
  | ArchivedEvent_Sample "'a ArchivedSample"
  | ArchivedEvent_Track "'a ArchivedTrack"

datatype 'a ArchivedMessage =
    ArchivedMessage_Event "'a ArchivedEvent"
  | ArchivedMessage_Stream 'a "'a ArchivedEvent"

subsection \<open>The traits\<close>

record 'c CallstackIterable =
  cs_iid :: "'c \<Rightarrow> u64"
  cs_frame_ids :: "'c \<Rightarrow> u64 list"

record 'f FrameIterable =
  fr_iid :: "'f \<Rightarrow> u64"
  fr_function_name_id :: "'f \<Rightarrow> u64"
  fr_mapping_id :: "'f \<Rightarrow> u64"
  fr_rel_pc :: "'f \<Rightarrow> u64"

record 's InternedStringIterable =
  is_iid :: "'s \<Rightarrow> u64"
  is_str_ref :: "'s \<Rightarrow> string"

record 'm MappingIterable =
  mp_iid :: "'m \<Rightarrow> u64"
  mp_build_id :: "'m \<Rightarrow> u64"
  mp_exact_offset :: "'m \<Rightarrow> u64"
  mp_start_offset :: "'m \<Rightarrow> u64"
  mp_start :: "'m \<Rightarrow> u64"
  mp_end :: "'m \<Rightarrow> u64"
  mp_load_bias :: "'m \<Rightarrow> u64"
  mp_path_string_ids :: "'m \<Rightarrow> u64 list"

record ('d, 'c, 'f, 's, 'm) InternedDataIterable =
  impl_Callstack :: "'c CallstackIterable"
  impl_Frame :: "'f FrameIterable"
  impl_FunctionName :: "'s InternedStringIterable"
  impl_Mapping :: "'m MappingIterable"
  impl_BuildId :: "'s InternedStringIterable"
  it_callstacks :: "'d \<Rightarrow> 'c list"
  it_frames :: "'d \<Rightarrow> 'f list"
  it_function_names :: "'d \<Rightarrow> 's list"
  it_mappings :: "'d \<Rightarrow> 'm list"
  it_build_ids :: "'d \<Rightarrow> 's list"
  it_continuation :: "'d \<Rightarrow> bool"

subsection \<open>Native data\<close>

definition Callstack_iterable :: "Callstack CallstackIterable" where
  "Callstack_iterable = \<lparr>cs_iid = callstack_iid, cs_frame_ids = frame_ids\<rparr>"

definition Frame_iterable :: "Frame FrameIterable" where
  "Frame_iterable = \<lparr>fr_iid = frame_iid, fr_function_name_id = function_name_id,
    fr_mapping_id = mapping_id, fr_rel_pc = rel_pc\<rparr>"

definition InternedString_iterable :: "InternedString InternedStringIterable" where
  "InternedString_iterable = \<lparr>is_iid = istr_iid, is_str_ref = istr_str\<rparr>"

definition Mapping_iterable :: "Mapping MappingIterable" where
  "Mapping_iterable = \<lparr>mp_iid = mapping_iid, mp_build_id = build_id, mp_exact_offset = exact_offset,
    mp_start_offset = start_offset, mp_start = mapping_start, mp_end = mapping_end,
    mp_load_bias = load_bias, mp_path_string_ids = path_string_ids\<rparr>"

definition InternedData_iterable ::
  "(InternedData, Callstack, Frame, InternedString, Mapping) InternedDataIterable" where
  "InternedData_iterable = \<lparr>impl_Callstack = Callstack_iterable, impl_Frame = Frame_iterable,
    impl_FunctionName = InternedString_iterable, impl_Mapping = Mapping_iterable,
    impl_BuildId = InternedString_iterable, it_callstacks = callstacks, it_frames = frames,
    it_function_names = function_names, it_mappings = mappings, it_build_ids = build_ids,
    it_continuation = continuation\<rparr>"

subsection \<open>Archived data\<close>

definition ArchivedCallstack_iterable :: "'a natives \<Rightarrow> 'a ArchivedCallstack CallstackIterable" where
  "ArchivedCallstack_iterable n = \<lparr>cs_iid = \<lambda>c. u64_native n (acallstack_iid c),
    cs_frame_ids = \<lambda>c. map (u64_native n) (aframe_ids c)\<rparr>"

definition ArchivedFrame_iterable :: "'a natives \<Rightarrow> 'a ArchivedFrame FrameIterable" where
  "ArchivedFrame_iterable n = \<lparr>fr_iid = \<lambda>f. u64_native n (aframe_iid f),
    fr_function_name_id = \<lambda>f. u64_native n (afunction_name_id f),
    fr_mapping_id = \<lambda>f. u64_native n (amapping_id f), fr_rel_pc = \<lambda>f. u64_native n (arel_pc f)\<rparr>"

definition ArchivedInternedString_iterable :: "'a natives \<Rightarrow> 'a ArchivedInternedString InternedStringIterable" where
  "ArchivedInternedString_iterable n = \<lparr>is_iid = \<lambda>s. u64_native n (aistr_iid s), is_str_ref = aistr_str\<rparr>"

definition ArchivedMapping_iterable :: "'a natives \<Rightarrow> 'a ArchivedMapping MappingIterable" where
  "ArchivedMapping_iterable n = \<lparr>mp_iid = \<lambda>m. u64_native n (amapping_iid m),
    mp_build_id = \<lambda>m. u64_native n (abuild_id m), mp_exact_offset = \<lambda>m. u64_native n (aexact_offset m),
    mp_start_offset = \<lambda>m. u64_native n (astart_offset m), mp_start = \<lambda>m. u64_native n (amapping_start m),
    mp_end = \<lambda>m. u64_native n (amapping_end m), mp_load_bias = \<lambda>m. u64_native n (aload_bias m),
    mp_path_string_ids = \<lambda>m. map (u64_native n) (apath_string_ids m)\<rparr>"

definition ArchivedInternedData_iterable ::
  "'a natives \<Rightarrow> ('a ArchivedInternedData, 'a ArchivedCallstack, 'a ArchivedFrame,
    'a ArchivedInternedString, 'a ArchivedMapping) InternedDataIterable" where
  "ArchivedInternedData_iterable n = \<lparr>impl_Callstack = ArchivedCallstack_iterable n,
    impl_Frame = ArchivedFrame_iterable n, impl_FunctionName = ArchivedInternedString_iterable n,
    impl_Mapping = ArchivedMapping_iterable n, impl_BuildId = ArchivedInternedString_iterable n,
    it_callstacks = acallstacks, it_frames = aframes, it_function_names = afunction_names,
    it_mappings = amappings, it_build_ids = abuild_ids, it_continuation = acontinuation\<rparr>"

section \<open>What the trait shows\<close>

text \<open>The plain value a client can read through the functions of the trait.\<close>

definition shown :: "('d, 'c, 'f, 's, 'm) InternedDataIterable \<Rightarrow> 'd \<Rightarrow> InternedData" where
  "shown I d = \<lparr>
    function_names = map (\<lambda>s. \<lparr>istr_iid = is_iid (impl_FunctionName I) s, istr_str = is_str_ref (impl_FunctionName I) s\<rparr>)
      (it_function_names I d),
    frames = map (\<lambda>f. \<lparr>frame_iid = fr_iid (impl_Frame I) f, function_name_id = fr_function_name_id (impl_Frame I) f,
      mapping_id = fr_mapping_id (impl_Frame I) f, rel_pc = fr_rel_pc (impl_Frame I) f\<rparr>) (it_frames I d),
    callstacks = map (\<lambda>c. \<lparr>callstack_iid = cs_iid (impl_Callstack I) c, frame_ids = cs_frame_ids (impl_Callstack I) c\<rparr>)
      (it_callstacks I d),
    mappings = map (\<lambda>m. \<lparr>mapping_iid = mp_iid (impl_Mapping I) m, build_id = mp_build_id (impl_Mapping I) m,
      exact_offset = mp_exact_offset (impl_Mapping I) m, start_offset = mp_start_offset (impl_Mapping I) m,
      mapping_start = mp_start (impl_Mapping I) m, mapping_end = mp_end (impl_Mapping I) m,
      load_bias = mp_load_bias (impl_Mapping I) m, path_string_ids = mp_path_string_ids (impl_Mapping I) m\<rparr>)
      (it_mappings I d),
    build_ids = map (\<lambda>s. \<lparr>istr_iid = is_iid (impl_BuildId I) s, istr_str = is_str_ref (impl_BuildId I) s\<rparr>)
      (it_build_ids I d),
    continuation = it_continuation I d\<rparr>"

locale interned_view =
  fixes I :: "('d, 'c, 'f, 's, 'm) InternedDataIterable"
    and view :: "'d \<Rightarrow> InternedData"
  assumes shown_view: "shown I d = view d"

subsection \<open>The native value of an archive\<close>

definition labels_of :: "'a natives \<Rightarrow> 'a ArchivedLabels \<Rightarrow> Labels" where
  "labels_of n l = \<lparr>strings = astrings l, ints = map (\<lambda>(k, v). (k, i64_native n v)) (aints l),
    bools = abools l, floats = map (\<lambda>(k, v). (k, f64_native n v)) (afloats l)\<rparr>"

definition interned_string_of :: "'a natives \<Rightarrow> 'a ArchivedInternedString \<Rightarrow> InternedString" where
  "interned_string_of n s = \<lparr>istr_iid = u64_native n (aistr_iid s), istr_str = aistr_str s\<rparr>"

definition frame_of :: "'a natives \<Rightarrow> 'a ArchivedFrame \<Rightarrow> Frame" where
  "frame_of n f = \<lparr>frame_iid = u64_native n (aframe_iid f), function_name_id = u64_native n (afunction_name_id f),
    mapping_id = u64_native n (amapping_id f), rel_pc = u64_native n (arel_pc f)\<rparr>"

definition callstack_of :: "'a natives \<Rightarrow> 'a ArchivedCallstack \<Rightarrow> Callstack" where
  "callstack_of n c = \<lparr>callstack_iid = u64_native n (acallstack_iid c), frame_ids = map (u64_native n) (aframe_ids c)\<rparr>"

definition mapping_of :: "'a natives \<Rightarrow> 'a ArchivedMapping \<Rightarrow> Mapping" where
  "mapping_of n m = \<lparr>mapping_iid = u64_native n (amapping_iid m), build_id = u64_native n (abuild_id m),
    exact_offset = u64_native n (aexact_offset m), start_offset = u64_native n (astart_offset m),
    mapping_start = u64_native n (amapping_start m), mapping_end = u64_native n (amapping_end m),
    load_bias = u64_native n (aload_bias m), path_string_ids = map (u64_native n) (apath_string_ids m)\<rparr>"

definition interned_data_of :: "'a natives \<Rightarrow> 'a ArchivedInternedData \<Rightarrow> InternedData" where
  "interned_data_of n d = \<lparr>function_names = map (interned_string_of n) (afunction_names d),
    frames = map (frame_of n) (aframes d), callstacks = map (callstack_of n) (acallstacks d),
    mappings = map (mapping_of n) (amappings d), build_ids = map (interned_string_of n) (abuild_ids d),
    continuation = acontinuation d\<rparr>"

fun event_of :: "'a natives \<Rightarrow> 'a ArchivedEvent \<Rightarrow> Event" where
  "event_of n (ArchivedEvent_Counter c) = Event_Counter \<lparr>counter_name = acounter_name c,
    counter_value = f64_native n (acounter_value c), counter_timestamp = u64_native n (acounter_timestamp c),
    counter_track_id = ArchivedTrackId_to_native n (acounter_track_id c),
    counter_labels = labels_of n (acounter_labels c), counter_unit = acounter_unit c\<rparr>"
| "event_of n (ArchivedEvent_Span s) = Event_Span \<lparr>span_name = aspan_name s, span_id = u64_native n (aspan_id s),
    start_timestamp = u64_native n (astart_timestamp s), end_timestamp = u64_native n (aend_timestamp s),
    span_track_id = ArchivedTrackId_to_native n (aspan_track_id s), span_labels = labels_of n (aspan_labels s)\<rparr>"
| "event_of n (ArchivedEvent_Instant i) = Event_Instant \<lparr>instant_name = ainstant_name i,
    instant_timestamp = u64_native n (ainstant_timestamp i),
    instant_track_id = ArchivedTrackId_to_native n (ainstant_track_id i),
    instant_labels = labels_of n (ainstant_labels i)\<rparr>"
| "event_of n (ArchivedEvent_InternedData d) = Event_InternedData (interned_data_of n d)"
| "event_of n (ArchivedEvent_Sample s) = Event_Sample \<lparr>sample_cpu = u32_native n (asample_cpu s),
    sample_track_id = ArchivedTrackId_to_native n (asample_track_id s),
    sample_timestamp = u64_native n (asample_timestamp s),
    sample_callstack_iid = u64_native n (asample_callstack_iid s), sample_cpu_mode = asample_cpu_mode s\<rparr>"
| "event_of n (ArchivedEvent_Track t) = Event_Track \<lparr>track_name = atrack_name t,
    track_type = ArchivedTrackType_to_native n (atrack_type t),
    track_parent = map_option (ArchivedTrackType_to_native n) (atrack_parent t)\<rparr>"

fun message_of :: "'a natives \<Rightarrow> 'a ArchivedMessage \<Rightarrow> Message" where
  "message_of n (ArchivedMessage_Event e) = Message_Event (event_of n e)"
| "message_of n (ArchivedMessage_Stream i e) = Message_Stream (u16_native n i) (event_of n e)"

interpretation native_view: interned_view InternedData_iterable "\<lambda>d. d"
  by unfold_locales
    (auto simp: shown_def InternedData_iterable_def Callstack_iterable_def Frame_iterable_def
      InternedString_iterable_def Mapping_iterable_def intro!: InternedData.equality map_idI)

interpretation archived_view: interned_view "ArchivedInternedData_iterable n" "interned_data_of n" for n
  by unfold_locales
    (simp add: shown_def ArchivedInternedData_iterable_def ArchivedCallstack_iterable_def
      ArchivedFrame_iterable_def ArchivedInternedString_iterable_def ArchivedMapping_iterable_def
      interned_data_of_def interned_string_of_def [abs_def] frame_of_def [abs_def]
      callstack_of_def [abs_def] mapping_of_def [abs_def])

end
