(* ===== verification/PerfettoFormat.thy ===== *)
theory PerfettoFormat
  imports Stateful ProtocolIter
begin

text \<open>
  The Perfetto stream writer (perfetto-format/src/lib.rs).

  The message types are those of the Perfetto schema, with the fields the writer sets; a field it
  never sets keeps its default and is left out.  The encoder of the prost crate, its buffer type and
  the \<open>Write\<close> implementation are an argument, the record \<open>io\<close>.  \<open>packet_sink\<close> is what is relied on:
  the writer's contents, read as packets, grow by exactly the packet that was written when a write
  succeeds and by none when it fails.
\<close>

section \<open>Definitions\<close>

datatype DebugValue = DebugValue_String string | DebugValue_Int i64 | DebugValue_Double f64 | DebugValue_Bool bool

datatype annotation_value = StringValue string | IntValue i64 | DoubleValue f64 | BoolValue bool

record DebugAnnotation =
  ann_name :: "string option"
  ann_value :: "annotation_value option"

fun create_debug_annotation :: "string \<Rightarrow> DebugValue \<Rightarrow> DebugAnnotation" where
  "create_debug_annotation name value = \<lparr>ann_name = Some name, ann_value = Some
    (case value of
       DebugValue_String s \<Rightarrow> StringValue s
     | DebugValue_Int i \<Rightarrow> IntValue i
     | DebugValue_Double d \<Rightarrow> DoubleValue d
     | DebugValue_Bool b \<Rightarrow> BoolValue b)\<rparr>"

record ThreadDescriptor =
  td_pid :: "i32 option"
  td_tid :: "i32 option"
  td_thread_name :: "string option"

record ProcessDescriptor =
  pd_pid :: "i32 option"
  pd_process_name :: "string option"

record CounterDescriptor =
  cd_unit_name :: "string option"

record TrackDescriptor =
  desc_uuid :: "u64 option"
  desc_parent_uuid :: "u64 option"
  desc_name :: "string option"
  desc_process :: "ProcessDescriptor option"
  desc_thread :: "ThreadDescriptor option"
  desc_counter :: "CounterDescriptor option"

definition TrackDescriptor_default :: TrackDescriptor where
  "TrackDescriptor_default = \<lparr>desc_uuid = None, desc_parent_uuid = None, desc_name = None,
    desc_process = None, desc_thread = None, desc_counter = None\<rparr>"

datatype event_type = SliceBegin | SliceEnd | Type_Instant | Type_Counter

datatype counter_value = CounterValue i64 | DoubleCounterValue f64

record TrackEvent =
  ev_name :: "string option"
  ev_track_uuid :: "u64 option"
  ev_type :: "event_type option"
  ev_debug_annotations :: "DebugAnnotation list"
  ev_counter_value :: "counter_value option"

definition TrackEvent_default :: TrackEvent where
  "TrackEvent_default = \<lparr>ev_name = None, ev_track_uuid = None, ev_type = None,
    ev_debug_annotations = [], ev_counter_value = None\<rparr>"

record PerfSample =
  ps_cpu :: "u32 option"
  ps_pid :: "u32 option"
  ps_tid :: "u32 option"
  ps_callstack_iid :: "u64 option"
  ps_timebase_count :: "u64 option"

record InternedString_pb =
  pb_str_iid :: "u64 option"
  pb_str :: "u8 list option"

record Frame_pb =
  pb_frame_iid :: "u64 option"
  pb_function_name_id :: "u64 option"
  pb_mapping_id :: "u64 option"
  pb_rel_pc :: "u64 option"

record Callstack_pb =
  pb_callstack_iid :: "u64 option"
  pb_frame_ids :: "u64 list"

record Mapping_pb =
  pb_mapping_iid :: "u64 option"
  pb_build_id :: "u64 option"
  pb_exact_offset :: "u64 option"
  pb_start_offset :: "u64 option"
  pb_start :: "u64 option"
  pb_end :: "u64 option"
  pb_load_bias :: "u64 option"
  pb_path_string_ids :: "u64 list"

record InternedData_pb =
  pb_function_names :: "InternedString_pb list"
  pb_frames :: "Frame_pb list"
  pb_callstacks :: "Callstack_pb list"
  pb_mappings :: "Mapping_pb list"
  pb_build_ids :: "InternedString_pb list"

datatype packet_data =
    Data_TrackDescriptor TrackDescriptor
  | Data_TrackEvent TrackEvent
  | Data_PerfSample PerfSample

datatype sequence_flags = SeqIncrementalStateCleared | SeqNeedsIncrementalState

record TracePacket =
  pkt_data :: "packet_data option"
  pkt_timestamp :: "u64 option"
  pkt_interned_data :: "InternedData_pb option"
  pkt_sequence_flags :: "sequence_flags option"
  pkt_trusted_pid :: "i32 option"
  pkt_sequence_id :: "u32 option"

definition TracePacket_default :: TracePacket where
  "TracePacket_default = \<lparr>pkt_data = None, pkt_timestamp = None, pkt_interned_data = None,
    pkt_sequence_flags = None, pkt_trusted_pid = None, pkt_sequence_id = None\<rparr>"

record Trace =
  trace_packet :: "TracePacket list"

type_synonym io_error = string

record ('w, 'b) io =
  encode :: "Trace \<Rightarrow> (io_error, 'b) result"
  write_all :: "'w \<Rightarrow> 'b \<Rightarrow> io_error option \<times> 'w"
  flush_all :: "'w \<Rightarrow> io_error option \<times> 'w"

record 'w PerfettoStreamWriter =
  writer :: 'w
  track_uuid_counter :: u64

definition PerfettoStreamWriter_new :: "'w \<Rightarrow> 'w PerfettoStreamWriter" where
  "PerfettoStreamWriter_new w = \<lparr>writer = w, track_uuid_counter = 1000\<rparr>"

type_synonym ('w, 'a) psw = "('w PerfettoStreamWriter, io_error, 'a) stm"

definition next_track_uuid :: "('w, u64) psw" where
  "next_track_uuid s = (Ok (track_uuid_counter s), s\<lparr>track_uuid_counter := track_uuid_counter s + 1\<rparr>)"

definition write_packet :: "('w, 'b) io \<Rightarrow> TracePacket \<Rightarrow> u16 option \<Rightarrow> ('w, unit) psw" where
  "write_packet io packet stream_id s =
    (let packet = packet\<lparr>pkt_sequence_id := Some (case stream_id of Some i \<Rightarrow> ucast i | None \<Rightarrow> - 1)\<rparr> in
     case encode io \<lparr>trace_packet = [packet]\<rparr> of
       Inl e \<Rightarrow> (Err e, s)
     | Inr buf \<Rightarrow>
         (case write_all io (writer s) buf of
            (Some e, w) \<Rightarrow> (Err e, s\<lparr>writer := w\<rparr>)
          | (None, w) \<Rightarrow> (Ok (), s\<lparr>writer := w\<rparr>)))"

definition flush :: "('w, 'b) io \<Rightarrow> ('w, unit) psw" where
  "flush io s =
    (case flush_all io (writer s) of
       (Some e, w) \<Rightarrow> (Err e, s\<lparr>writer := w\<rparr>)
     | (None, w) \<Rightarrow> (Ok (), s\<lparr>writer := w\<rparr>))"

definition write_thread_descriptor_with_uuid ::
  "('w, 'b) io \<Rightarrow> u64 \<Rightarrow> u32 \<Rightarrow> u32 \<Rightarrow> string option \<Rightarrow> u64 \<Rightarrow> ('w, unit) psw" where
  "write_thread_descriptor_with_uuid io thread_track_uuid pid tid thread_name parent_uuid =
    (let thread_desc = \<lparr>td_pid = Some pid, td_tid = Some tid, td_thread_name = thread_name\<rparr>;
         track_desc = TrackDescriptor_default\<lparr>desc_uuid := Some thread_track_uuid,
           desc_parent_uuid := Some parent_uuid, desc_thread := Some thread_desc\<rparr>;
         packet = TracePacket_default\<lparr>pkt_data := Some (Data_TrackDescriptor track_desc)\<rparr>
     in write_packet io packet None)"

definition write_thread_descriptor ::
  "('w, 'b) io \<Rightarrow> u32 \<Rightarrow> u32 \<Rightarrow> string option \<Rightarrow> u64 \<Rightarrow> ('w, u64) psw" where
  "write_thread_descriptor io pid tid thread_name parent_uuid =
    try_bind next_track_uuid (\<lambda>thread_track_uuid.
    try_bind (write_thread_descriptor_with_uuid io thread_track_uuid pid tid thread_name parent_uuid) (\<lambda>_.
    ret thread_track_uuid))"

definition write_slice_begin ::
  "('w, 'b) io \<Rightarrow> u64 \<Rightarrow> string \<Rightarrow> u64 \<Rightarrow> DebugAnnotation list \<Rightarrow> ('w, unit) psw" where
  "write_slice_begin io track_uuid name timestamp_ns debug_annotations =
    (let event = TrackEvent_default\<lparr>ev_name := Some name, ev_track_uuid := Some track_uuid,
           ev_type := Some SliceBegin, ev_debug_annotations := debug_annotations\<rparr>;
         packet = TracePacket_default\<lparr>pkt_data := Some (Data_TrackEvent event), pkt_timestamp := Some timestamp_ns\<rparr>
     in write_packet io packet None)"

definition write_slice_end :: "('w, 'b) io \<Rightarrow> u64 \<Rightarrow> u64 \<Rightarrow> ('w, unit) psw" where
  "write_slice_end io track_uuid timestamp_ns =
    (let event = TrackEvent_default\<lparr>ev_track_uuid := Some track_uuid, ev_type := Some SliceEnd\<rparr>;
         packet = TracePacket_default\<lparr>pkt_data := Some (Data_TrackEvent event), pkt_timestamp := Some timestamp_ns\<rparr>
     in write_packet io packet None)"

definition write_interned_data :: "('w, 'b) io \<Rightarrow> InternedData_pb \<Rightarrow> u16 option \<Rightarrow> ('w, unit) psw" where
  "write_interned_data io interned_data stream_id =
    write_packet io (TracePacket_default\<lparr>pkt_interned_data := Some interned_data,
      pkt_sequence_flags := Some SeqIncrementalStateCleared\<rparr>) stream_id"

definition write_interned_data_next :: "('w, 'b) io \<Rightarrow> InternedData_pb \<Rightarrow> u16 option \<Rightarrow> ('w, unit) psw" where
  "write_interned_data_next io interned_data stream_id =
    write_packet io (TracePacket_default\<lparr>pkt_interned_data := Some interned_data,
      pkt_sequence_flags := Some SeqNeedsIncrementalState\<rparr>) stream_id"

definition as_bytes :: "string \<Rightarrow> u8 list" where
  "as_bytes s = map (\<lambda>c. word_of_nat (of_char c)) s"

definition write_protocol_interned_data ::
  "('d, 'c, 'f, 's, 'm) InternedDataIterable \<Rightarrow> ('w, 'b) io \<Rightarrow> 'd \<Rightarrow> u16 option \<Rightarrow> ('w, unit) psw" where
  "write_protocol_interned_data I io data stream_id =
    (let interned_data = \<lparr>
       pb_function_names = map (\<lambda>func. \<lparr>pb_str_iid = Some (is_iid (impl_FunctionName I) func),
         pb_str = Some (as_bytes (is_str_ref (impl_FunctionName I) func))\<rparr>) (it_function_names I data),
       pb_frames = map (\<lambda>frame. \<lparr>pb_frame_iid = Some (fr_iid (impl_Frame I) frame),
         pb_function_name_id = Some (fr_function_name_id (impl_Frame I) frame),
         pb_mapping_id = Some (fr_mapping_id (impl_Frame I) frame),
         pb_rel_pc = Some (fr_rel_pc (impl_Frame I) frame)\<rparr>) (it_frames I data),
       pb_callstacks = map (\<lambda>callstack. \<lparr>pb_callstack_iid = Some (cs_iid (impl_Callstack I) callstack),
         pb_frame_ids = cs_frame_ids (impl_Callstack I) callstack\<rparr>) (it_callstacks I data),
       pb_mappings = map (\<lambda>mapping. \<lparr>pb_mapping_iid = Some (mp_iid (impl_Mapping I) mapping),
         pb_build_id = Some (mp_build_id (impl_Mapping I) mapping),
         pb_exact_offset = Some (mp_exact_offset (impl_Mapping I) mapping),
         pb_start_offset = Some (mp_start_offset (impl_Mapping I) mapping),
         pb_start = Some (mp_start (impl_Mapping I) mapping), pb_end = Some (mp_end (impl_Mapping I) mapping),
         pb_load_bias = Some (mp_load_bias (impl_Mapping I) mapping),
         pb_path_string_ids = mp_path_string_ids (impl_Mapping I) mapping\<rparr>) (it_mappings I data),
       pb_build_ids = map (\<lambda>build_id. \<lparr>pb_str_iid = Some (is_iid (impl_BuildId I) build_id),
         pb_str = Some (as_bytes (is_str_ref (impl_BuildId I) build_id))\<rparr>) (it_build_ids I data)\<rparr>
     in if it_continuation I data then write_interned_data_next io interned_data stream_id
        else write_interned_data io interned_data stream_id)"

definition write_process_descriptor :: "('w, 'b) io \<Rightarrow> u32 \<Rightarrow> string option \<Rightarrow> ('w, u64) psw" where
  "write_process_descriptor io pid process_name =
    try_bind next_track_uuid (\<lambda>process_track_uuid.
    let process_desc = \<lparr>pd_pid = Some pid, pd_process_name = process_name\<rparr>;
        track_desc = TrackDescriptor_default\<lparr>desc_uuid := Some process_track_uuid, desc_process := Some process_desc\<rparr>;
        packet = TracePacket_default\<lparr>pkt_data := Some (Data_TrackDescriptor track_desc)\<rparr>
    in try_bind (write_packet io packet None) (\<lambda>_. ret process_track_uuid))"

definition write_instant_event ::
  "('w, 'b) io \<Rightarrow> u64 \<Rightarrow> string \<Rightarrow> u64 \<Rightarrow> DebugAnnotation list \<Rightarrow> ('w, unit) psw" where
  "write_instant_event io track_uuid name timestamp_ns debug_annotations =
    (let event = TrackEvent_default\<lparr>ev_name := Some name, ev_track_uuid := Some track_uuid,
           ev_type := Some Type_Instant, ev_debug_annotations := debug_annotations\<rparr>;
         packet = TracePacket_default\<lparr>pkt_data := Some (Data_TrackEvent event), pkt_timestamp := Some timestamp_ns\<rparr>
     in write_packet io packet None)"

definition write_generic_track :: "('w, 'b) io \<Rightarrow> string \<Rightarrow> u64 \<Rightarrow> ('w, u64) psw" where
  "write_generic_track io name parent_track_uuid =
    try_bind next_track_uuid (\<lambda>track_uuid.
    let track_desc = TrackDescriptor_default\<lparr>desc_uuid := Some track_uuid,
          desc_parent_uuid := (if parent_track_uuid > 0 then Some parent_track_uuid else None),
          desc_name := Some name\<rparr>;
        packet = TracePacket_default\<lparr>pkt_data := Some (Data_TrackDescriptor track_desc)\<rparr>
    in try_bind (write_packet io packet None) (\<lambda>_. ret track_uuid))"

definition write_counter_track :: "('w, 'b) io \<Rightarrow> string \<Rightarrow> string option \<Rightarrow> u64 \<Rightarrow> ('w, u64) psw" where
  "write_counter_track io name unit_name parent_track_uuid =
    try_bind next_track_uuid (\<lambda>track_uuid.
    let counter_desc = \<lparr>cd_unit_name = unit_name\<rparr>;
        track_desc = TrackDescriptor_default\<lparr>desc_uuid := Some track_uuid,
          desc_parent_uuid := Some parent_track_uuid, desc_name := Some name, desc_counter := Some counter_desc\<rparr>;
        packet = TracePacket_default\<lparr>pkt_data := Some (Data_TrackDescriptor track_desc)\<rparr>
    in try_bind (write_packet io packet None) (\<lambda>_. ret track_uuid))"

definition write_counter_value :: "('w, 'b) io \<Rightarrow> u64 \<Rightarrow> i64 \<Rightarrow> u64 \<Rightarrow> ('w, unit) psw" where
  "write_counter_value io track_uuid value timestamp_ns =
    (let event = TrackEvent_default\<lparr>ev_track_uuid := Some track_uuid, ev_type := Some Type_Counter,
           ev_counter_value := Some (CounterValue value)\<rparr>;
         packet = TracePacket_default\<lparr>pkt_data := Some (Data_TrackEvent event), pkt_timestamp := Some timestamp_ns\<rparr>
     in write_packet io packet None)"

definition write_double_counter_value :: "('w, 'b) io \<Rightarrow> u64 \<Rightarrow> f64 \<Rightarrow> u64 \<Rightarrow> ('w, unit) psw" where
  "write_double_counter_value io track_uuid value timestamp_ns =
    (let event = TrackEvent_default\<lparr>ev_track_uuid := Some track_uuid, ev_type := Some Type_Counter,
           ev_counter_value := Some (DoubleCounterValue value)\<rparr>;
         packet = TracePacket_default\<lparr>pkt_data := Some (Data_TrackEvent event), pkt_timestamp := Some timestamp_ns\<rparr>
     in write_packet io packet None)"

definition write_perf_sample ::
  "('w, 'b) io \<Rightarrow> u32 \<Rightarrow> u32 \<Rightarrow> u32 \<Rightarrow> u64 \<Rightarrow> u64 \<Rightarrow> u16 option \<Rightarrow> ('w, unit) psw" where
  "write_perf_sample io cpu pid tid timestamp_ns callstack stream_id =
    (let sample = \<lparr>ps_cpu = Some cpu, ps_pid = Some pid, ps_tid = Some tid,
           ps_callstack_iid = Some callstack, ps_timebase_count = Some 1\<rparr>;
         packet = TracePacket_default\<lparr>pkt_data := Some (Data_PerfSample sample),
           pkt_timestamp := Some timestamp_ns, pkt_trusted_pid := Some pid\<rparr>
     in write_packet io packet stream_id)"

section \<open>What is written\<close>

definition packet_sink :: "('w, 'b) io \<Rightarrow> ('w \<Rightarrow> TracePacket list) \<Rightarrow> bool" where
  "packet_sink io out \<longleftrightarrow>
    (\<forall>p b w w'. encode io \<lparr>trace_packet = [p]\<rparr> = Ok b \<longrightarrow> write_all io w b = (None, w') \<longrightarrow> out w' = out w @ [p]) \<and>
    (\<forall>b w e w'. write_all io w b = (Some e, w') \<longrightarrow> out w' = out w)"

definition stamped :: "TracePacket \<Rightarrow> u16 option \<Rightarrow> TracePacket" where
  "stamped p stream_id = p\<lparr>pkt_sequence_id := Some (case stream_id of Some i \<Rightarrow> ucast i | None \<Rightarrow> - 1)\<rparr>"

text \<open>The effect of a method that writes one packet, if it succeeds, and allocates \<open>k\<close> uuids.\<close>

definition emits :: "('w \<Rightarrow> TracePacket list) \<Rightarrow> 'w PerfettoStreamWriter \<Rightarrow> TracePacket \<Rightarrow> u64 \<Rightarrow>
    ('e, 'a) result \<Rightarrow> 'w PerfettoStreamWriter \<Rightarrow> bool" where
  "emits out s p k r s' \<longleftrightarrow> track_uuid_counter s' = track_uuid_counter s + k \<and>
    out (writer s') = out (writer s) @ (case r of Inl _ \<Rightarrow> [] | Inr _ \<Rightarrow> [p])"

lemma write_packet_emits:
  assumes "packet_sink io out" "write_packet io p stream_id s = (r, s')"
  shows "emits out s (stamped p stream_id) 0 r s'"
  using assms
  by (fastforce simp: write_packet_def Let_def packet_sink_def emits_def stamped_def
      split: sum.splits prod.splits option.splits)

lemma write_packet_Ok_unit: "write_packet io p stream_id s = (Ok a, s') \<Longrightarrow> a = ()"
  by simp

definition event_packet :: "TrackEvent \<Rightarrow> u64 \<Rightarrow> TracePacket" where
  "event_packet e ts = stamped (TracePacket_default\<lparr>pkt_data := Some (Data_TrackEvent e), pkt_timestamp := Some ts\<rparr>) None"

definition descriptor_packet :: "TrackDescriptor \<Rightarrow> TracePacket" where
  "descriptor_packet d = stamped (TracePacket_default\<lparr>pkt_data := Some (Data_TrackDescriptor d)\<rparr>) None"

lemma packet_data_simps [simp]:
  "pkt_data (event_packet e ts) = Some (Data_TrackEvent e)"
  "pkt_data (descriptor_packet d) = Some (Data_TrackDescriptor d)"
  "pkt_data (stamped p i) = pkt_data p"
  by (simp_all add: event_packet_def descriptor_packet_def stamped_def TracePacket_default_def)

lemmas event_writers = write_slice_begin_def write_slice_end_def write_instant_event_def
  write_counter_value_def write_double_counter_value_def

lemma write_event_emits:
  assumes "packet_sink io out"
    "write_packet io (TracePacket_default\<lparr>pkt_data := Some (Data_TrackEvent e), pkt_timestamp := Some ts\<rparr>) None s = (r, s')"
  shows "emits out s (event_packet e ts) 0 r s'"
  using write_packet_emits [OF assms] by (simp add: event_packet_def)

lemma write_new_descriptor_emits:
  assumes sink: "packet_sink io out"
    and run: "try_bind next_track_uuid (\<lambda>u. try_bind (write_packet io
      (TracePacket_default\<lparr>pkt_data := Some (Data_TrackDescriptor (d u))\<rparr>) None) (\<lambda>_. ret u)) s = (r, s')"
  shows "emits out s (descriptor_packet (d (track_uuid_counter s))) 1 r s' \<and>
    (\<forall>u. r = Ok u \<longrightarrow> u = track_uuid_counter s)"
proof -
  let ?s = "s\<lparr>track_uuid_counter := track_uuid_counter s + 1\<rparr>"
  let ?p = "TracePacket_default\<lparr>pkt_data := Some (Data_TrackDescriptor (d (track_uuid_counter s)))\<rparr>"
  obtain r1 s1 where w: "write_packet io ?p None ?s = (r1, s1)" by fastforce
  have "emits out ?s (descriptor_packet (d (track_uuid_counter s))) 0 r1 s1"
    using write_packet_emits [OF sink w] by (simp add: descriptor_packet_def)
  moreover have "(r, s') = (case r1 of Inl e \<Rightarrow> Err e | Inr _ \<Rightarrow> Ok (track_uuid_counter s), s1)"
    using run w by (auto simp: next_track_uuid_def try_bind_def split: sum.splits)
  ultimately show ?thesis by (auto simp: emits_def split: sum.splits)
qed

lemma write_process_descriptor_emits:
  assumes "packet_sink io out" "write_process_descriptor io pid name s = (r, s')"
  shows "emits out s (descriptor_packet (TrackDescriptor_default\<lparr>desc_uuid := Some (track_uuid_counter s),
      desc_process := Some \<lparr>pd_pid = Some pid, pd_process_name = name\<rparr>\<rparr>)) 1 r s' \<and>
    (\<forall>u. r = Ok u \<longrightarrow> u = track_uuid_counter s)"
  using assms(2) unfolding write_process_descriptor_def Let_def
  by (rule write_new_descriptor_emits [OF assms(1)])

lemma write_thread_descriptor_emits:
  assumes "packet_sink io out" "write_thread_descriptor io pid tid name parent s = (r, s')"
  shows "emits out s (descriptor_packet (TrackDescriptor_default\<lparr>desc_uuid := Some (track_uuid_counter s),
      desc_parent_uuid := Some parent, desc_thread := Some \<lparr>td_pid = Some pid, td_tid = Some tid, td_thread_name = name\<rparr>\<rparr>)) 1 r s' \<and>
    (\<forall>u. r = Ok u \<longrightarrow> u = track_uuid_counter s)"
  using assms(2) unfolding write_thread_descriptor_def write_thread_descriptor_with_uuid_def Let_def
  by (rule write_new_descriptor_emits [OF assms(1)])

lemma write_thread_descriptor_with_uuid_emits:
  assumes "packet_sink io out" "write_thread_descriptor_with_uuid io u pid tid name parent s = (r, s')"
  shows "emits out s (descriptor_packet (TrackDescriptor_default\<lparr>desc_uuid := Some u,
      desc_parent_uuid := Some parent, desc_thread := Some \<lparr>td_pid = Some pid, td_tid = Some tid, td_thread_name = name\<rparr>\<rparr>)) 0 r s'"
  using assms(2) unfolding write_thread_descriptor_with_uuid_def Let_def descriptor_packet_def
  by (rule write_packet_emits [OF assms(1)])

lemma write_generic_track_emits:
  assumes "packet_sink io out" "write_generic_track io name parent s = (r, s')"
  shows "emits out s (descriptor_packet (TrackDescriptor_default\<lparr>desc_uuid := Some (track_uuid_counter s),
      desc_parent_uuid := (if parent > 0 then Some parent else None), desc_name := Some name\<rparr>)) 1 r s' \<and>
    (\<forall>u. r = Ok u \<longrightarrow> u = track_uuid_counter s)"
  using assms(2) unfolding write_generic_track_def Let_def
  by (rule write_new_descriptor_emits [OF assms(1)])

lemma write_counter_track_emits:
  assumes "packet_sink io out" "write_counter_track io name u parent s = (r, s')"
  shows "emits out s (descriptor_packet (TrackDescriptor_default\<lparr>desc_uuid := Some (track_uuid_counter s),
      desc_parent_uuid := Some parent, desc_name := Some name, desc_counter := Some \<lparr>cd_unit_name = u\<rparr>\<rparr>)) 1 r s' \<and>
    (\<forall>u. r = Ok u \<longrightarrow> u = track_uuid_counter s)"
  using assms(2) unfolding write_counter_track_def Let_def
  by (rule write_new_descriptor_emits [OF assms(1)])

section \<open>Interned data is independent of its representation\<close>

context interned_view
begin

lemma write_native:
  "write_protocol_interned_data I io d stream_id =
    write_protocol_interned_data InternedData_iterable io (view d) stream_id"
  unfolding shown_view [of d, symmetric]
  by (simp add: write_protocol_interned_data_def shown_def InternedData_iterable_def Callstack_iterable_def
      Frame_iterable_def InternedString_iterable_def Mapping_iterable_def comp_def)

end

section \<open>Sequence ids\<close>

lemma stamped_sequence_id:
  "pkt_sequence_id (stamped p i) = pkt_sequence_id (stamped q j) \<longleftrightarrow> i = j"
proof -
  have u: "unat (ucast a :: u32) = unat (a :: u16)" for a by (rule unat_ucast_u16_u32)
  have n: "(ucast a :: u32) \<noteq> - 1" for a :: u16
    using u [of a] unat_lt [of a] by (intro notI) (simp add: unsigned_minus_1_eq_mask mask_eq_exp_minus_1)
  moreover have "(ucast a :: u32) = ucast b \<longleftrightarrow> a = b" for a b :: u16
    by (metis u word_unat_eq_iff)
  ultimately show ?thesis using n [symmetric] by (auto simp: stamped_def split: option.splits)
qed

text \<open>
  C12 (sequence ids): two packets written without error carry the same sequence id exactly when they
  were written for the same stream.  In particular the packets written for no stream never share a
  sequence with those of a stream.
\<close>

theorem write_packet_sequence:
  assumes "packet_sink io out" "write_packet io p i s = (Ok (), s')" "write_packet io q j t = (Ok (), t')"
  shows "pkt_sequence_id (last (out (writer s'))) = pkt_sequence_id (last (out (writer t'))) \<longleftrightarrow> i = j"
  using write_packet_emits [OF assms(1,2)] write_packet_emits [OF assms(1,3)] stamped_sequence_id [of p i q j]
  by (simp add: emits_def)

text \<open>A sink that keeps the list of packets written to it.\<close>

definition log_io :: "(TracePacket list, TracePacket list) io" where
  "log_io = \<lparr>encode = \<lambda>t. Ok (trace_packet t), write_all = \<lambda>w b. (None, w @ b), flush_all = \<lambda>w. (None, w)\<rparr>"

lemma packet_sink_log_io: "packet_sink log_io (\<lambda>w. w)"
  by (auto simp: packet_sink_def log_io_def)

theorem write_packet_sequence_witness:
  "packet_sink log_io (\<lambda>w. w) \<and>
    (let s' = snd (write_packet log_io TracePacket_default (Some 3) (PerfettoStreamWriter_new []));
         t' = snd (write_packet log_io TracePacket_default None (PerfettoStreamWriter_new []))
     in pkt_sequence_id (last (writer s')) \<noteq> pkt_sequence_id (last (writer t')))"
proof -
  let ?s = "PerfettoStreamWriter_new []"
  have "write_packet log_io TracePacket_default i ?s = (Ok (), snd (write_packet log_io TracePacket_default i ?s))" for i
    by (simp add: write_packet_def log_io_def Let_def)
  from write_packet_sequence [OF packet_sink_log_io this [of "Some 3"] this [of None]]
  show ?thesis using packet_sink_log_io by (simp add: Let_def)
qed

end
