(* ===== verification/Converter.thy ===== *)
theory Converter
  imports PerfettoFormat "HOL-Library.Sublist"
begin

text \<open>
  The converter from protocol messages to Perfetto packets (manytrace/src/converter.rs,
  manytrace/src/label_iter.rs).

  \<open>convert_message\<close> handles the native messages of the BPF side, \<open>convert_archived_message\<close> and
  \<open>convert_archived_event\<close> the messages read out of the ring buffer.  The track map is a partial
  function from track ids to uuids.  An eyre report is the io error it wraps.
\<close>

section \<open>Definitions\<close>

record 'l LabelIterator =
  iter_strings :: "'l \<Rightarrow> (string \<times> string) list"
  iter_ints :: "'l \<Rightarrow> (string \<times> i64) list"
  iter_bools :: "'l \<Rightarrow> (string \<times> bool) list"
  iter_floats :: "'l \<Rightarrow> (string \<times> f64) list"

definition Labels_iterator :: "Labels LabelIterator" where
  "Labels_iterator = \<lparr>iter_strings = \<lambda>l. map (\<lambda>(k, v). (k, v)) (strings l),
    iter_ints = \<lambda>l. map (\<lambda>(k, v). (k, v)) (ints l),
    iter_bools = \<lambda>l. map (\<lambda>(k, v). (k, v)) (bools l),
    iter_floats = \<lambda>l. map (\<lambda>(k, v). (k, v)) (floats l)\<rparr>"

definition ArchivedLabels_iterator :: "'a natives \<Rightarrow> 'a ArchivedLabels LabelIterator" where
  "ArchivedLabels_iterator n = \<lparr>iter_strings = \<lambda>l. map (\<lambda>(k, v). (k, v)) (astrings l),
    iter_ints = \<lambda>l. map (\<lambda>(k, v). (k, i64_native n v)) (aints l),
    iter_bools = \<lambda>l. map (\<lambda>(k, v). (k, v)) (abools l),
    iter_floats = \<lambda>l. map (\<lambda>(k, v). (k, f64_native n v)) (afloats l)\<rparr>"

record 'w PerfettoConverter =
  conv_writer :: "'w PerfettoStreamWriter"
  track_map :: "TrackId \<rightharpoonup> u64"

definition PerfettoConverter_new :: "'w \<Rightarrow> 'w PerfettoConverter" where
  "PerfettoConverter_new w = \<lparr>conv_writer = PerfettoStreamWriter_new w, track_map = Map.empty\<rparr>"

type_synonym ('w, 'a) conv = "('w PerfettoConverter, io_error, 'a) stm"

definition with_writer :: "('w, 'a) psw \<Rightarrow> ('w, 'a) conv" where
  "with_writer = on_field conv_writer (\<lambda>w c. c\<lparr>conv_writer := w\<rparr>)"

definition track_insert :: "TrackId \<Rightarrow> u64 \<Rightarrow> ('w, unit) conv" where
  "track_insert track_id uuid = modify (\<lambda>c. c\<lparr>track_map := (track_map c)(track_id \<mapsto> uuid)\<rparr>)"

definition ensure_process_track :: "('w, 'b) io \<Rightarrow> i32 \<Rightarrow> string option \<Rightarrow> ('w, u64) conv" where
  "ensure_process_track io pid name =
    try_bind (gets (\<lambda>c. track_map c (TrackId_Process pid))) (\<lambda>found.
    case found of
      Some track_uuid \<Rightarrow> ret track_uuid
    | None \<Rightarrow>
        try_bind (with_writer (write_process_descriptor io pid name)) (\<lambda>track_uuid.
        try_bind (track_insert (TrackId_Process pid) track_uuid) (\<lambda>_.
        ret track_uuid)))"

definition ensure_thread_track :: "('w, 'b) io \<Rightarrow> i32 \<Rightarrow> i32 \<Rightarrow> string option \<Rightarrow> ('w, u64) conv" where
  "ensure_thread_track io pid tid name =
    try_bind (gets (\<lambda>c. track_map c (TrackId_Thread tid pid))) (\<lambda>found.
    case found of
      Some track_uuid \<Rightarrow>
        (if name \<noteq> None then
           try_bind (ensure_process_track io pid None) (\<lambda>process_track_uuid.
           try_bind (with_writer (write_thread_descriptor_with_uuid io track_uuid pid tid name process_track_uuid)) (\<lambda>_.
           ret track_uuid))
         else ret track_uuid)
    | None \<Rightarrow>
        try_bind (ensure_process_track io pid None) (\<lambda>process_track_uuid.
        try_bind (with_writer (write_thread_descriptor io pid tid name process_track_uuid)) (\<lambda>track_uuid.
        try_bind (track_insert (TrackId_Thread tid pid) track_uuid) (\<lambda>_.
        ret track_uuid))))"

definition create_debug_annotations :: "'l LabelIterator \<Rightarrow> 'l \<Rightarrow> DebugAnnotation list" where
  "create_debug_annotations L labels =
    map (\<lambda>(key, value). create_debug_annotation key (DebugValue_String value)) (iter_strings L labels) @
    map (\<lambda>(key, value). create_debug_annotation key (DebugValue_Int value)) (iter_ints L labels) @
    map (\<lambda>(key, value). create_debug_annotation key (DebugValue_Bool value)) (iter_bools L labels) @
    map (\<lambda>(key, value). create_debug_annotation key (DebugValue_Double value)) (iter_floats L labels)"

definition convert_interned_data ::
  "('d, 'c, 'f, 's, 'm) InternedDataIterable \<Rightarrow> ('w, 'b) io \<Rightarrow> 'd \<Rightarrow> StreamId option \<Rightarrow> ('w, unit) conv" where
  "convert_interned_data I io data stream_id =
    try_bind (with_writer (write_protocol_interned_data I io data stream_id)) (\<lambda>_. ret ())"

definition convert_counter :: "('w, 'b) io \<Rightarrow> Counter \<Rightarrow> ('w, unit) conv" where
  "convert_counter io counter =
    try_bind (gets (\<lambda>c. track_map c (counter_track_id counter))) (\<lambda>found.
    case found of
      Some track_uuid \<Rightarrow>
        with_writer (write_double_counter_value io track_uuid (counter_value counter) (counter_timestamp counter))
    | None \<Rightarrow> ret ())"

definition convert_archived_counter :: "'a natives \<Rightarrow> ('w, 'b) io \<Rightarrow> 'a ArchivedCounter \<Rightarrow> ('w, unit) conv" where
  "convert_archived_counter n io counter =
    (let track_id = ArchivedTrackId_to_native n (acounter_track_id counter) in
     try_bind (gets (\<lambda>c. track_map c track_id)) (\<lambda>found.
     case found of
       Some track_uuid \<Rightarrow>
         with_writer (write_double_counter_value io track_uuid (f64_native n (acounter_value counter))
           (u64_native n (acounter_timestamp counter)))
     | None \<Rightarrow> ret ()))"

text \<open>
  The lookup of the track of a span or of an instant, which the source writes out in both places:
  the uuid, or \<open>None\<close> where the source returns early.
\<close>

definition event_track :: "('w, 'b) io \<Rightarrow> TrackId \<Rightarrow> ('w, u64 option) conv" where
  "event_track io track_id =
    try_bind (gets (\<lambda>c. track_map c track_id)) (\<lambda>found.
    case found of
      Some uuid \<Rightarrow> ret (Some uuid)
    | None \<Rightarrow>
        (case track_id of
           TrackId_Thread tid pid \<Rightarrow>
             try_bind (ensure_thread_track io pid tid None) (\<lambda>uuid.
             try_bind (track_insert track_id uuid) (\<lambda>_. ret (Some uuid)))
         | TrackId_Process pid \<Rightarrow>
             try_bind (ensure_process_track io pid None) (\<lambda>uuid.
             try_bind (track_insert track_id uuid) (\<lambda>_. ret (Some uuid)))
         | _ \<Rightarrow> ret None))"

definition convert_span ::
  "'l LabelIterator \<Rightarrow> ('w, 'b) io \<Rightarrow> TrackId \<Rightarrow> string \<Rightarrow> u64 \<Rightarrow> u64 \<Rightarrow> 'l \<Rightarrow> ('w, unit) conv" where
  "convert_span L io track_id name start_ts end_ts labels =
    try_bind (event_track io track_id) (\<lambda>track.
    case track of
      None \<Rightarrow> ret ()
    | Some track_uuid \<Rightarrow>
        (let debug_annotations = create_debug_annotations L labels in
         try_bind (with_writer (write_slice_begin io track_uuid name start_ts debug_annotations)) (\<lambda>_.
         try_bind (with_writer (write_slice_end io track_uuid end_ts)) (\<lambda>_. ret ()))))"

definition convert_instant ::
  "'l LabelIterator \<Rightarrow> ('w, 'b) io \<Rightarrow> TrackId \<Rightarrow> string \<Rightarrow> u64 \<Rightarrow> 'l \<Rightarrow> ('w, unit) conv" where
  "convert_instant L io track_id name timestamp labels =
    try_bind (event_track io track_id) (\<lambda>track.
    case track of
      None \<Rightarrow> ret ()
    | Some track_uuid \<Rightarrow>
        (let debug_annotations = create_debug_annotations L labels in
         try_bind (with_writer (write_instant_event io track_uuid name timestamp debug_annotations)) (\<lambda>_. ret ())))"

definition parent_track_uuid :: "('w, 'b) io \<Rightarrow> TrackType option \<Rightarrow> ('w, u64) conv" where
  "parent_track_uuid io parent_type =
    (case parent_type of
       None \<Rightarrow> ret 0
     | Some parent \<Rightarrow>
         (let parent_id = to_id parent in
          try_bind (gets (\<lambda>c. track_map c parent_id)) (\<lambda>found.
          case found of
            Some uuid \<Rightarrow> ret uuid
          | None \<Rightarrow>
              (case parent of
                 TrackType_Thread tid pid \<Rightarrow>
                   try_bind (ensure_thread_track io pid tid None) (\<lambda>uuid.
                   try_bind (track_insert parent_id uuid) (\<lambda>_. ret uuid))
               | TrackType_Process pid \<Rightarrow>
                   try_bind (ensure_process_track io pid None) (\<lambda>uuid.
                   try_bind (track_insert parent_id uuid) (\<lambda>_. ret uuid))
               | _ \<Rightarrow> gets (\<lambda>c. case track_map c parent_id of Some uuid \<Rightarrow> uuid | None \<Rightarrow> 0)))))"

definition convert_track :: "('w, 'b) io \<Rightarrow> Track \<Rightarrow> ('w, unit) conv" where
  "convert_track io track =
    (let track_id = to_id (track_type track) in
     try_bind (gets (\<lambda>c. track_map c track_id)) (\<lambda>found.
     if found \<noteq> None then ret ()
     else
       try_bind (parent_track_uuid io (track_parent track)) (\<lambda>parent_uuid.
       try_bind
         (case track_type track of
            TrackType_Cpu _ \<Rightarrow> with_writer (write_generic_track io (track_name track) parent_uuid)
          | TrackType_Custom _ \<Rightarrow> with_writer (write_generic_track io (track_name track) parent_uuid)
          | TrackType_Counter _ u \<Rightarrow> with_writer (write_counter_track io (track_name track) u parent_uuid)
          | TrackType_Thread tid pid \<Rightarrow> ensure_thread_track io pid tid (Some (track_name track))
          | TrackType_Process pid \<Rightarrow> ensure_process_track io pid (Some (track_name track)))
         (\<lambda>track_uuid. try_bind (track_insert track_id track_uuid) (\<lambda>_. ret ())))))"

definition convert_event :: "('w, 'b) io \<Rightarrow> Event \<Rightarrow> StreamId option \<Rightarrow> ('w, unit) conv" where
  "convert_event io event stream_id =
    (case event of
       Event_InternedData data \<Rightarrow> convert_interned_data InternedData_iterable io data stream_id
     | Event_Sample sample \<Rightarrow>
         (case sample_track_id sample of
            TrackId_Thread tid pid \<Rightarrow>
              with_writer (write_perf_sample io (sample_cpu sample) pid tid (sample_timestamp sample)
                (sample_callstack_iid sample) stream_id)
          | _ \<Rightarrow> ret ())
     | Event_Counter counter \<Rightarrow> convert_counter io counter
     | Event_Span span \<Rightarrow>
         convert_span Labels_iterator io (span_track_id span) (span_name span) (start_timestamp span)
           (end_timestamp span) (span_labels span)
     | Event_Instant instant \<Rightarrow>
         convert_instant Labels_iterator io (instant_track_id instant) (instant_name instant)
           (instant_timestamp instant) (instant_labels instant)
     | Event_Track track \<Rightarrow> convert_track io track)"

definition convert_message :: "('w, 'b) io \<Rightarrow> Message \<Rightarrow> ('w, unit) conv" where
  "convert_message io message =
    (case message of
       Message_Event e \<Rightarrow> convert_event io e None
     | Message_Stream stream_id event \<Rightarrow> convert_event io event (Some stream_id))"

definition convert_archived_event ::
  "'a natives \<Rightarrow> ('w, 'b) io \<Rightarrow> 'a ArchivedEvent \<Rightarrow> StreamId option \<Rightarrow> ('w, unit) conv" where
  "convert_archived_event n io event stream_id =
    (case event of
       ArchivedEvent_InternedData data \<Rightarrow>
         convert_interned_data (ArchivedInternedData_iterable n) io data stream_id
     | ArchivedEvent_Sample sample \<Rightarrow>
         (case asample_track_id sample of
            ArchivedTrackId_Thread tid pid \<Rightarrow>
              with_writer (write_perf_sample io (u32_native n (asample_cpu sample)) (i32_native n pid)
                (i32_native n tid) (u64_native n (asample_timestamp sample))
                (u64_native n (asample_callstack_iid sample)) stream_id)
          | _ \<Rightarrow> ret ())
     | ArchivedEvent_Counter counter \<Rightarrow> convert_archived_counter n io counter
     | ArchivedEvent_Span span \<Rightarrow>
         (let track_id = ArchivedTrackId_to_native n (aspan_track_id span) in
          convert_span (ArchivedLabels_iterator n) io track_id (aspan_name span)
            (u64_native n (astart_timestamp span)) (u64_native n (aend_timestamp span)) (aspan_labels span))
     | ArchivedEvent_Instant instant \<Rightarrow>
         (let track_id = ArchivedTrackId_to_native n (ainstant_track_id instant) in
          convert_instant (ArchivedLabels_iterator n) io track_id (ainstant_name instant)
            (u64_native n (ainstant_timestamp instant)) (ainstant_labels instant))
     | ArchivedEvent_Track track \<Rightarrow>
         (let ty = ArchivedTrackType_to_native n (atrack_type track);
              parent = map_option (ArchivedTrackType_to_native n) (atrack_parent track);
              owned_track = \<lparr>track_name = atrack_name track, track_type = ty, track_parent = parent\<rparr>
          in convert_track io owned_track))"

definition convert_archived_message :: "'a natives \<Rightarrow> ('w, 'b) io \<Rightarrow> 'a ArchivedMessage \<Rightarrow> ('w, unit) conv" where
  "convert_archived_message n io message =
    (case message of
       ArchivedMessage_Event e \<Rightarrow> convert_archived_event n io e None
     | ArchivedMessage_Stream stream_id event \<Rightarrow>
         convert_archived_event n io event (Some (u16_native n stream_id)))"

definition PerfettoConverter_flush :: "('w, 'b) io \<Rightarrow> ('w, unit) conv" where
  "PerfettoConverter_flush io = with_writer (flush io)"

section \<open>Archived and native messages agree\<close>

lemma labels_agree: "create_debug_annotations (ArchivedLabels_iterator n) l =
    create_debug_annotations Labels_iterator (labels_of n l)"
  by (simp add: create_debug_annotations_def ArchivedLabels_iterator_def Labels_iterator_def labels_of_def
      comp_def case_prod_beta)

lemma interned_data_agree: "convert_interned_data (ArchivedInternedData_iterable n) io d stream_id =
    convert_interned_data InternedData_iterable io (interned_data_of n d) stream_id"
  by (simp add: convert_interned_data_def archived_view.write_native)

lemma event_agrees: "convert_archived_event n io e stream_id = convert_event io (event_of n e) stream_id"
proof (cases e)
  case (ArchivedEvent_Sample s)
  then show ?thesis
    by (cases "asample_track_id s") (simp_all add: convert_archived_event_def convert_event_def)
qed (simp_all add: convert_archived_event_def convert_event_def convert_archived_counter_def
    convert_counter_def interned_data_agree convert_span_def convert_instant_def labels_agree Let_def
    cong: option.case_cong)

text \<open>
  C14 (archived and native conversion agree): converting an archived message in place has exactly the
  effect, on the output and on the converter's state, of converting the native message it stands for,
  whatever the archived scalars are and whatever the writer does.
\<close>

theorem convert_archived_message_native:
  "convert_archived_message n io m s = convert_message io (message_of n m) s"
  by (cases m) (simp_all add: convert_archived_message_def convert_message_def event_agrees)

section \<open>Well-formed traces\<close>

definition declares :: "u64 \<Rightarrow> TracePacket \<Rightarrow> bool" where
  "declares u p = (case pkt_data p of Some (Data_TrackDescriptor d) \<Rightarrow> desc_uuid d = Some u | _ \<Rightarrow> False)"

text \<open>
  A packet is well formed after the packets \<open>L\<close> when the track of its event has been declared, and
  when the parent of the track it declares is the root or has been declared.
\<close>

definition packet_ok :: "TracePacket list \<Rightarrow> TracePacket \<Rightarrow> bool" where
  "packet_ok L p =
    (case pkt_data p of
       Some (Data_TrackEvent e) \<Rightarrow>
         (case ev_track_uuid e of Some u \<Rightarrow> list_ex (declares u) L | None \<Rightarrow> False)
     | Some (Data_TrackDescriptor d) \<Rightarrow>
         (case desc_parent_uuid d of Some u \<Rightarrow> u = 0 \<or> list_ex (declares u) L | None \<Rightarrow> True)
     | _ \<Rightarrow> True)"

definition trace_ok :: "TracePacket list \<Rightarrow> bool" where
  "trace_ok L = list_all (\<lambda>i. packet_ok (take i L) (L ! i)) [0..<length L]"

fun describes :: "TrackId \<Rightarrow> TrackDescriptor \<Rightarrow> bool" where
  "describes (TrackId_Thread tid pid) d =
    (case desc_thread d of Some t \<Rightarrow> td_tid t = Some tid \<and> td_pid t = Some pid | None \<Rightarrow> False)"
| "describes (TrackId_Process pid) d =
    (case desc_process d of Some p \<Rightarrow> pd_pid p = Some pid | None \<Rightarrow> False)"
| "describes (TrackId_Counter _) d = (desc_counter d \<noteq> None)"
| "describes (TrackId_Cpu _) d = (desc_name d \<noteq> None \<and> desc_counter d = None)"
| "describes (TrackId_Custom _) d = (desc_name d \<noteq> None \<and> desc_counter d = None)"

definition declares_as :: "TrackId \<Rightarrow> u64 \<Rightarrow> TracePacket \<Rightarrow> bool" where
  "declares_as tid u p = (case pkt_data p of
     Some (Data_TrackDescriptor d) \<Rightarrow> desc_uuid d = Some u \<and> describes tid d | _ \<Rightarrow> False)"

definition written :: "('w \<Rightarrow> TracePacket list) \<Rightarrow> 'w PerfettoConverter \<Rightarrow> TracePacket list" where
  "written out c = out (writer (conv_writer c))"

text \<open>
  The invariant.  \<open>N\<close> bounds the uuid counter, the tracks in \<open>A\<close> are not in the track map and the
  tracks in \<open>M\<close> are.
\<close>

definition conv_inv ::
  "('w \<Rightarrow> TracePacket list) \<Rightarrow> TrackId set \<Rightarrow> (TrackId \<times> u64) set \<Rightarrow> nat \<Rightarrow> 'w PerfettoConverter \<Rightarrow> bool" where
  "conv_inv out A M N c \<longleftrightarrow>
    trace_ok (written out c) \<and>
    unat (track_uuid_counter (conv_writer c)) \<le> N \<and> 1000 \<le> unat (track_uuid_counter (conv_writer c)) \<and>
    (\<forall>u. list_ex (declares u) (written out c) \<longrightarrow> u < track_uuid_counter (conv_writer c)) \<and>
    (\<forall>tid u. track_map c tid = Some u \<longrightarrow> list_ex (declares_as tid u) (written out c)) \<and>
    inj_on (track_map c) (dom (track_map c)) \<and>
    (\<forall>tid\<in>A. track_map c tid = None) \<and> (\<forall>tid u. (tid, u) \<in> M \<longrightarrow> track_map c tid = Some u)"

lemma trace_ok_Nil [simp]: "trace_ok []"
  by (simp add: trace_ok_def)

lemma trace_ok_snoc [simp]: "trace_ok (L @ [p]) \<longleftrightarrow> trace_ok L \<and> packet_ok L p"
proof -
  have "list_all (\<lambda>i. packet_ok (take i (L @ [p])) ((L @ [p]) ! i)) [0..<length L] =
      list_all (\<lambda>i. packet_ok (take i L) (L ! i)) [0..<length L]"
    by (rule list.pred_cong) (auto simp: nth_append)
  then show ?thesis by (auto simp: trace_ok_def)
qed

lemma declares_as_declares: "declares_as tid u p \<Longrightarrow> declares u p"
  by (auto simp: declares_as_def declares_def split: option.splits packet_data.splits)

lemma list_ex_mono: "list_ex P xs \<Longrightarrow> (\<And>x. P x \<Longrightarrow> Q x) \<Longrightarrow> list_ex Q xs"
  by (auto simp: list_ex_iff)

lemma declares_event [simp]: "\<not> declares u (event_packet e ts)"
  by (simp add: declares_def)

lemma declares_descriptor [simp]: "declares u (descriptor_packet d) \<longleftrightarrow> desc_uuid d = Some u"
  by (simp add: declares_def)

lemma conv_inv_mono: "conv_inv out A M N c \<Longrightarrow> N \<le> N' \<Longrightarrow> B \<subseteq> A \<Longrightarrow> M' \<subseteq> M \<Longrightarrow> conv_inv out B M' N' c"
  by (auto simp: conv_inv_def)

lemma conv_inv_mapped: "conv_inv out A M N c \<Longrightarrow> track_map c tid = Some u \<Longrightarrow> list_ex (declares u) (written out c)"
  by (rule list_ex_mono [where P = "declares_as tid u"]) (auto simp: conv_inv_def dest: declares_as_declares)

lemma inj_on_upd_fresh:
  "inj_on m (dom m) \<Longrightarrow> (\<And>x. m x \<noteq> Some v) \<Longrightarrow> inj_on (m(k \<mapsto> v)) (dom (m(k \<mapsto> v)))"
  by (auto simp: inj_on_def)

lemma conv_inv_M: "conv_inv out A M N c \<Longrightarrow> (t, u) \<in> M \<Longrightarrow> track_map c t = Some u"
  by (auto simp: conv_inv_def)

lemma conv_inv_A: "conv_inv out A M N c \<Longrightarrow> t \<in> A \<Longrightarrow> track_map c t = None"
  by (simp add: conv_inv_def)

lemma conv_inv_know:
  "conv_inv out A M N c \<Longrightarrow> track_map c t = Some u \<Longrightarrow> conv_inv out A (insert (t, u) M) N c"
  "conv_inv out A M N c \<Longrightarrow> track_map c t = None \<Longrightarrow> conv_inv out (insert t A) M N c"
  by (auto simp: conv_inv_def)

section \<open>Writing one packet\<close>

lemma conv_inv_old:
  assumes inv: "conv_inv out A M N c" and em: "emits out (conv_writer c) p 0 r w"
    and ok: "packet_ok (written out c) p"
    and old: "\<And>u. declares u p \<Longrightarrow> list_ex (declares u) (written out c)"
  shows "conv_inv out A M N (c\<lparr>conv_writer := w\<rparr>)"
  using assms by (cases r) (auto simp: conv_inv_def emits_def written_def)

lemma conv_inv_new:
  assumes inv: "conv_inv out A M N c" and em: "emits out (conv_writer c) (descriptor_packet d) 1 r w"
    and d: "desc_uuid d = Some (track_uuid_counter (conv_writer c))" "packet_ok (written out c) (descriptor_packet d)"
    and N: "N + 1 < 2 ^ 64"
  shows "conv_inv out A M (N + 1) (c\<lparr>conv_writer := w\<rparr>)"
    "r = Ok v \<Longrightarrow> describes tid d \<Longrightarrow> tid \<notin> A \<Longrightarrow> track_map c tid = None \<Longrightarrow>
      conv_inv out A M (N + 1) (c\<lparr>conv_writer := w, track_map := (track_map c)(tid \<mapsto> track_uuid_counter (conv_writer c))\<rparr>)"
proof -
  let ?k = "track_uuid_counter (conv_writer c)"
  have "unat ?k + 1 < 2 ^ 64" using inv N by (simp add: conv_inv_def)
  then have u: "unat (?k + 1) = unat ?k + 1" by (simp add: unat_word_ariths)
  then have lt: "x < ?k + 1 \<longleftrightarrow> x < ?k \<or> x = ?k" for x by (metis Suc_eq_plus1 less_Suc_eq word_less_nat_alt word_unat_eq_iff)
  show new: "conv_inv out A M (N + 1) (c\<lparr>conv_writer := w\<rparr>)"
    using inv em d u lt by (cases r) (auto simp: conv_inv_def emits_def written_def)
  assume r: "r = Ok v" "describes tid d" "tid \<notin> A" "track_map c tid = None"
  have "track_map c x \<noteq> Some ?k" for x
    using inv conv_inv_mapped [OF inv, of x ?k] by (auto simp: conv_inv_def)
  then have "inj_on ((track_map c)(tid \<mapsto> ?k)) (dom ((track_map c)(tid \<mapsto> ?k)))"
    using inv by (intro inj_on_upd_fresh) (simp_all add: conv_inv_def)
  moreover have "list_ex (declares_as tid ?k) (written out (c\<lparr>conv_writer := w\<rparr>))"
    using em r d by (simp add: emits_def written_def declares_as_def)
  ultimately show "conv_inv out A M (N + 1) (c\<lparr>conv_writer := w, track_map := (track_map c)(tid \<mapsto> ?k)\<rparr>)"
    using new r(3,4) by (auto simp: conv_inv_def written_def)
qed

lemma with_writer_run:
  assumes "with_writer m c = (r, c')"
  obtains w where "m (conv_writer c) = (r, w)" "c' = c\<lparr>conv_writer := w\<rparr>"
  using assms by (auto simp: with_writer_def on_field_def split: prod.splits)

lemma with_writer_old:
  assumes em: "\<And>s r s'. m s = (r, s') \<Longrightarrow> emits out s p 0 r s'"
    and ok: "\<And>c. P c \<Longrightarrow> conv_inv out A M N c \<and> packet_ok (written out c) p \<and>
      (\<forall>u. declares u p \<longrightarrow> list_ex (declares u) (written out c))"
  shows "triple P (with_writer m) (\<lambda>_. conv_inv out A M N)"
proof (rule tripleI)
  fix c r c'
  assume P: "P c" and "with_writer m c = (r, c')"
  then obtain w where w: "m (conv_writer c) = (r, w)" "c' = c\<lparr>conv_writer := w\<rparr>" by (elim with_writer_run)
  show "conv_inv out A M N c'"
    unfolding w(2) by (rule conv_inv_old [OF _ em [OF w(1)]]) (use ok [OF P] in auto)
qed

text \<open>A method that declares a new track, followed by the insertion of its uuid.\<close>

lemma declare_and_insert:
  assumes em: "\<And>s r s'. m s = (r, s') \<Longrightarrow>
      emits out s (descriptor_packet (d (track_uuid_counter s))) 1 r s' \<and> (\<forall>u. r = Ok u \<longrightarrow> u = track_uuid_counter s)"
    and d: "\<And>u. desc_uuid (d u) = Some u" "\<And>u. describes tid (d u)" "\<And>u. desc_parent_uuid (d u) = q"
    and N: "N + 1 < 2 ^ 64" and tid: "tid \<notin> A"
    and k: "\<And>u. triple (\<lambda>c. conv_inv out A M (N + 1) c \<and> track_map c tid = Some u) (k u) R"
    and e: "\<And>e c. conv_inv out A M (N + 1) c \<Longrightarrow> R (Err e) c"
  shows "triple (\<lambda>c. conv_inv out A M N c \<and> track_map c tid = None \<and> (\<forall>u. q = Some u \<longrightarrow> u = 0 \<or> list_ex (declares u) (written out c)))
    (try_bind (with_writer m) (\<lambda>u. try_bind (track_insert tid u) (\<lambda>_. k u))) R"
proof (rule tripleI)
  fix c r c'
  assume c: "conv_inv out A M N c \<and> track_map c tid = None \<and> (\<forall>u. q = Some u \<longrightarrow> u = 0 \<or> list_ex (declares u) (written out c))"
    and run: "try_bind (with_writer m) (\<lambda>u. try_bind (track_insert tid u) (\<lambda>_. k u)) c = (r, c')"
  let ?k = "track_uuid_counter (conv_writer c)"
  obtain r1 w where m: "m (conv_writer c) = (r1, w)" by fastforce
  have ww: "with_writer m c = (r1, c\<lparr>conv_writer := w\<rparr>)" by (simp add: with_writer_def on_field_def m)
  have em1: "emits out (conv_writer c) (descriptor_packet (d ?k)) 1 r1 w" "r1 = Ok u \<Longrightarrow> u = ?k" for u
    using em [OF m] by auto
  have ok: "packet_ok (written out c) (descriptor_packet (d ?k))"
    using c d(3) [of ?k] by (auto simp: packet_ok_def split: option.splits)
  note new = conv_inv_new [OF conjunct1 [OF c] em1(1) d(1) ok N]
  show "R r c'"
  proof (cases r1)
    case (Inl err)
    then have "r = Err err" "c' = c\<lparr>conv_writer := w\<rparr>" using run by (simp_all add: try_bind_def ww)
    then show ?thesis using new(1) e by simp
  next
    case (Inr u)
    let ?c = "c\<lparr>conv_writer := w, track_map := (track_map c)(tid \<mapsto> ?k)\<rparr>"
    have "u = ?k" using em1(2) Inr by simp
    then have "k ?k ?c = (r, c')" using run Inr by (simp add: try_bind_def [of "with_writer m"] ww track_insert_def)
    moreover have "conv_inv out A M (N + 1) ?c" by (rule new(2) [OF Inr d(2) tid]) (use c in simp)
    ultimately show ?thesis using tripleD [OF k, of ?c ?k] by simp
  qed
qed

section \<open>The tracks\<close>

lemma ensure_process_track_inv:
  assumes "packet_sink io out" "N + 1 < 2 ^ 64" "TrackId_Process pid \<notin> A"
  shows "triple (conv_inv out A M N) (ensure_process_track io pid name)
    (\<lambda>r c. conv_inv out A M (N + 1) c \<and> (\<forall>u. r = Ok u \<longrightarrow> track_map c (TrackId_Process pid) = Some u))"
  unfolding ensure_process_track_def
proof (rule triple_gets_bind)
  fix c0 :: "'a PerfettoConverter"
  let ?d = "\<lambda>u. TrackDescriptor_default\<lparr>desc_uuid := Some u, desc_process := Some \<lparr>pd_pid = Some pid, pd_process_name = name\<rparr>\<rparr>"
  show "triple (\<lambda>c. conv_inv out A M N c \<and> track_map c (TrackId_Process pid) = track_map c0 (TrackId_Process pid))
      (case track_map c0 (TrackId_Process pid) of
         Some u \<Rightarrow> ret u
       | None \<Rightarrow> try_bind (with_writer (write_process_descriptor io pid name))
           (\<lambda>u. try_bind (track_insert (TrackId_Process pid) u) (\<lambda>_. ret u)))
      (\<lambda>r c. conv_inv out A M (N + 1) c \<and> (\<forall>u. r = Ok u \<longrightarrow> track_map c (TrackId_Process pid) = Some u))"
  proof (cases "track_map c0 (TrackId_Process pid)")
    case None
    have "triple (\<lambda>c. conv_inv out A M N c \<and> track_map c (TrackId_Process pid) = None \<and> (\<forall>u. None = Some u \<longrightarrow> u = 0 \<or> list_ex (declares u) (written out c)))
        (try_bind (with_writer (write_process_descriptor io pid name))
          (\<lambda>u. try_bind (track_insert (TrackId_Process pid) u) (\<lambda>_. ret u)))
        (\<lambda>r c. conv_inv out A M (N + 1) c \<and> (\<forall>u. r = Ok u \<longrightarrow> track_map c (TrackId_Process pid) = Some u))"
      by (rule declare_and_insert [where d = ?d])
        (use write_process_descriptor_emits [OF assms(1)] assms(2,3) in
          \<open>simp_all add: TrackDescriptor_default_def triple_def\<close>)
    then show ?thesis unfolding None option.case by (rule triple_conseq) auto
  next
    case (Some u)
    then show ?thesis by (auto intro!: triple_ret elim: conv_inv_mono)
  qed
qed

lemma ensure_thread_track_inv:
  assumes sink: "packet_sink io out" and N: "N + 2 < 2 ^ 64"
    and A: "TrackId_Process pid \<notin> A" "TrackId_Thread tid pid \<notin> A"
  shows "triple (conv_inv out A M N) (ensure_thread_track io pid tid name)
    (\<lambda>r c. conv_inv out A M (N + 2) c \<and> (\<forall>u. r = Ok u \<longrightarrow> track_map c (TrackId_Thread tid pid) = Some u))"
    (is "triple _ _ ?Q")
  unfolding ensure_thread_track_def
proof (rule triple_gets_bind)
  fix c0 :: "'a PerfettoConverter"
  let ?t = "TrackId_Thread tid pid" and ?p = "TrackId_Process pid"
  let ?d = "\<lambda>q u. TrackDescriptor_default\<lparr>desc_uuid := Some u, desc_parent_uuid := Some q,
    desc_thread := Some \<lparr>td_pid = Some pid, td_tid = Some tid, td_thread_name = name\<rparr>\<rparr>"
  let ?rename = "\<lambda>u. try_bind (ensure_process_track io pid None) (\<lambda>q.
    try_bind (with_writer (write_thread_descriptor_with_uuid io u pid tid name q)) (\<lambda>_. ret u))"
  let ?new = "try_bind (ensure_process_track io pid None) (\<lambda>q.
    try_bind (with_writer (write_thread_descriptor io pid tid name q)) (\<lambda>u.
    try_bind (track_insert ?t u) (\<lambda>_. ret u)))"
  note process = ensure_process_track_inv [OF sink, of N pid _ _ None]
  have rename: "triple (\<lambda>c. conv_inv out A M N c \<and> track_map c ?t = Some u) (?rename u) ?Q" for u
  proof (rule triple_conseq)
    let ?I = "conv_inv out A (insert (?t, u) M) (N + 1)"
    show "triple (conv_inv out A (insert (?t, u) M) N) (?rename u) (\<lambda>r c. ?I c \<and> (\<forall>v. r = Ok v \<longrightarrow> v = u))"
    proof (rule triple_bind [OF process])
      fix q
      have "triple (\<lambda>c. ?I c \<and> (\<forall>v. Ok q = Ok v \<longrightarrow> track_map c ?p = Some v))
          (with_writer (write_thread_descriptor_with_uuid io u pid tid name q)) (\<lambda>_. ?I)"
        by (rule with_writer_old [OF write_thread_descriptor_with_uuid_emits [OF sink]])
          (auto simp: packet_ok_def TrackDescriptor_default_def intro: conv_inv_mapped conv_inv_mapped [OF _ conv_inv_M])
      then show "triple (\<lambda>c. ?I c \<and> (\<forall>v. Ok q = Ok v \<longrightarrow> track_map c ?p = Some v))
          (try_bind (with_writer (write_thread_descriptor_with_uuid io u pid tid name q)) (\<lambda>_. ret u))
          (\<lambda>r c. ?I c \<and> (\<forall>v. r = Ok v \<longrightarrow> v = u))"
        by (rule triple_bind) (auto intro: triple_ret)
    qed (use N A in auto)
  qed (auto intro: conv_inv_know conv_inv_M elim: conv_inv_mono)
  have new: "triple (\<lambda>c. conv_inv out A M N c \<and> track_map c ?t = None) ?new ?Q"
  proof (rule triple_conseq)
    show "triple (conv_inv out (insert ?t A) M N) ?new ?Q"
    proof (rule triple_bind [OF process])
      fix q
      have "triple (\<lambda>c. conv_inv out A M (N + 1) c \<and> track_map c ?t = None \<and>
            (\<forall>u. Some q = Some u \<longrightarrow> u = 0 \<or> list_ex (declares u) (written out c)))
          (try_bind (with_writer (write_thread_descriptor io pid tid name q)) (\<lambda>u.
            try_bind (track_insert ?t u) (\<lambda>_. ret u))) ?Q"
        by (rule declare_and_insert [where d = "?d q"])
          (use write_thread_descriptor_emits [OF sink] N A in \<open>simp_all add: TrackDescriptor_default_def triple_def\<close>)
      then show "triple (\<lambda>c. conv_inv out (insert ?t A) M (N + 1) c \<and> (\<forall>v. Ok q = Ok v \<longrightarrow> track_map c ?p = Some v))
          (try_bind (with_writer (write_thread_descriptor io pid tid name q)) (\<lambda>u.
            try_bind (track_insert ?t u) (\<lambda>_. ret u))) ?Q"
        by (rule triple_conseq) (auto intro: conv_inv_A conv_inv_mapped elim: conv_inv_mono)
    qed (use N A in \<open>auto elim: conv_inv_mono\<close>)
  qed (auto intro: conv_inv_know)
  show "triple (\<lambda>c. conv_inv out A M N c \<and> track_map c ?t = track_map c0 ?t)
     (case track_map c0 ?t of
        Some u \<Rightarrow> if name \<noteq> None then ?rename u else ret u
      | None \<Rightarrow> ?new) ?Q"
    using rename new by (cases "track_map c0 ?t") (auto intro!: triple_ret elim: conv_inv_mono)
qed

lemma insert_same:
  assumes "triple P m (\<lambda>r c. I c \<and> (\<forall>u. r = Ok u \<longrightarrow> track_map c t = Some u))"
  shows "triple P (try_bind m (\<lambda>u. try_bind (track_insert t u) (\<lambda>_. ret (f u))))
    (\<lambda>r c. I c \<and> (\<forall>v. r = Ok v \<longrightarrow> (\<exists>u. v = f u \<and> track_map c t = Some u)))"
proof (rule triple_bind [OF assms])
  have "c\<lparr>track_map := (track_map c)(t \<mapsto> u)\<rparr> = c" if "track_map c t = Some u" for c :: "'a PerfettoConverter" and u
    using that by (simp add: fun_upd_idem)
  then show "triple (\<lambda>c. I c \<and> (\<forall>u. Ok a = Ok u \<longrightarrow> track_map c t = Some u))
      (try_bind (track_insert t a) (\<lambda>_. ret (f a)))
      (\<lambda>r c. I c \<and> (\<forall>v. r = Ok v \<longrightarrow> (\<exists>u. v = f u \<and> track_map c t = Some u)))" for a
    by (auto simp: triple_def track_insert_def)
qed simp

lemma event_track_inv:
  assumes sink: "packet_sink io out" and N: "N + 2 < 2 ^ 64"
  shows "triple (conv_inv out {} {} N) (event_track io tid)
    (\<lambda>r c. conv_inv out {} {} (N + 2) c \<and> (\<forall>u. r = Ok (Some u) \<longrightarrow> track_map c tid = Some u))" (is "triple _ _ ?Q")
  unfolding event_track_def
proof (rule triple_gets_bind)
  fix c0 :: "'a PerfettoConverter"
  let ?P = "\<lambda>c. conv_inv out {} {} N c \<and> track_map c tid = track_map c0 tid"
  have thread: "triple ?P (try_bind (ensure_thread_track io p t None) (\<lambda>uuid.
      try_bind (track_insert tid uuid) (\<lambda>_. ret (Some uuid)))) ?Q" if "tid = TrackId_Thread t p" for t p
    unfolding that by (rule triple_conseq [OF insert_same [OF ensure_thread_track_inv [OF sink N]]]) auto
  have process: "triple ?P (try_bind (ensure_process_track io p None) (\<lambda>uuid.
      try_bind (track_insert tid uuid) (\<lambda>_. ret (Some uuid)))) ?Q" if "tid = TrackId_Process p" for p
    unfolding that by (rule triple_conseq [OF insert_same [OF ensure_process_track_inv [OF sink, of N]]])
      (use N in \<open>auto elim: conv_inv_mono\<close>)
  show "triple ?P
     (case track_map c0 tid of
        None \<Rightarrow> (case tid of
            TrackId_Thread t p \<Rightarrow> try_bind (ensure_thread_track io p t None) (\<lambda>uuid.
              try_bind (track_insert tid uuid) (\<lambda>_. ret (Some uuid)))
          | TrackId_Process p \<Rightarrow> try_bind (ensure_process_track io p None) (\<lambda>uuid.
              try_bind (track_insert tid uuid) (\<lambda>_. ret (Some uuid)))
          | _ \<Rightarrow> ret None)
      | Some uuid \<Rightarrow> ret (Some uuid)) ?Q"
  proof (cases "track_map c0 tid")
    case None
    show ?thesis
    proof (cases tid)
      case (TrackId_Thread t p)
      then show ?thesis using thread [OF TrackId_Thread] None by simp
    next
      case (TrackId_Process p)
      then show ?thesis using process [OF TrackId_Process] None by simp
    qed (use None in \<open>auto intro!: triple_ret elim: conv_inv_mono\<close>)
  next
    case (Some u)
    show ?thesis unfolding Some option.case by (rule triple_ret) (auto elim: conv_inv_mono)
  qed
qed

lemma with_writer_event:
  assumes "packet_sink io out" "ev_track_uuid e = Some u" "(tid, u) \<in> M"
  shows "triple (conv_inv out A M N)
    (with_writer (write_packet io (TracePacket_default\<lparr>pkt_data := Some (Data_TrackEvent e), pkt_timestamp := Some ts\<rparr>) None))
    (\<lambda>_. conv_inv out A M N)"
  by (rule with_writer_old [OF write_event_emits [OF assms(1)]])
    (auto simp: packet_ok_def assms(2) intro: conv_inv_mapped [OF _ conv_inv_M [OF _ assms(3)]])

lemma convert_span_inv:
  assumes sink: "packet_sink io out" and N: "N + 2 < 2 ^ 64"
  shows "triple (conv_inv out {} {} N) (convert_span L io tid name t0 t1 labels) (\<lambda>_. conv_inv out {} {} (N + 2))"
  unfolding convert_span_def event_writers Let_def
proof (rule triple_bind [OF event_track_inv [OF assms]])
  fix a
  let ?wr = "\<lambda>e ts. with_writer (write_packet io
    (TracePacket_default\<lparr>pkt_data := Some (Data_TrackEvent e), pkt_timestamp := Some ts\<rparr>) None)"
  have "triple (conv_inv out {} {(tid, u)} (N + 2)) (try_bind (?wr b t0) (\<lambda>_. try_bind (?wr e t1) (\<lambda>_. ret ())))
      (\<lambda>_. conv_inv out {} {(tid, u)} (N + 2))"
    if "ev_track_uuid b = Some u" "ev_track_uuid e = Some u" for b e u
    by (intro triple_bind [OF with_writer_event [OF sink]] triple_ret) (use that in auto)
  note span = triple_conseq [OF this]
  show "triple (\<lambda>c. conv_inv out {} {} (N + 2) c \<and> (\<forall>u. Ok a = Ok (Some u) \<longrightarrow> track_map c tid = Some u))
     (case a of None \<Rightarrow> ret ()
      | Some u \<Rightarrow> try_bind (?wr (TrackEvent_default\<lparr>ev_name := Some name, ev_track_uuid := Some u, ev_type := Some SliceBegin,
            ev_debug_annotations := create_debug_annotations L labels\<rparr>) t0) (\<lambda>_.
          try_bind (?wr (TrackEvent_default\<lparr>ev_track_uuid := Some u, ev_type := Some SliceEnd\<rparr>) t1) (\<lambda>_. ret ())))
     (\<lambda>_. conv_inv out {} {} (N + 2))"
  proof (cases a)
    case None
    show ?thesis unfolding None option.case by (rule triple_ret) simp
  next
    case (Some u)
    show ?thesis unfolding Some option.case
      by (rule span) (auto intro: conv_inv_know elim: conv_inv_mono)
  qed
qed simp

lemma convert_instant_inv:
  assumes sink: "packet_sink io out" and N: "N + 2 < 2 ^ 64"
  shows "triple (conv_inv out {} {} N) (convert_instant L io tid name ts labels) (\<lambda>_. conv_inv out {} {} (N + 2))"
  unfolding convert_instant_def event_writers Let_def
proof (rule triple_bind [OF event_track_inv [OF assms]])
  fix a
  let ?wr = "\<lambda>e ts. with_writer (write_packet io
    (TracePacket_default\<lparr>pkt_data := Some (Data_TrackEvent e), pkt_timestamp := Some ts\<rparr>) None)"
  have "triple (conv_inv out {} {(tid, u)} (N + 2)) (try_bind (?wr b ts) (\<lambda>_. ret ()))
      (\<lambda>_. conv_inv out {} {(tid, u)} (N + 2))"
    if "ev_track_uuid b = Some u" for b u
    by (intro triple_bind [OF with_writer_event [OF sink]] triple_ret) (use that in auto)
  note instant = triple_conseq [OF this]
  show "triple (\<lambda>c. conv_inv out {} {} (N + 2) c \<and> (\<forall>u. Ok a = Ok (Some u) \<longrightarrow> track_map c tid = Some u))
     (case a of None \<Rightarrow> ret ()
      | Some u \<Rightarrow> try_bind (?wr (TrackEvent_default\<lparr>ev_name := Some name, ev_track_uuid := Some u, ev_type := Some Type_Instant,
            ev_debug_annotations := create_debug_annotations L labels\<rparr>) ts) (\<lambda>_. ret ()))
     (\<lambda>_. conv_inv out {} {} (N + 2))"
  proof (cases a)
    case None
    show ?thesis unfolding None option.case by (rule triple_ret) simp
  next
    case (Some u)
    show ?thesis unfolding Some option.case
      by (rule instant) (auto intro: conv_inv_know elim: conv_inv_mono)
  qed
qed simp

lemma convert_counter_inv:
  assumes sink: "packet_sink io out"
  shows "triple (conv_inv out {} {} N) (convert_counter io counter) (\<lambda>_. conv_inv out {} {} N)"
  unfolding convert_counter_def event_writers Let_def
proof (rule triple_gets_bind)
  fix c0 :: "'a PerfettoConverter"
  let ?t = "counter_track_id counter"
  let ?wr = "\<lambda>u. with_writer (write_packet io (TracePacket_default\<lparr>pkt_data := Some (Data_TrackEvent
    (TrackEvent_default\<lparr>ev_track_uuid := Some u, ev_type := Some Type_Counter,
      ev_counter_value := Some (DoubleCounterValue (counter_value counter))\<rparr>)),
    pkt_timestamp := Some (counter_timestamp counter)\<rparr>) None)"
  have "triple (conv_inv out {} {(?t, u)} N) (?wr u) (\<lambda>_. conv_inv out {} {(?t, u)} N)" for u
    by (rule with_writer_event [OF sink]) auto
  note counter = triple_conseq [OF this]
  show "triple (\<lambda>c. conv_inv out {} {} N c \<and> track_map c ?t = track_map c0 ?t)
      (case track_map c0 ?t of None \<Rightarrow> ret () | Some u \<Rightarrow> ?wr u) (\<lambda>_. conv_inv out {} {} N)"
    by (cases "track_map c0 ?t") (auto intro!: triple_ret counter intro: conv_inv_know elim: conv_inv_mono)
qed

definition no_thread_process :: "TrackId set \<Rightarrow> bool" where
  "no_thread_process A \<longleftrightarrow> (\<forall>t p. TrackId_Thread t p \<notin> A) \<and> (\<forall>p. TrackId_Process p \<notin> A)"

lemma parent_track_uuid_inv:
  assumes sink: "packet_sink io out" and N: "N + 2 < 2 ^ 64" and A: "no_thread_process A"
  shows "triple (conv_inv out A {} N) (parent_track_uuid io ty)
    (\<lambda>r c. conv_inv out A {} (N + 2) c \<and> (\<forall>u. r = Ok u \<longrightarrow> u = 0 \<or> list_ex (declares u) (written out c)))"
    (is "triple _ _ ?Q")
proof (cases ty)
  case None
  then show ?thesis by (auto simp: parent_track_uuid_def intro!: triple_ret elim: conv_inv_mono)
next
  case (Some parent)
  let ?t = "to_id parent"
  have thread: "triple (conv_inv out A {} N) (try_bind (ensure_thread_track io p t None) (\<lambda>uuid.
      try_bind (track_insert ?t uuid) (\<lambda>_. ret uuid))) ?Q" if "parent = TrackType_Thread t p" for t p
    unfolding that to_id.simps
    by (rule triple_conseq [OF insert_same [OF ensure_thread_track_inv [OF sink N]]])
      (use A in \<open>auto simp: no_thread_process_def intro: conv_inv_mapped\<close>)
  have process: "triple (conv_inv out A {} N) (try_bind (ensure_process_track io p None) (\<lambda>uuid.
      try_bind (track_insert ?t uuid) (\<lambda>_. ret uuid))) ?Q" if "parent = TrackType_Process p" for p
    unfolding that to_id.simps
    by (rule triple_conseq [OF insert_same [OF ensure_process_track_inv [OF sink, of N]]])
      (use N A in \<open>auto simp: no_thread_process_def intro: conv_inv_mapped elim: conv_inv_mono\<close>)
  show ?thesis
    unfolding parent_track_uuid_def Some option.case Let_def
  proof (rule triple_gets_bind)
    fix c0 :: "'a PerfettoConverter"
    let ?P = "\<lambda>c. conv_inv out A {} N c \<and> track_map c ?t = track_map c0 ?t"
    let ?other = "gets (\<lambda>c. case track_map c ?t of Some uuid \<Rightarrow> uuid | None \<Rightarrow> 0)"
    have other: "triple (conv_inv out A {} N) ?other ?Q"
      by (rule triple_gets) (auto split: option.splits intro: conv_inv_mapped elim: conv_inv_mono)
    have "triple (conv_inv out A {} N)
      (case parent of
         TrackType_Thread t p \<Rightarrow> try_bind (ensure_thread_track io p t None) (\<lambda>uuid. try_bind (track_insert ?t uuid) (\<lambda>_. ret uuid))
       | TrackType_Process p \<Rightarrow> try_bind (ensure_process_track io p None) (\<lambda>uuid. try_bind (track_insert ?t uuid) (\<lambda>_. ret uuid))
       | _ \<Rightarrow> ?other) ?Q"
      using thread process other by (cases parent) simp_all
    note new = triple_conseq [OF this]
    show "triple ?P
      (case track_map c0 ?t of
         None \<Rightarrow> (case parent of
             TrackType_Thread t p \<Rightarrow> try_bind (ensure_thread_track io p t None) (\<lambda>uuid. try_bind (track_insert ?t uuid) (\<lambda>_. ret uuid))
           | TrackType_Process p \<Rightarrow> try_bind (ensure_process_track io p None) (\<lambda>uuid. try_bind (track_insert ?t uuid) (\<lambda>_. ret uuid))
           | _ \<Rightarrow> ?other)
       | Some uuid \<Rightarrow> ret uuid) ?Q"
    proof (cases "track_map c0 ?t")
      case None
      show ?thesis unfolding None option.case by (rule new) auto
    next
      case (Some u)
      show ?thesis unfolding Some option.case
        by (rule triple_ret) (auto intro: conv_inv_mapped elim: conv_inv_mono)
    qed
  qed
qed

lemma declare_under_parent:
  assumes em: "\<And>q s r s'. m q s = (r, s') \<Longrightarrow>
      emits out s (descriptor_packet (d q (track_uuid_counter s))) 1 r s' \<and> (\<forall>u. r = Ok u \<longrightarrow> u = track_uuid_counter s)"
    and d: "\<And>q u. desc_uuid (d q u) = Some u" "\<And>q u. describes tid (d q u)"
      "\<And>q u. desc_parent_uuid (d q u) = Some q \<or> q = 0 \<and> desc_parent_uuid (d q u) = None"
      "\<And>q u u'. desc_parent_uuid (d q u) = desc_parent_uuid (d q u')"
    and sink: "packet_sink io out" and N: "N + 3 < 2 ^ 64" and tid: "no_thread_process {tid}"
  shows "triple (\<lambda>c. conv_inv out {} {} N c \<and> track_map c tid = None)
    (try_bind (parent_track_uuid io ty) (\<lambda>q.
      try_bind (with_writer (m q)) (\<lambda>u. try_bind (track_insert tid u) (\<lambda>_. ret ()))))
    (\<lambda>_. conv_inv out {} {} (N + 3))"
proof (rule triple_conseq)
  have N2: "N + 2 < 2 ^ 64" "N + 2 + 1 < 2 ^ 64" using N by simp_all
  show "triple (conv_inv out {tid} {} N)
    (try_bind (parent_track_uuid io ty) (\<lambda>q.
      try_bind (with_writer (m q)) (\<lambda>u. try_bind (track_insert tid u) (\<lambda>_. ret ()))))
    (\<lambda>_. conv_inv out {} {} (N + 2 + 1))"
  proof (rule triple_bind [OF parent_track_uuid_inv [OF sink N2(1) tid]])
    fix q
    have "triple (\<lambda>c. conv_inv out {} {} (N + 2) c \<and> track_map c tid = None \<and>
        (\<forall>u. desc_parent_uuid (d q 0) = Some u \<longrightarrow> u = 0 \<or> list_ex (declares u) (written out c)))
      (try_bind (with_writer (m q)) (\<lambda>u. try_bind (track_insert tid u) (\<lambda>_. ret ())))
      (\<lambda>_. conv_inv out {} {} (N + 2 + 1))"
      by (rule declare_and_insert [where d = "d q" and m = "m q", OF em d(1,2,4) N2(2)])
        (simp_all add: triple_def)
    then show "triple (\<lambda>c. conv_inv out {tid} {} (N + 2) c \<and>
        (\<forall>u. Ok q = Ok u \<longrightarrow> u = 0 \<or> list_ex (declares u) (written out c)))
      (try_bind (with_writer (m q)) (\<lambda>u. try_bind (track_insert tid u) (\<lambda>_. ret ())))
      (\<lambda>_. conv_inv out {} {} (N + 2 + 1))"
    proof (rule triple_conseq)
      fix c
      assume c: "conv_inv out {tid} {} (N + 2) c \<and> (\<forall>u. Ok q = Ok u \<longrightarrow> u = 0 \<or> list_ex (declares u) (written out c))"
      then have "conv_inv out {} {} (N + 2) c" "track_map c tid = None"
        by (auto elim: conv_inv_mono conv_inv_A)
      then show "conv_inv out {} {} (N + 2) c \<and> track_map c tid = None \<and>
          (\<forall>u. desc_parent_uuid (d q 0) = Some u \<longrightarrow> u = 0 \<or> list_ex (declares u) (written out c))"
        using c d(3) [of q 0] by auto
    qed
  qed (auto elim: conv_inv_mono)
qed (auto intro: conv_inv_know elim: conv_inv_mono)

lemma ensure_under_parent:
  assumes m: "\<And>N. N + 2 < 2 ^ 64 \<Longrightarrow> triple (conv_inv out {} {} N) m
      (\<lambda>r c. conv_inv out {} {} (N + 2) c \<and> (\<forall>u. r = Ok u \<longrightarrow> track_map c tid = Some u))"
    and sink: "packet_sink io out" and N: "N + 4 < 2 ^ 64"
  shows "triple (conv_inv out {} {} N)
    (try_bind (parent_track_uuid io ty) (\<lambda>q. try_bind m (\<lambda>u. try_bind (track_insert tid u) (\<lambda>_. ret ()))))
    (\<lambda>_. conv_inv out {} {} (N + 4))"
proof (rule triple_bind [OF parent_track_uuid_inv [OF sink]])
  fix q
  have "N + 2 + 2 < 2 ^ 64" using N by simp
  then show "triple (\<lambda>c. conv_inv out {} {} (N + 2) c \<and> (\<forall>u. Ok q = Ok u \<longrightarrow> u = 0 \<or> list_ex (declares u) (written out c)))
      (try_bind m (\<lambda>u. try_bind (track_insert tid u) (\<lambda>_. ret ()))) (\<lambda>_. conv_inv out {} {} (N + 4))"
    by (intro triple_conseq [OF insert_same [OF m]]) (auto elim: conv_inv_mono)
qed (use N in \<open>auto simp: no_thread_process_def elim: conv_inv_mono\<close>)

lemma convert_track_inv:
  assumes sink: "packet_sink io out" and N: "N + 4 < 2 ^ 64"
  shows "triple (conv_inv out {} {} N) (convert_track io track) (\<lambda>_. conv_inv out {} {} (N + 4))"
  unfolding convert_track_def Let_def
proof (rule triple_gets_bind)
  fix c0 :: "'a PerfettoConverter"
  let ?ty = "track_type track" and ?p = "track_parent track" and ?n = "track_name track"
  let ?t = "to_id ?ty"
  let ?Q = "\<lambda>_. conv_inv out {} {} (N + 4)"
  let ?P = "\<lambda>c. conv_inv out {} {} N c \<and> track_map c ?t = None"
  let ?under = "\<lambda>m. try_bind (parent_track_uuid io ?p) (\<lambda>q.
    try_bind (m q) (\<lambda>u. try_bind (track_insert ?t u) (\<lambda>_. ret ())))"
  let ?generic = "\<lambda>q u. TrackDescriptor_default\<lparr>desc_uuid := Some u,
    desc_parent_uuid := (if q > 0 then Some q else None), desc_name := Some ?n\<rparr>"
  let ?counter = "\<lambda>w q u. TrackDescriptor_default\<lparr>desc_uuid := Some u,
    desc_parent_uuid := Some q, desc_name := Some ?n, desc_counter := Some \<lparr>cd_unit_name = w\<rparr>\<rparr>"
  have N3: "N + 3 < 2 ^ 64" using N by simp
  have generic: "triple ?P (?under (\<lambda>q. with_writer (write_generic_track io ?n q))) ?Q"
    if "(\<exists>x. ?ty = TrackType_Cpu x) \<or> (\<exists>x. ?ty = TrackType_Custom x)"
    by (rule triple_conseq [OF declare_under_parent [where d = ?generic, OF write_generic_track_emits [OF sink] _ _ _ _ sink N3]])
      (use that in \<open>auto simp: TrackDescriptor_default_def no_thread_process_def word_gt_0 elim: conv_inv_mono\<close>)
  have counter: "triple ?P (?under (\<lambda>q. with_writer (write_counter_track io ?n w q))) ?Q"
    if "?ty = TrackType_Counter x w" for x w
    by (rule triple_conseq [OF declare_under_parent [where d = "?counter w", OF write_counter_track_emits [OF sink] _ _ _ _ sink N3]])
      (use that in \<open>auto simp: TrackDescriptor_default_def no_thread_process_def elim: conv_inv_mono\<close>)
  have thread: "triple ?P (?under (\<lambda>_. ensure_thread_track io p t (Some ?n))) ?Q"
    if "?ty = TrackType_Thread t p" for t p
    unfolding that to_id.simps
    by (rule triple_conseq [OF ensure_under_parent [OF ensure_thread_track_inv [OF sink] sink N]]) auto
  have process: "triple ?P (?under (\<lambda>_. ensure_process_track io p (Some ?n))) ?Q"
    if "?ty = TrackType_Process p" for p
    unfolding that to_id.simps
    by (rule triple_conseq [OF ensure_under_parent [OF triple_conseq [OF ensure_process_track_inv [OF sink]] sink N]])
      (auto elim: conv_inv_mono)
  have "triple ?P (?under (\<lambda>q. case ?ty of
            TrackType_Cpu _ \<Rightarrow> with_writer (write_generic_track io ?n q)
          | TrackType_Custom _ \<Rightarrow> with_writer (write_generic_track io ?n q)
          | TrackType_Counter _ u \<Rightarrow> with_writer (write_counter_track io ?n u q)
          | TrackType_Thread tid pid \<Rightarrow> ensure_thread_track io pid tid (Some ?n)
          | TrackType_Process pid \<Rightarrow> ensure_process_track io pid (Some ?n))) ?Q"
    using generic counter thread process by (cases ?ty) auto
  then show "triple (\<lambda>c. conv_inv out {} {} N c \<and> track_map c ?t = track_map c0 ?t)
      (if track_map c0 ?t \<noteq> None then ret ()
       else ?under (\<lambda>q. case ?ty of
            TrackType_Cpu _ \<Rightarrow> with_writer (write_generic_track io ?n q)
          | TrackType_Custom _ \<Rightarrow> with_writer (write_generic_track io ?n q)
          | TrackType_Counter _ u \<Rightarrow> with_writer (write_counter_track io ?n u q)
          | TrackType_Thread tid pid \<Rightarrow> ensure_thread_track io pid tid (Some ?n)
          | TrackType_Process pid \<Rightarrow> ensure_process_track io pid (Some ?n))) ?Q"
    by (auto intro!: triple_ret elim: conv_inv_mono)
qed

lemma with_writer_plain:
  assumes "packet_sink io out" "pkt_data p = None \<or> (\<exists>x. pkt_data p = Some (Data_PerfSample x))"
  shows "triple (conv_inv out A M N) (with_writer (write_packet io p i)) (\<lambda>_. conv_inv out A M N)"
  by (rule with_writer_old [OF write_packet_emits [OF assms(1)]])
    (use assms(2) in \<open>auto simp: packet_ok_def declares_def\<close>)

lemma convert_message_inv:
  assumes sink: "packet_sink io out" and N: "N + 4 < 2 ^ 64"
  shows "triple (conv_inv out {} {} N) (convert_message io m) (\<lambda>_. conv_inv out {} {} (N + 4))"
proof -
  have N2: "N + 2 < 2 ^ 64" using N by simp
  have interned: "triple (conv_inv out {} {} N) (convert_interned_data I io d i) (\<lambda>_. conv_inv out {} {} (N + 4))" for I d i
  proof -
    have "triple (conv_inv out {} {} N) (with_writer (write_protocol_interned_data I io d i)) (\<lambda>_. conv_inv out {} {} N)"
      unfolding write_protocol_interned_data_def Let_def write_interned_data_def write_interned_data_next_def
        if_distrib [of with_writer]
      by (intro triple_if with_writer_plain [OF sink]) (simp_all add: TracePacket_default_def)
    then show ?thesis unfolding convert_interned_data_def
      by (rule triple_bind) (auto intro!: triple_ret elim: conv_inv_mono)
  qed
  have sample: "triple (conv_inv out {} {} N) (with_writer (write_perf_sample io a b c d e i)) (\<lambda>_. conv_inv out {} {} (N + 4))"
    for a b c d e i
    unfolding write_perf_sample_def Let_def
    by (rule triple_conseq [OF with_writer_plain [OF sink]]) (auto elim: conv_inv_mono)
  have "triple (conv_inv out {} {} N) (convert_event io e i) (\<lambda>_. conv_inv out {} {} (N + 4))" for e i
  proof (cases e)
    case (Event_Sample s)
    then show ?thesis using sample
      by (auto simp: convert_event_def split: TrackId.split intro!: triple_ret elim: conv_inv_mono)
  next
    case (Event_Span s)
    then show ?thesis
      by (auto simp: convert_event_def intro!: triple_conseq [OF convert_span_inv [OF sink N2]] elim: conv_inv_mono)
  next
    case (Event_Instant s)
    then show ?thesis
      by (auto simp: convert_event_def intro!: triple_conseq [OF convert_instant_inv [OF sink N2]] elim: conv_inv_mono)
  next
    case (Event_Counter s)
    then show ?thesis
      by (auto simp: convert_event_def intro!: triple_conseq [OF convert_counter_inv [OF sink]] elim: conv_inv_mono)
  qed (simp_all add: convert_event_def interned convert_track_inv [OF sink N])
  then show ?thesis by (cases m) (simp_all add: convert_message_def)
qed

section \<open>The trace of a session\<close>

text \<open>
  The collector converts one message after another and goes on after an error, which it only logs.
\<close>

primrec convert_all :: "('w, 'b) io \<Rightarrow> Message list \<Rightarrow> 'w PerfettoConverter \<Rightarrow> 'w PerfettoConverter" where
  "convert_all io [] c = c"
| "convert_all io (m # ms) c = convert_all io ms (snd (convert_message io m c))"

lemma convert_all_inv:
  assumes "packet_sink io out"
  shows "conv_inv out {} {} N c \<Longrightarrow> N + 4 * length ms < 2 ^ 64 \<Longrightarrow>
    conv_inv out {} {} (N + 4 * length ms) (convert_all io ms c)"
proof (induction ms arbitrary: N c)
  case (Cons m ms)
  have "conv_inv out {} {} (N + 4) (snd (convert_message io m c))"
    by (rule triple_snd [OF convert_message_inv [OF assms]]) (use Cons.prems in auto)
  from Cons.IH [OF this] show ?case using Cons.prems by (simp add: algebra_simps)
qed simp

lemma conv_inv_new_converter: "out w = [] \<Longrightarrow> conv_inv out {} {} 1000 (PerfettoConverter_new w)"
  by (simp add: conv_inv_def PerfettoConverter_new_def PerfettoStreamWriter_new_def written_def)

text \<open>
  C13 (well-formed traces): converting any sequence of up to \<open>2 ^ 61\<close> messages, whatever errors the
  writer reports on the way, leaves a trace in which every track event is on a track declared by an
  earlier packet and every declared track hangs below the root or an earlier one.  The track map
  sends every known track to the uuid of a descriptor that describes it, and different tracks to
  different uuids.
\<close>

theorem trace_well_formed:
  assumes "packet_sink io out" "out w = []" "length ms \<le> 2 ^ 61"
  shows "let c = convert_all io ms (PerfettoConverter_new w) in
    trace_ok (written out c) \<and>
    (\<forall>tid u. track_map c tid = Some u \<longrightarrow> list_ex (declares_as tid u) (written out c)) \<and>
    inj_on (track_map c) (dom (track_map c))"
  using convert_all_inv [OF assms(1) conv_inv_new_converter [of out w, OF assms(2)], of ms] assms(3)
  by (simp add: conv_inv_def Let_def)

definition example_messages :: "Message list" where
  "example_messages =
    [Message_Event (Event_Span \<lparr>span_name = ''s'', span_id = 1, start_timestamp = 5, end_timestamp = 9,
       span_track_id = TrackId_Thread 7 3, span_labels = Labels_new\<rparr>),
     Message_Event (Event_Track \<lparr>track_name = ''rss'', track_type = TrackType_Counter 4 None,
       track_parent = Some (TrackType_Process 3)\<rparr>),
     Message_Stream 2 (Event_Counter \<lparr>counter_name = ''rss'', counter_value = 0, counter_timestamp = 6,
       counter_track_id = TrackId_Counter 4, counter_labels = Labels_new, counter_unit = None\<rparr>)]"

lemmas converter_eval = convert_message_def convert_event_def convert_span_def convert_track_def convert_counter_def
  parent_track_uuid_def event_track_def ensure_thread_track_def ensure_process_track_def track_insert_def
  with_writer_def on_field_def try_bind_def write_process_descriptor_def write_thread_descriptor_def
  write_thread_descriptor_with_uuid_def write_counter_track_def write_slice_begin_def write_slice_end_def
  write_double_counter_value_def write_packet_def next_track_uuid_def Let_def log_io_def
  PerfettoConverter_new_def PerfettoStreamWriter_new_def TrackDescriptor_default_def TrackEvent_default_def
  TracePacket_default_def create_debug_annotations_def Labels_iterator_def Labels_new_def

theorem trace_well_formed_witness:
  "(let c = convert_all log_io example_messages (PerfettoConverter_new []) in
     trace_ok (written (\<lambda>w. w) c) \<and> length (written (\<lambda>w. w) c) = 6 \<and> inj_on (track_map c) (dom (track_map c)))"
proof -
  have "length (written (\<lambda>w. w) (convert_all log_io example_messages (PerfettoConverter_new []))) = 6"
    by (simp add: example_messages_def written_def converter_eval)
  then show ?thesis
    using trace_well_formed [OF packet_sink_log_io, of "[]" example_messages]
    by (simp add: example_messages_def Let_def)
qed

section \<open>Spans\<close>

definition appends :: "('w \<Rightarrow> TracePacket list) \<Rightarrow> ('w, 'a) conv \<Rightarrow> bool" where
  "appends out m \<longleftrightarrow> (\<forall>c r c'. m c = (r, c') \<longrightarrow> prefix (written out c) (written out c'))"

lemma appends_bind: "appends out m \<Longrightarrow> (\<And>a. appends out (k a)) \<Longrightarrow> appends out (try_bind m k)"
  by (fastforce simp: appends_def try_bind_def split: prod.splits sum.splits elim: prefix_order.order_trans)

lemma appends_simps [simp]: "appends out (ret a)" "appends out (gets f)" "appends out (track_insert t u)"
  by (simp_all add: appends_def track_insert_def written_def)

lemma appends_writer: "(\<And>s r s'. m s = (r, s') \<Longrightarrow> \<exists>p k. emits out s p k r s') \<Longrightarrow> appends out (with_writer m)"
  by (fastforce simp: appends_def with_writer_def on_field_def emits_def written_def split: prod.splits)

lemma appends_ensure_process: "packet_sink io out \<Longrightarrow> appends out (ensure_process_track io pid name)"
  unfolding ensure_process_track_def
  by (intro appends_bind appends_simps)
    (auto split: option.split intro!: appends_bind appends_writer dest: write_process_descriptor_emits)

lemma appends_ensure_thread: "packet_sink io out \<Longrightarrow> appends out (ensure_thread_track io pid tid name)"
  unfolding ensure_thread_track_def
  by (intro appends_bind appends_simps)
    (auto split: option.split intro!: appends_bind appends_writer appends_ensure_process
      dest: write_thread_descriptor_emits write_thread_descriptor_with_uuid_emits)

lemma appends_event_track: "packet_sink io out \<Longrightarrow> appends out (event_track io tid)"
  unfolding event_track_def
  by (intro appends_bind appends_simps)
    (auto split: option.split TrackId.split intro!: appends_bind appends_ensure_process appends_ensure_thread)

lemma with_writer_Ok:
  assumes "packet_sink io out"
    "with_writer (write_packet io (TracePacket_default\<lparr>pkt_data := Some (Data_TrackEvent e), pkt_timestamp := Some ts\<rparr>) None) c = (Ok a, c')"
  shows "written out c' = written out c @ [event_packet e ts] \<and> track_map c' = track_map c"
  using assms(2) write_event_emits [OF assms(1)]
  by (auto simp: with_writer_def on_field_def emits_def written_def split: prod.splits)

definition span_packets :: "'l LabelIterator \<Rightarrow> u64 \<Rightarrow> string \<Rightarrow> u64 \<Rightarrow> u64 \<Rightarrow> 'l \<Rightarrow> TracePacket list" where
  "span_packets L u name start_ts end_ts labels =
    [event_packet (TrackEvent_default\<lparr>ev_name := Some name, ev_track_uuid := Some u, ev_type := Some SliceBegin,
       ev_debug_annotations := create_debug_annotations L labels\<rparr>) start_ts,
     event_packet (TrackEvent_default\<lparr>ev_track_uuid := Some u, ev_type := Some SliceEnd\<rparr>) end_ts]"



section \<open>Names that arrive late\<close>

text \<open>
  Once a span on a thread has been converted, a track message that names
  the thread writes nothing, so the trace never shows the name; the branch of
  \<open>ensure_thread_track\<close> that writes the descriptor again under the same uuid is not reached.
\<close>

theorem late_thread_name_dropped:
  assumes "convert_span L io (TrackId_Thread tid pid) name start_ts end_ts labels c = (Ok (), c1)"
    "track_type track = TrackType_Thread tid pid"
  shows "convert_track io track c1 = (Ok (), c1)"
proof -
  obtain t c2 where ev: "event_track io (TrackId_Thread tid pid) c = (Ok t, c2)"
    using assms(1) unfolding convert_span_def by (elim try_bind_OkE)
  then have "t \<noteq> None" "track_map c2 (TrackId_Thread tid pid) = t"
    by (cases "track_map c (TrackId_Thread tid pid)";
        auto simp: event_track_def try_bind_def track_insert_def split: sum.splits prod.splits)+
  then obtain u where t: "t = Some u" "track_map c2 (TrackId_Thread tid pid) = Some u" by auto
  have "track_map c1 = track_map c2"
    using assms(1) ev t(1)
    by (auto simp: convert_span_def try_bind_def with_writer_def on_field_def Let_def split: prod.splits sum.splits)
  then show ?thesis using assms(2) t(2) by (simp add: convert_track_def Let_def)
qed

theorem late_thread_name_dropped_witness:
  "(let c1 = snd (convert_span Labels_iterator log_io (TrackId_Thread 7 3) ''s'' 5 9 Labels_new (PerfettoConverter_new []))
    in convert_track log_io \<lparr>track_name = ''worker'', track_type = TrackType_Thread 7 3, track_parent = None\<rparr> c1 = (Ok (), c1))"
proof -
  let ?r = "convert_span Labels_iterator log_io (TrackId_Thread 7 3) ''s'' 5 9 Labels_new (PerfettoConverter_new [])"
  have r: "?r = (Ok (), snd ?r)" by (simp add: converter_eval)
  show ?thesis using late_thread_name_dropped [OF r] by simp
qed

end
