(* ===== verification/Serialize.thy ===== *)
theory Serialize
  imports Prelude
begin

text \<open>
  Serialisation into a caller's buffer (protocol/src/lib.rs): the two writers, \<open>compute_length\<close> and
  \<open>serialize_to_buf\<close>.

  The serialiser is the rkyv crate.  It sees a writer through the trait \<open>Writer\<close> only: it writes a
  chunk, asks for the position, and goes on depending on the answer, until it is done or fails.  A
  value's serialisation is therefore a tree of type \<open>ser\<close>, an argument of everything here, and
  \<open>to_bytes_in\<close> runs it against a writer.
\<close>

section \<open>Definitions\<close>

datatype RancorError = OutOfSpaceError | SerError string

datatype ser = Done | Fail string | Write "u8 list" "usize \<Rightarrow> ser"

primrec to_bytes_in ::
  "('w \<Rightarrow> u8 list \<Rightarrow> RancorError option \<times> 'w) \<Rightarrow> ('w \<Rightarrow> usize) \<Rightarrow> ser \<Rightarrow> 'w \<Rightarrow> RancorError option \<times> 'w" where
  "to_bytes_in wr ps Done w = (None, w)"
| "to_bytes_in wr ps (Fail e) w = (Some (SerError e), w)"
| "to_bytes_in wr ps (Write xs k) w =
    (case wr w xs of
       (Some e, w') \<Rightarrow> (Some e, w')
     | (None, w') \<Rightarrow> to_bytes_in wr ps (k (ps w')) w')"

record CountingWriter =
  write_count :: usize
  total_bytes :: usize

definition CountingWriter_new :: CountingWriter where
  "CountingWriter_new = \<lparr>write_count = 0, total_bytes = 0\<rparr>"

definition CountingWriter_pos :: "CountingWriter \<Rightarrow> usize" where
  "CountingWriter_pos w = total_bytes w"

definition CountingWriter_write :: "CountingWriter \<Rightarrow> u8 list \<Rightarrow> RancorError option \<times> CountingWriter" where
  "CountingWriter_write w xs =
    (None, w\<lparr>write_count := write_count w + 1, total_bytes := total_bytes w + word_of_nat (length xs)\<rparr>)"

record SliceWriter =
  sw_buf :: "u8 list"
  sw_pos :: usize

definition SliceWriter_new :: "u8 list \<Rightarrow> SliceWriter" where
  "SliceWriter_new buf = \<lparr>sw_buf = buf, sw_pos = 0\<rparr>"

definition SliceWriter_pos :: "SliceWriter \<Rightarrow> usize" where
  "SliceWriter_pos w = sw_pos w"

definition SliceWriter_write :: "SliceWriter \<Rightarrow> u8 list \<Rightarrow> RancorError option \<times> SliceWriter" where
  "SliceWriter_write w xs =
    (if sw_pos w + word_of_nat (length xs) > word_of_nat (length (sw_buf w))
     then (Some OutOfSpaceError, w)
     else (None, w\<lparr>sw_buf := take (unat (sw_pos w)) (sw_buf w) @ xs @ drop (unat (sw_pos w) + length xs) (sw_buf w),
                   sw_pos := sw_pos w + word_of_nat (length xs)\<rparr>))"

definition serialize_to_buf :: "ser \<Rightarrow> u8 list \<Rightarrow> RancorError option \<times> u8 list" where
  "serialize_to_buf value buf =
    (let (r, w) = to_bytes_in SliceWriter_write SliceWriter_pos value (SliceWriter_new buf) in (r, sw_buf w))"

definition compute_length :: "ser \<Rightarrow> (RancorError, usize) result" where
  "compute_length value =
    (case to_bytes_in CountingWriter_write CountingWriter_pos value CountingWriter_new of
       (Some e, _) \<Rightarrow> Err e
     | (None, w) \<Rightarrow> Ok (total_bytes w))"

text \<open>The reference: the bytes of a value serialised into an unbounded buffer from position \<open>p\<close>.\<close>

primrec ser_bytes :: "ser \<Rightarrow> nat \<Rightarrow> (string, u8 list) result" where
  "ser_bytes Done p = Ok []"
| "ser_bytes (Fail e) p = Err e"
| "ser_bytes (Write xs k) p =
    (case ser_bytes (k (word_of_nat (p + length xs))) (p + length xs) of
       Inl e \<Rightarrow> Err e
     | Inr ys \<Rightarrow> Ok (xs @ ys))"

definition slice_inv :: "u8 list \<Rightarrow> SliceWriter \<Rightarrow> bool" where
  "slice_inv buf w \<longleftrightarrow> unat (sw_pos w) \<le> length buf \<and> length buf < 2 ^ 63 \<and>
    length (sw_buf w) = length buf \<and> drop (unat (sw_pos w)) (sw_buf w) = drop (unat (sw_pos w)) buf"

section \<open>The writer interface\<close>

text \<open>
  What the serialiser relies on: while there is room, a write succeeds and moves the position by the
  length of the chunk.  A bounded writer also keeps what it wrote and refuses a chunk that does not
  fit.
\<close>

locale byte_writer =
  fixes wr :: "'w \<Rightarrow> u8 list \<Rightarrow> RancorError option \<times> 'w"
    and ps :: "'w \<Rightarrow> usize"
    and inv :: "'w \<Rightarrow> bool"
    and room :: "'w \<Rightarrow> nat"
  assumes write_ok: "inv w \<Longrightarrow> length xs \<le> room w \<Longrightarrow>
      \<exists>w'. wr w xs = (None, w') \<and> inv w' \<and> room w' = room w - length xs \<and> unat (ps w') = unat (ps w) + length xs"
begin

lemma step_Write:
  assumes "inv w" "ser_bytes (Write xs k) (unat (ps w)) = Ok ys" "length xs \<le> room w"
  obtains w' zs where "wr w xs = (None, w')" "inv w'" "room w' = room w - length xs"
    "unat (ps w') = unat (ps w) + length xs" "ser_bytes (k (ps w')) (unat (ps w')) = Ok zs" "ys = xs @ zs"
proof -
  obtain zs where z: "ser_bytes (k (word_of_nat (unat (ps w) + length xs))) (unat (ps w) + length xs) = Ok zs"
    "ys = xs @ zs"
    using assms(2) by (auto split: sum.splits)
  obtain w' where w': "wr w xs = (None, w')" "inv w'" "room w' = room w - length xs"
    "unat (ps w') = unat (ps w) + length xs"
    using write_ok [OF assms(1,3)] by auto
  have "ps w' = word_of_nat (unat (ps w) + length xs)" using w'(4) by (rule word_eq_of_unat)
  then have "ser_bytes (k (ps w')) (unat (ps w')) = Ok zs" using z(1) w'(4) by simp
  with w' z(2) show thesis by (intro that)
qed

lemma run_ok:
  "inv w \<Longrightarrow> ser_bytes v (unat (ps w)) = Ok ys \<Longrightarrow> length ys \<le> room w \<Longrightarrow>
    \<exists>w'. to_bytes_in wr ps v w = (None, w') \<and> inv w' \<and> room w' = room w - length ys \<and>
      unat (ps w') = unat (ps w) + length ys"
proof (induction v arbitrary: w ys)
  case (Write xs k)
  have "length xs \<le> room w" using Write.prems(2,3) by (auto split: sum.splits)
  then obtain w' zs where w': "wr w xs = (None, w')" "inv w'" "room w' = room w - length xs"
    "unat (ps w') = unat (ps w) + length xs" "ser_bytes (k (ps w')) (unat (ps w')) = Ok zs" "ys = xs @ zs"
    using step_Write [OF Write.prems(1,2)] by blast
  have "length zs \<le> room w'" using w' Write.prems(3) by simp
  from Write.IH [OF rangeI w'(2,5) this] show ?case using w' by (auto simp: add.assoc)
qed auto

end

locale bounded_writer = byte_writer +
  fixes out :: "'a \<Rightarrow> u8 list"
  assumes write_out: "inv w \<Longrightarrow> length xs \<le> room w \<Longrightarrow> out (snd (wr w xs)) = out w @ xs"
    and write_full: "inv w \<Longrightarrow> room w < length xs \<Longrightarrow> length xs < 2 ^ 63 \<Longrightarrow> fst (wr w xs) = Some OutOfSpaceError"
begin

lemma run_out:
  "inv w \<Longrightarrow> ser_bytes v (unat (ps w)) = Ok ys \<Longrightarrow> length ys \<le> room w \<Longrightarrow>
    out (snd (to_bytes_in wr ps v w)) = out w @ ys"
proof (induction v arbitrary: w ys)
  case (Write xs k)
  have le: "length xs \<le> room w" using Write.prems(2,3) by (auto split: sum.splits)
  then obtain w' zs where w': "wr w xs = (None, w')" "inv w'" "room w' = room w - length xs"
    "unat (ps w') = unat (ps w) + length xs" "ser_bytes (k (ps w')) (unat (ps w')) = Ok zs" "ys = xs @ zs"
    using step_Write [OF Write.prems(1,2)] by blast
  have "out w' = out w @ xs" using write_out [OF Write.prems(1) le] w'(1) by simp
  with Write.IH [OF rangeI w'(2,5)] show ?case using w' Write.prems(3) by auto
qed auto

lemma run_full:
  "inv w \<Longrightarrow> ser_bytes v (unat (ps w)) = Ok ys \<Longrightarrow> room w < length ys \<Longrightarrow> length ys < 2 ^ 63 \<Longrightarrow>
    fst (to_bytes_in wr ps v w) = Some OutOfSpaceError"
proof (induction v arbitrary: w ys)
  case (Write xs k)
  show ?case
  proof (cases "length xs \<le> room w")
    case True
    then obtain w' zs where w': "wr w xs = (None, w')" "inv w'" "room w' = room w - length xs"
      "unat (ps w') = unat (ps w) + length xs" "ser_bytes (k (ps w')) (unat (ps w')) = Ok zs" "ys = xs @ zs"
      using step_Write [OF Write.prems(1,2)] by blast
    from Write.IH [OF rangeI w'(2,5)] show ?thesis using w' True Write.prems(3,4) by simp
  next
    case False
    have "length xs < 2 ^ 63" using Write.prems(2,4) by (auto split: sum.splits)
    with write_full [OF Write.prems(1), of xs] False show ?thesis by (cases "wr w xs") auto
  qed
qed auto

end

lemma unat_add_of_nat:
  fixes t :: usize
  assumes "n \<le> 2 ^ 64 - 1 - unat t"
  shows "unat (t + word_of_nat n) = unat t + n"
proof -
  have "unat t + n < 2 ^ LENGTH(64)" using assms unat_lt [of t] by simp
  then show ?thesis by (simp add: unat_word_ariths(1) unat_of_nat mod_add_right_eq)
qed

interpretation cw: byte_writer CountingWriter_write CountingWriter_pos "\<lambda>_. True" "\<lambda>w. 2 ^ 64 - 1 - unat (total_bytes w)"
  by unfold_locales (simp add: CountingWriter_write_def CountingWriter_pos_def unat_add_of_nat)

lemma slice_fits:
  assumes "slice_inv buf w" "length xs < 2 ^ 63"
  shows "unat (sw_pos w + word_of_nat (length xs)) = unat (sw_pos w) + length xs"
    "sw_pos w + word_of_nat (length xs) > word_of_nat (length (sw_buf w)) \<longleftrightarrow>
      length (sw_buf w) < unat (sw_pos w) + length xs"
proof -
  show u: "unat (sw_pos w + word_of_nat (length xs)) = unat (sw_pos w) + length xs"
    using assms by (simp add: slice_inv_def unat_word_ariths unat_of_nat)
  show "sw_pos w + word_of_nat (length xs) > word_of_nat (length (sw_buf w)) \<longleftrightarrow>
      length (sw_buf w) < unat (sw_pos w) + length xs"
    using assms by (simp add: word_less_nat_alt u slice_inv_def unat_of_nat)
qed

lemma drop_drop_add: "drop p xs = drop p ys \<Longrightarrow> drop (p + n) xs = drop (p + n) ys"
  by (metis add.commute drop_drop)

interpretation sw: bounded_writer SliceWriter_write SliceWriter_pos "slice_inv buf"
  "\<lambda>w. length (sw_buf w) - unat (sw_pos w)" "\<lambda>w. take (unat (sw_pos w)) (sw_buf w)" for buf
proof
  fix w :: SliceWriter and xs :: "u8 list"
  assume w: "slice_inv buf w"
  { assume le: "length xs \<le> length (sw_buf w) - unat (sw_pos w)"
    then have "length xs < 2 ^ 63" using w by (auto simp: slice_inv_def)
    note f = slice_fits [OF w this]
    have dd: "drop (unat (sw_pos w) + length xs) (sw_buf w) = drop (unat (sw_pos w) + length xs) buf"
      using w by (intro drop_drop_add) (simp add: slice_inv_def)
    show "\<exists>w'. SliceWriter_write w xs = (None, w') \<and> slice_inv buf w' \<and>
        length (sw_buf w') - unat (sw_pos w') = length (sw_buf w) - unat (sw_pos w) - length xs \<and>
        unat (SliceWriter_pos w') = unat (SliceWriter_pos w) + length xs"
      "take (unat (sw_pos (snd (SliceWriter_write w xs)))) (sw_buf (snd (SliceWriter_write w xs))) =
        take (unat (sw_pos w)) (sw_buf w) @ xs"
      using w le f dd by (auto simp: SliceWriter_write_def SliceWriter_pos_def slice_inv_def) }
  assume "length (sw_buf w) - unat (sw_pos w) < length xs" "length xs < 2 ^ 63"
  with slice_fits(2) [OF w this(2)] show "fst (SliceWriter_write w xs) = Some OutOfSpaceError"
    by (simp add: SliceWriter_write_def)
qed

section \<open>Length and bytes agree\<close>

lemma counting_run:
  "total_bytes w = word_of_nat p \<Longrightarrow>
    (case ser_bytes v p of
       Inl e \<Rightarrow> fst (to_bytes_in CountingWriter_write CountingWriter_pos v w) = Some (SerError e)
     | Inr ys \<Rightarrow> fst (to_bytes_in CountingWriter_write CountingWriter_pos v w) = None \<and>
         total_bytes (snd (to_bytes_in CountingWriter_write CountingWriter_pos v w)) = word_of_nat (p + length ys))"
proof (induction v arbitrary: w p)
  case (Write xs k)
  let ?w = "w\<lparr>write_count := write_count w + 1, total_bytes := total_bytes w + word_of_nat (length xs)\<rparr>"
  have t: "total_bytes ?w = word_of_nat (p + length xs)" using Write.prems by simp
  have "CountingWriter_write w xs = (None, ?w)" "CountingWriter_pos ?w = word_of_nat (p + length xs)"
    using t by (simp_all only: CountingWriter_write_def CountingWriter_pos_def)
  then have u: "to_bytes_in CountingWriter_write CountingWriter_pos (Write xs k) w =
      to_bytes_in CountingWriter_write CountingWriter_pos (k (word_of_nat (p + length xs))) ?w"
    by simp
  from Write.IH [OF rangeI t, of "word_of_nat (p + length xs)"] show ?case
    unfolding u by (simp add: add.assoc split: sum.splits)
qed auto

lemma compute_length_ser:
  "compute_length v = (case ser_bytes v 0 of Inl e \<Rightarrow> Err (SerError e) | Inr ys \<Rightarrow> Ok (word_of_nat (length ys)))"
  using counting_run [of CountingWriter_new 0 v]
  by (auto simp: compute_length_def CountingWriter_new_def case_prod_beta split: sum.splits option.splits)

lemma serialize_fits:
  assumes "ser_bytes v 0 = Ok ys" "length ys \<le> length buf" "length buf < 2 ^ 63"
  shows "serialize_to_buf v buf = (None, ys @ drop (length ys) buf)"
proof -
  let ?w = "SliceWriter_new buf"
  have inv: "slice_inv buf ?w" using assms(3) by (simp add: slice_inv_def SliceWriter_new_def)
  have p: "ser_bytes v (unat (SliceWriter_pos ?w)) = Ok ys"
    using assms(1) by (simp add: SliceWriter_pos_def SliceWriter_new_def)
  have room: "length ys \<le> length (sw_buf ?w) - unat (sw_pos ?w)" using assms(2) by (simp add: SliceWriter_new_def)
  obtain w' where w': "to_bytes_in SliceWriter_write SliceWriter_pos v ?w = (None, w')" "slice_inv buf w'"
    "unat (SliceWriter_pos w') = length ys"
    using sw.run_ok [OF inv p room] by (auto simp: SliceWriter_pos_def SliceWriter_new_def)
  have "take (length ys) (sw_buf w') = ys"
    using sw.run_out [OF inv p room] w' by (simp add: SliceWriter_pos_def SliceWriter_new_def)
  moreover have "drop (length ys) (sw_buf w') = drop (length ys) buf"
    using w'(2,3) by (simp add: slice_inv_def SliceWriter_pos_def)
  ultimately have "sw_buf w' = ys @ drop (length ys) buf" by (metis append_take_drop_id)
  with w'(1) show ?thesis by (simp add: serialize_to_buf_def)
qed

lemma serialize_overflows:
  assumes "ser_bytes v 0 = Ok ys" "length buf < length ys" "length ys < 2 ^ 63"
  shows "fst (serialize_to_buf v buf) = Some OutOfSpaceError"
proof -
  let ?w = "SliceWriter_new buf"
  have "slice_inv buf ?w" using assms by (simp add: slice_inv_def SliceWriter_new_def)
  moreover have "ser_bytes v (unat (SliceWriter_pos ?w)) = Ok ys"
    using assms(1) by (simp add: SliceWriter_pos_def SliceWriter_new_def)
  ultimately show ?thesis
    using sw.run_full [of buf ?w v ys] assms(2,3)
    by (simp add: serialize_to_buf_def case_prod_beta SliceWriter_new_def)
qed

text \<open>
  C11 (length and bytes agree): \<open>compute_length\<close> returns exactly the number of bytes the value
  serialises to.  \<open>serialize_to_buf\<close> then succeeds exactly on the buffers at least that long, writes
  those bytes at the front and leaves the rest of the buffer alone, and fails with
  \<open>OutOfSpaceError\<close> on every shorter buffer.
\<close>

theorem compute_length_exact:
  assumes "compute_length v = Ok n" "ser_bytes v 0 = Ok ys" "length ys < 2 ^ 63" "length buf < 2 ^ 63"
  shows "unat n = length ys \<and>
    (if unat n \<le> length buf then serialize_to_buf v buf = (None, ys @ drop (unat n) buf)
     else fst (serialize_to_buf v buf) = Some OutOfSpaceError)"
proof -
  have "n = word_of_nat (length ys)" using assms(1,2) compute_length_ser [of v] by simp
  then have n: "unat n = length ys" using assms(3) by (simp add: unat_of_nat)
  then show ?thesis
    using serialize_fits [OF assms(2) _ assms(4)] serialize_overflows [OF assms(2) _ assms(3), of buf] by auto
qed

text \<open>A value whose serialisation pads to an even position before its second chunk.\<close>

definition example_ser :: ser where
  "example_ser = Write [1, 2, 3] (\<lambda>p. Write (replicate (unat p mod 2) 0) (\<lambda>_. Write [4, 5] (\<lambda>_. Done)))"

theorem compute_length_exact_witness:
  "compute_length example_ser = Ok 6 \<and> serialize_to_buf example_ser [9, 9, 9, 9, 9, 9, 9, 9] = (None, [1, 2, 3, 0, 4, 5, 9, 9]) \<and>
    fst (serialize_to_buf example_ser [9, 9, 9, 9, 9]) = Some OutOfSpaceError"
proof -
  have b: "ser_bytes example_ser 0 = Ok [1, 2, 3, 0, 4, 5]" by (simp add: example_ser_def)
  have c: "compute_length example_ser = Ok 6" by (simp add: compute_length_ser b)
  show ?thesis
    using c compute_length_exact [OF c b, of "[9, 9, 9, 9, 9, 9, 9, 9]"] compute_length_exact [OF c b, of "[9, 9, 9, 9, 9]"]
    by simp
qed

end
