(* ===== verification/AgentMpsc.thy ===== *)
theory AgentMpsc
  imports MpscRing Serialize ProtocolIter Stateful
begin

text \<open>
  The typed channel of the agent: agent/src/mpsc.rs, the handle of agent/src/extension.rs, and the
  process id and error type of agent/src/lib.rs.

  \<open>submit\<close> composes the serialiser with the ring buffer.  An event's serialisation is the argument
  \<open>'v \<Rightarrow> ser\<close> of the rkyv crate, \<open>rkyv::access\<close> the argument \<open>access\<close>.  Whether the spin lock is
  obtained in time is an argument of \<open>submit\<close> as it is of \<open>reserve\<close>.  The locale \<open>byte_channel\<close> is what
  the rest of the program relies on: a first-in first-out channel that may refuse a record.
\<close>

section \<open>Definitions\<close>

datatype io_kind = TimedOut | WouldBlock | OtherKind

datatype AgentError =
    AgentError_Io io_kind string
  | AgentError_Nix string
  | AgentError_Mpscbuf MpscBufError
  | AgentError_Archive RancorError
  | NotEnabled
  | AgentError_Other string

text \<open>The static process id: the initial value and the reset value are the id of the process.\<close>

definition get_process_id :: "i32 option \<Rightarrow> i32 \<Rightarrow> i32" where
  "get_process_id cell pid = (case cell of Some i \<Rightarrow> i | None \<Rightarrow> pid)"

definition set_process_id :: "i32 \<Rightarrow> i32 option \<Rightarrow> i32 option" where
  "set_process_id i cell = Some i"

definition reset_process_id :: "i32 \<Rightarrow> i32 option \<Rightarrow> i32 option" where
  "reset_process_id pid cell = Some pid"

text \<open>The slice of a reservation, passed as \<open>&mut [u8]\<close> to a function that fills it.\<close>

definition as_mut_slice_with ::
  "usize \<Rightarrow> ReservedBuffer \<Rightarrow> (u8 list \<Rightarrow> 'r \<times> u8 list) \<Rightarrow> shm \<Rightarrow> 'r \<times> shm" where
  "as_mut_slice_with data_size rb f s =
    (let off = unat (record_pos rb) + 8;
         (r, buf) = f (read_area (unat data_size) (area s) off (unat (rb_size rb))) in
     (r, s\<lparr>area := write_area (unat data_size) (area s) off buf\<rparr>))"

definition Producer_submit ::
  "usize \<Rightarrow> WakeupStrategy \<Rightarrow> bool \<Rightarrow> ('v \<Rightarrow> ser) \<Rightarrow> 'v \<Rightarrow> (shm, AgentError, unit) stm" where
  "Producer_submit data_size ws locked enc event s =
    (case compute_length (enc event) of
       Inl e \<Rightarrow> (Err (AgentError_Archive e), s)
     | Inr required_size \<Rightarrow>
         (case reserve data_size ws locked required_size s of
            (Inl e, s1) \<Rightarrow> (Err (AgentError_Mpscbuf e), s1)
          | (Inr reserved, s1) \<Rightarrow>
              let (r, s2) = as_mut_slice_with data_size reserved (serialize_to_buf (enc event)) s1;
                  (s3, _) = ReservedBuffer_drop data_size reserved s2 in
              (case r of Some e \<Rightarrow> Err (AgentError_Archive e) | None \<Rightarrow> Ok (), s3)))"

definition Consumer_consume :: "usize \<Rightarrow> shm \<Rightarrow> (Record option \<times> shm) option" where
  "Consumer_consume data_size s = consume data_size s"

definition as_event :: "(u8 list \<Rightarrow> (RancorError, 'a ArchivedEvent) result) \<Rightarrow> usize \<Rightarrow> Record \<Rightarrow> shm \<Rightarrow>
    (RancorError, 'a ArchivedEvent) result" where
  "as_event access data_size r s = access (as_slice data_size r s)"

datatype ExtensionError = ValidationError string

text \<open>
  \<open>AgentHandle\<close>: the flag \<open>thread_names_sent\<close> of every thread over the state of the producer.
  \<open>AgentHandle_submit\<close> takes the producer's \<open>submit\<close>, and the calling thread with its name and ids.
\<close>

record 's AgentHandle =
  thread_names_sent :: "nat \<Rightarrow> bool"
  chan :: 's

definition AgentHandle_new :: "'s \<Rightarrow> 's AgentHandle" where
  "AgentHandle_new p = \<lparr>thread_names_sent = \<lambda>_. False, chan = p\<rparr>"

definition AgentHandle_submit ::
  "(Event \<Rightarrow> ('s, AgentError, unit) stm) \<Rightarrow> nat \<Rightarrow> string option \<Rightarrow> i32 \<Rightarrow> i32 \<Rightarrow> Event \<Rightarrow>
    ('s AgentHandle, AgentError, unit) stm" where
  "AgentHandle_submit submit thread name tid pid event =
    (let on_chan = on_field chan (\<lambda>c h. h\<lparr>chan := c\<rparr>);
         thread_event = (\<lambda>thread_name. Event_Track \<lparr>track_name = thread_name,
           track_type = TrackType_Thread tid pid, track_parent = Some (TrackType_Process pid)\<rparr>) in
     try_bind (gets (\<lambda>h. thread_names_sent h thread)) (\<lambda>sent.
     try_bind
       (if \<not> sent then
          try_bind (case name of Some thread_name \<Rightarrow> on_chan (submit (thread_event thread_name)) | None \<Rightarrow> ret ()) (\<lambda>_.
          modify (\<lambda>h. h\<lparr>thread_names_sent := (thread_names_sent h)(thread := True)\<rparr>))
        else ret ())
       (\<lambda>_. on_chan (submit event))))"

section \<open>The channel contract\<close>

text \<open>
  \<open>put_all\<close> submits values one after the other and returns those that were accepted; \<open>get_all\<close> reads
  up to \<open>k\<close> records.
\<close>

primrec put_all :: "('v \<Rightarrow> ('s, 'e, unit) stm) \<Rightarrow> 'v list \<Rightarrow> 's \<Rightarrow> 'v list \<times> 's" where
  "put_all put [] s = ([], s)"
| "put_all put (v # vs) s =
    (let (r, s1) = put v s; (acc, s2) = put_all put vs s1 in
     (case r of Inl _ \<Rightarrow> acc | Inr _ \<Rightarrow> v # acc, s2))"

primrec get_all :: "('s \<Rightarrow> ('x option \<times> 's) option) \<Rightarrow> nat \<Rightarrow> 's \<Rightarrow> 'x list \<times> 's" where
  "get_all get 0 s = ([], s)"
| "get_all get (Suc k) s =
    (case get s of
       Some (Some x, s1) \<Rightarrow> (let (xs, s2) = get_all get k s1 in (x # xs, s2))
     | Some (None, s1) \<Rightarrow> ([], s1)
     | None \<Rightarrow> ([], s))"

text \<open>
  \<open>rep n s q\<close>: the channel in state \<open>s\<close> holds the encoded records \<open>q\<close>, oldest first, and can take
  \<open>n\<close> more calls of \<open>put\<close>.
\<close>

locale byte_channel =
  fixes put :: "'v \<Rightarrow> ('s, 'e, unit) stm"
    and get :: "'s \<Rightarrow> (u8 list option \<times> 's) option"
    and rep :: "nat \<Rightarrow> 's \<Rightarrow> u8 list list \<Rightarrow> bool"
    and valid :: "'v \<Rightarrow> bool"
    and bytes_of :: "'v \<Rightarrow> u8 list"
  assumes put_rep: "rep (Suc n) s q \<Longrightarrow> valid v \<Longrightarrow> put v s = (r, s') \<Longrightarrow>
      rep n s' (case r of Inl _ \<Rightarrow> q | Inr _ \<Rightarrow> q @ [bytes_of v])"
    and get_rep: "rep n s q \<Longrightarrow> \<exists>s'. get s = Some (case q of [] \<Rightarrow> None | x # _ \<Rightarrow> Some x, s') \<and> rep n s' (tl q)"
begin

lemma put_all_rep:
  "rep (n + length vs) s q \<Longrightarrow> (\<forall>v\<in>set vs. valid v) \<Longrightarrow> put_all put vs s = (acc, s') \<Longrightarrow> rep n s' (q @ map bytes_of acc)"
proof (induction vs arbitrary: s q acc)
  case (Cons v vs)
  obtain r s1 where p: "put v s = (r, s1)" by fastforce
  obtain acc1 where a: "put_all put vs s1 = (acc1, s')" "acc = (case r of Inl _ \<Rightarrow> acc1 | Inr _ \<Rightarrow> v # acc1)"
    using Cons.prems(3) p by (auto simp: Let_def split: prod.splits)
  have "rep (n + length vs) s1 (case r of Inl _ \<Rightarrow> q | Inr _ \<Rightarrow> q @ [bytes_of v])"
    using Cons.prems(1,2) p by (intro put_rep) auto
  from Cons.IH [OF this _ a(1)] show ?case using Cons.prems(2) a(2) by (cases r) auto
qed simp

lemma get_all_rep: "rep n s q \<Longrightarrow> \<exists>s'. get_all get k s = (take k q, s') \<and> rep n s' (drop k q)"
proof (induction k arbitrary: s q)
  case (Suc k)
  obtain s1 where g: "get s = Some (case q of [] \<Rightarrow> None | x # _ \<Rightarrow> Some x, s1)" "rep n s1 (tl q)"
    using get_rep [OF Suc.prems] by blast
  show ?case using Suc.IH [OF g(2)] g by (cases q) auto
qed simp

text \<open>First in, first out, nothing lost and nothing twice.\<close>

lemma put_then_get:
  assumes "rep (n + length vs) s []" "\<forall>v\<in>set vs. valid v" "put_all put vs s = (acc, s1)" "length acc \<le> k"
  shows "\<exists>s2. get_all get k s1 = (map bytes_of acc, s2) \<and> rep n s2 []"
  using get_all_rep [OF put_all_rep [OF assms(1-3)], of k] assms(4) by simp

end

section \<open>The ring buffer is such a channel\<close>

definition get_record :: "usize \<Rightarrow> shm \<Rightarrow> (u8 list option \<times> shm) option" where
  "get_record data_size s =
    (case Consumer_consume data_size s of
       None \<Rightarrow> None
     | Some (None, s1) \<Rightarrow> Some (None, s1)
     | Some (Some r, s1) \<Rightarrow> Some (Some (as_slice data_size r s1), Record_drop r s1))"

definition chan_rep :: "usize \<Rightarrow> nat \<Rightarrow> shm \<Rightarrow> u8 list list \<Rightarrow> bool" where
  "chan_rep data_size n s q \<longleftrightarrow>
    (\<exists>rs. ring_rel data_size s rs \<and> map snd rs = map Committed q) \<and> \<not> spinlock s \<and>
    unat (producer s) + n * 2 ^ 33 < 2 ^ 64"

definition event_bytes :: "('v \<Rightarrow> ser) \<Rightarrow> 'v \<Rightarrow> u8 list" where
  "event_bytes enc v = (case ser_bytes (enc v) 0 of Inl _ \<Rightarrow> [] | Inr ys \<Rightarrow> ys)"

definition small :: "('v \<Rightarrow> ser) \<Rightarrow> 'v \<Rightarrow> bool" where
  "small enc v \<longleftrightarrow> length (event_bytes enc v) < 2 ^ 32"

lemma submit_ok:
  assumes rel: "ring_rel data_size s rs" and lock: "\<not> spinlock s"
    and ys: "ser_bytes (enc v) 0 = Ok ys" "length ys < 2 ^ 32" and p: "unat (producer s) + 2 ^ 33 < 2 ^ 64"
    and space: "unat (producer s) + span (length ys) < unat (consumer s) + unat data_size"
  shows "\<exists>s'. Producer_submit data_size ws True enc v s = (Ok (), s') \<and>
    ring_rel data_size s' (rs @ [(unat (producer s), Committed ys)]) \<and> \<not> spinlock s' \<and>
    unat (producer s') = unat (producer s) + span (length ys)"
proof -
  let ?n = "word_of_nat (length ys) :: usize" and ?q = "unat (producer s)"
  have n: "unat ?n = length ys" using ys(2) by (simp add: unat_of_nat)
  have len: "compute_length (enc v) = Ok ?n" by (simp add: compute_length_ser ys)
  have b: "unat ?n < 2 ^ 32" "?q + span (unat ?n) < 2 ^ 64" "?q + span (unat ?n) < unat (consumer s) + unat data_size"
    using ys(2) p space span_le [of "length ys"] by (simp_all add: n)
  obtain rb s1 where r: "reserve data_size ws True ?n s = (Ok rb, s1)" "rb_size rb = ?n"
    and own: "owns data_size rb ?q (rs @ [(?q, Busy (ucast ?n))])"
    and rel1: "ring_rel data_size s1 (rs @ [(?q, Busy (ucast ?n))])"
    and s1: "unat (producer s1) = ?q + span (unat ?n)" "\<not> spinlock s1"
    using reserve_space [OF rel b, of ws] by metis
  have buf: "serialize_to_buf (enc v) b = (None, ys)" if "length b = length ys" for b
    using serialize_fits [OF ys(1), of b] that ys(2) by simp
  obtain s2 s3 where w: "as_mut_slice_write data_size rb 0 ys s1 = Some s2"
    and d: "ReservedBuffer_drop data_size rb s2 = (s3, wakeup_strategy rb = Forced)"
    and rel3: "ring_rel data_size s3 (upd ?q (Committed ys) (rs @ [(?q, Busy (ucast ?n))]))"
    and s3: "producer s3 = producer s1" "spinlock s3 = spinlock s1"
    using write_drop_rel [OF rel1 own, of ys] r(2) n by auto
  have "as_mut_slice_with data_size rb (serialize_to_buf (enc v)) s1 = (None, s2)"
    using w by (simp add: as_mut_slice_with_def as_mut_slice_write_def buf r(2) n)
  then have "Producer_submit data_size ws True enc v s = (Ok (), s3)"
    by (simp add: Producer_submit_def len r d)
  moreover have "upd ?q (Committed ys) (rs @ [(?q, Busy (ucast ?n))]) = rs @ [(?q, Committed ys)]"
    using slots_before [OF ring_relD(5) [OF rel]] by (intro upd_middle [where zs = "[]", simplified]) auto
  ultimately show ?thesis using rel3 s1 s3 n by auto
qed

lemma submit_refused:
  assumes rel: "ring_rel data_size s rs" and lock: "\<not> spinlock s" and v: "small enc v"
    and p: "unat (producer s) + 2 ^ 33 < 2 ^ 64"
    and no: "\<not> locked \<or> (\<exists>e. ser_bytes (enc v) 0 = Err e) \<or>
      \<not> unat (producer s) + span (length (event_bytes enc v)) < unat (consumer s) + unat data_size"
  shows "\<exists>e. Producer_submit data_size ws locked enc v s = (Err e, s)"
proof (cases "ser_bytes (enc v) 0")
  case (Inl e)
  then show ?thesis by (simp add: Producer_submit_def compute_length_ser)
next
  case (Inr ys)
  let ?n = "word_of_nat (length ys) :: usize"
  have ys: "length ys < 2 ^ 32" "event_bytes enc v = ys" using v Inr by (simp_all add: small_def event_bytes_def)
  then have n: "unat ?n = length ys" by (simp add: unat_of_nat)
  have b: "unat ?n < 2 ^ 32" "unat (producer s) + span (unat ?n) < 2 ^ 64"
    using ys(1) p span_le [of "length ys"] by (simp_all add: n)
  have "\<exists>e. reserve data_size ws locked ?n s = (Err e, s)"
    using no reserve_full [OF rel lock b, of ws] Inr ys n by (cases locked) (auto simp: reserve_def)
  then show ?thesis using Inr by (auto simp: Producer_submit_def compute_length_ser)
qed

lemma submit_rep:
  assumes rep: "chan_rep data_size (Suc n) s q" and v: "small enc v"
    and run: "Producer_submit data_size ws locked enc v s = (r, s')"
  shows "chan_rep data_size n s' (case r of Inl _ \<Rightarrow> q | Inr _ \<Rightarrow> q @ [event_bytes enc v])"
proof -
  obtain rs where rs: "ring_rel data_size s rs" "map snd rs = map Committed q" "\<not> spinlock s"
    "unat (producer s) + Suc n * 2 ^ 33 < 2 ^ 64"
    using rep by (auto simp: chan_rep_def)
  have p: "unat (producer s) + 2 ^ 33 < 2 ^ 64" using rs(4) by simp
  show ?thesis
  proof (cases "\<not> locked \<or> (\<exists>e. ser_bytes (enc v) 0 = Err e) \<or>
      \<not> unat (producer s) + span (length (event_bytes enc v)) < unat (consumer s) + unat data_size")
    case True
    from submit_refused [OF rs(1,3) v p True, of ws] run have "\<exists>e. r = Err e" "s' = s" by auto
    then show ?thesis using rs by (auto simp: chan_rep_def)
  next
    case False
    then obtain ys where ys: "ser_bytes (enc v) 0 = Ok ys" by (cases "ser_bytes (enc v) 0") auto
    then have e: "event_bytes enc v = ys" "length ys < 2 ^ 32" using v by (simp_all add: event_bytes_def small_def)
    have "span (length ys) \<le> 2 ^ 33" using span_le [of "length ys"] e(2) by simp
    moreover have "unat (producer s) + span (length ys) < unat (consumer s) + unat data_size" using False e by simp
    ultimately show ?thesis
      using submit_ok [of data_size s rs enc v ys ws] p ys False run rs e
      by (auto simp: chan_rep_def intro!: exI [of _ "rs @ [(unat (producer s), Committed ys)]"])
  qed
qed

lemma get_record_rep:
  assumes "chan_rep data_size n s q"
  shows "\<exists>s'. get_record data_size s = Some (case q of [] \<Rightarrow> None | x # _ \<Rightarrow> Some x, s') \<and> chan_rep data_size n s' (tl q)"
proof -
  obtain rs where rs: "ring_rel data_size s rs" "map snd rs = map Committed q" "\<not> spinlock s"
    "unat (producer s) + n * 2 ^ 33 < 2 ^ 64"
    using assms by (auto simp: chan_rep_def)
  have c: "q_consume rs = (case q of [] \<Rightarrow> None | x # _ \<Rightarrow> Some x, rs)"
    using rs(2) by (cases rs; cases q) auto
  obtain r s' where s': "consume data_size s = Some (r, s')" "ring_rel data_size s' rs"
    "map_option (\<lambda>r. as_slice data_size r s') r = (case q of [] \<Rightarrow> None | x # _ \<Rightarrow> Some x)"
    "\<And>rec. r = Some rec \<Longrightarrow> ring_rel data_size (Record_drop rec s') (tl rs)" "s' = s\<lparr>consumer := consumer s'\<rparr>"
    using consume_spec [OF rs(1), unfolded c fst_conv snd_conv] by blast
  have m: "map snd (tl rs) = map Committed (tl q)" using rs(2) by (simp add: map_tl)
  have "spinlock s' = spinlock s" by (subst s'(5)) simp
  moreover have "producer s' = producer s" by (subst s'(5)) simp
  ultimately show ?thesis
    using s'(1-4) rs m by (cases q; cases r) (auto simp: get_record_def Consumer_consume_def chan_rep_def Record_drop_def advance_consumer_def)
qed

interpretation ring: byte_channel "Producer_submit data_size ws locked enc" "get_record data_size"
  "chan_rep data_size" "small enc" "event_bytes enc" for data_size ws locked enc
  by unfold_locales (rule submit_rep, assumption+, rule get_record_rep)

section \<open>Properties\<close>

text \<open>
  C16 (events arrive in order, once, unchanged): submitting any events to an empty ring and then
  reading it returns exactly the serialised bytes of the accepted events, in the order of submission,
  and leaves the ring empty; a refused event leaves no trace.
\<close>

theorem submit_consume_fifo:
  assumes "chan_rep data_size (n + length events) s []" "\<forall>v\<in>set events. small enc v"
    "put_all (Producer_submit data_size ws locked enc) events s = (accepted, s1)" "length accepted \<le> k"
  shows "\<exists>s2. get_all (get_record data_size) k s1 = (map (event_bytes enc) accepted, s2) \<and> chan_rep data_size n s2 []"
  using assms by (rule ring.put_then_get)

lemma fresh_ring_rep:
  assumes "is_power_of_two data_size" "8 \<le> data_size" "n < 2 ^ 31"
  shows "chan_rep data_size n (RingBuf_new (\<lambda>_. 0)) []"
  using assms
  by (auto simp: chan_rep_def ring_rel_def RingBuf_new_def Metadata_new_def word_le_nat_alt intro!: exI [of _ "[]"])

definition byte_ser :: "u8 list \<Rightarrow> ser" where
  "byte_ser xs = Write xs (\<lambda>_. Done)"

theorem submit_consume_fifo_witness:
  "\<exists>accepted s1 s2. put_all (Producer_submit 4096 NoWakeup True byte_ser) [[1, 2, 3], [4]] (RingBuf_new (\<lambda>_. 0)) = (accepted, s1) \<and>
    get_all (get_record 4096) 5 s1 = (map (event_bytes byte_ser) accepted, s2) \<and> chan_rep 4096 0 s2 []"
proof -
  obtain accepted s1 where p: "put_all (Producer_submit 4096 NoWakeup True byte_ser) [[1, 2, 3], [4]] (RingBuf_new (\<lambda>_. 0)) = (accepted, s1)"
    by fastforce
  then have "length accepted \<le> 5" by (auto simp: Let_def split: prod.splits sum.splits)
  moreover have "is_power_of_two 4096" by code_simp
  then have "chan_rep 4096 (0 + length [[1, 2, 3], [4 :: u8]]) (RingBuf_new (\<lambda>_. 0)) []" by (intro fresh_ring_rep) simp_all
  moreover have "\<forall>v\<in>set [[1, 2, 3], [4 :: u8]]. small byte_ser v" by (simp add: small_def event_bytes_def byte_ser_def)
  ultimately show ?thesis using submit_consume_fifo p by blast
qed

lemma handle_named:
  assumes "thread_names_sent h thread"
  shows "AgentHandle_submit submit thread name tid pid event h =
    (case submit event (chan h) of (r, c) \<Rightarrow> (r, h\<lparr>chan := c\<rparr>))"
  using assms by (simp add: AgentHandle_submit_def on_field_def Let_def)

lemma handle_named_all:
  "thread_names_sent h thread \<Longrightarrow>
    try_each (AgentHandle_submit submit thread name tid pid) events h =
      (case try_each submit events (chan h) of (r, c) \<Rightarrow> (r, h\<lparr>chan := c\<rparr>))"
proof (induction events arbitrary: h)
  case (Cons e events)
  obtain r c where s: "submit e (chan h) = (r, c)" by fastforce
  then have h: "AgentHandle_submit submit thread name tid pid e h = (r, h\<lparr>chan := c\<rparr>)"
    using Cons.prems by (simp add: handle_named)
  show ?case
  proof (cases r)
    case (Inl err)
    then show ?thesis using h s by (simp add: try_bind_def)
  next
    case (Inr a)
    then show ?thesis
      using h s Cons.IH [of "h\<lparr>chan := c\<rparr>"] Cons.prems by (simp add: try_bind_def split: prod.splits)
  qed
qed simp

definition thread_track :: "string option \<Rightarrow> i32 \<Rightarrow> i32 \<Rightarrow> Event list" where
  "thread_track name tid pid = (case name of None \<Rightarrow> [] | Some n \<Rightarrow>
    [Event_Track \<lparr>track_name = n, track_type = TrackType_Thread tid pid, track_parent = Some (TrackType_Process pid)\<rparr>])"

text \<open>
  The events a thread submits through a fresh handle
  reach the producer as if they were submitted directly, preceded by one track event that names the
  thread and hangs it below its process, if the thread has a name.  Errors stop both at the same
  event, and a failed naming is repeated with the next submission.
\<close>

theorem handle_names_thread_first:
  assumes "events \<noteq> []"
  shows "(case try_each (AgentHandle_submit submit thread name tid pid) events (AgentHandle_new c) of (r, h) \<Rightarrow> (r, chan h)) =
      try_each submit (thread_track name tid pid @ events) c \<and>
    (name = Some n \<longrightarrow> submit (hd (thread_track name tid pid)) c = (Err e, c') \<longrightarrow>
      AgentHandle_submit submit thread name tid pid event (AgentHandle_new c) = (Err e, AgentHandle_new c'))"
proof
  obtain e1 rest where ev: "events = e1 # rest" using assms by (cases events) auto
  let ?h = "AgentHandle_new c"
  show "(case try_each (AgentHandle_submit submit thread name tid pid) events ?h of (r, h) \<Rightarrow> (r, chan h)) =
      try_each submit (thread_track name tid pid @ events) c"
  proof (cases name)
    case None
    then show ?thesis
      by (auto simp: ev thread_track_def AgentHandle_submit_def AgentHandle_new_def on_field_def Let_def try_bind_def
          handle_named_all split: prod.splits sum.splits)
  next
    case (Some nm)
    then show ?thesis
      by (auto simp: ev thread_track_def AgentHandle_submit_def AgentHandle_new_def on_field_def Let_def try_bind_def
          handle_named_all split: prod.splits sum.splits)
  qed
  show "name = Some n \<longrightarrow> submit (hd (thread_track name tid pid)) c = (Err e, c') \<longrightarrow>
      AgentHandle_submit submit thread name tid pid event (AgentHandle_new c) = (Err e, AgentHandle_new c')"
    by (simp add: thread_track_def AgentHandle_submit_def AgentHandle_new_def on_field_def Let_def try_bind_def)
qed

theorem handle_names_thread_first_witness:
  "(case try_each (AgentHandle_submit (\<lambda>e c. (Ok (), c @ [e])) 0 (Some ''main'') 7 3)
       [Event_InternedData InternedData_new] (AgentHandle_new []) of (r, h) \<Rightarrow> (r, chan h)) =
    (Ok (), [Event_Track \<lparr>track_name = ''main'', track_type = TrackType_Thread 7 3,
       track_parent = Some (TrackType_Process 3)\<rparr>, Event_InternedData InternedData_new])"
  using handle_names_thread_first [of "[Event_InternedData InternedData_new]" "\<lambda>e c. (Ok (), c @ [e])" 0 "Some ''main''" 7 3 "[]"]
  by (simp add: thread_track_def try_bind_def)

end
