(* ===== verification/AgentState.thy ===== *)
theory AgentState
  imports AgentMpsc
begin

text \<open>
  The agent's state machine (agent/src/agent_state.rs).

  A handler takes the agent state and the process globals and returns both together with the actions
  it queued.  What a handler reads from the system while it runs (the clock, the validity of a file
  descriptor, the process id, the random number, the name of the executable) is the argument \<open>env\<close>;
  the producer it creates is used through the record \<open>producer_ops\<close>, and \<open>mpsc_ops\<close> is that record for
  the ring buffer of this workspace.  A control message is the native value of the archived one.
\<close>

section \<open>Definitions\<close>

definition get_timestamp_ns :: "i64 \<times> i64 \<Rightarrow> u64" where
  "get_timestamp_ns ts = fst ts * 1000000000 + snd ts"

datatype Action = SendMessage u64 ControlMessage | DeleteEpoll u64

definition CLIENT_TIMEOUT_NS :: u64 where "CLIENT_TIMEOUT_NS = 2000000000"

definition RANDOM_PROCESS_ID_OPTION :: string where "RANDOM_PROCESS_ID_OPTION = ''random_process_id''"

datatype State = Pending | Started

record AgentClientState =
  client_state :: State
  timestamp_ns :: u64

definition AgentClientState_new :: "u64 \<Rightarrow> AgentClientState" where
  "AgentClientState_new now = \<lparr>client_state = Pending, timestamp_ns = now\<rparr>"

definition AgentClientState_timer :: "u64 \<Rightarrow> AgentClientState \<Rightarrow> u64 \<Rightarrow> bool" where
  "AgentClientState_timer now c timeout = (saturating_sub now (timestamp_ns c) \<le> timeout)"

datatype MessageResult = MR_Continue | MR_Started | MR_Disconnect | MR_Error AgentError

record ('h, 'w) Extension =
  ext_start :: "TracingArgs \<Rightarrow> 'h \<Rightarrow> ('w, ExtensionError, unit) stm"
  ext_stop :: "('w, ExtensionError, unit) stm"

record ('p, 'w) producer_ops =
  mpsc_new :: "i32 \<Rightarrow> i32 \<Rightarrow> usize \<Rightarrow> ('w, MpscBufError, 'p) stm"
  mpsc_submit :: "'p \<Rightarrow> Event \<Rightarrow> ('w, AgentError, unit) stm"

record env =
  env_clock :: "i64 \<times> i64"
  env_fcntl_getfd :: "i32 \<Rightarrow> i32"
  env_pid :: i32
  env_random :: i32
  env_exe_name :: "string option option"

text \<open>The process id cell of the agent crate and everything else a handler may change.\<close>

record 'w globals =
  pid_cell :: "i32 option"
  world :: 'w

record ('p, 'w) AgentState =
  clients :: "(u64 \<times> AgentClientState) list"
  started_client :: "u64 option"
  next_client_id :: u64
  another_started :: bool
  timeout_ns :: u64
  tracing_extension :: "('p AgentHandle, 'w) Extension option"
  extension_active :: bool

definition AgentState_new :: "u16 \<Rightarrow> ('p AgentHandle, 'w) Extension option \<Rightarrow> ('p, 'w) AgentState" where
  "AgentState_new tmo ext = \<lparr>clients = [], started_client = None, next_client_id = 1,
    another_started = False, timeout_ns = ucast tmo * 1000000, tracing_extension = ext, extension_active = False\<rparr>"

definition validate_and_convert_fd :: "env \<Rightarrow> i32 \<Rightarrow> i32 option" where
  "validate_and_convert_fd env raw_fd =
    (if raw_fd <s 0 then None else if env_fcntl_getfd env raw_fd \<noteq> - 1 then Some raw_fd else None)"

definition remove_client :: "u64 \<Rightarrow> ('p, 'w) AgentState \<Rightarrow> ('p, 'w) AgentState" where
  "remove_client token st = st\<lparr>clients := hm_remove token (clients st)\<rparr>"

definition get_next_client_id :: "('p, 'w) AgentState \<Rightarrow> u64 \<times> ('p, 'w) AgentState" where
  "get_next_client_id st = (next_client_id st, st\<lparr>next_client_id := next_client_id st + 1\<rparr>)"

definition timeout_ms :: "('p, 'w) AgentState \<Rightarrow> u16" where
  "timeout_ms st = ucast (timeout_ns st div 1000000)"

definition register_client :: "u64 \<Rightarrow> u64 \<Rightarrow> ('p, 'w) AgentState \<Rightarrow> ('p, 'w) AgentState" where
  "register_client now client_id st = st\<lparr>clients := hm_insert client_id (AgentClientState_new now) (clients st)\<rparr>"

text \<open>Stopping the extension, which the source writes out in both places.\<close>

definition stop_extension :: "('p, 'w) AgentState \<Rightarrow> 'w \<Rightarrow> ('p, 'w) AgentState \<times> 'w" where
  "stop_extension st w =
    (if extension_active st then
       (case tracing_extension st of
          Some ext \<Rightarrow> (st\<lparr>extension_active := False\<rparr>, snd (ext_stop ext w))
        | None \<Rightarrow> (st, w))
     else (st, w))"

definition handle_disconnect ::
  "u64 \<Rightarrow> ('p, 'w) AgentState \<Rightarrow> 'w \<Rightarrow> ('p, 'w) AgentState \<times> 'w \<times> Action list" where
  "handle_disconnect client_id st w =
    (if started_client st = Some client_id then
       let (st1, w1) = stop_extension st w in
       (st1\<lparr>another_started := False, started_client := None\<rparr>, w1, [DeleteEpoll client_id])
     else (st, w, [DeleteEpoll client_id]))"

definition abs_i32 :: "i32 \<Rightarrow> i32" where
  "abs_i32 x = (if x <s 0 then - x else x)"

definition apply_pid_option :: "env \<Rightarrow> Args \<Rightarrow> i32 option \<Rightarrow> i32 option" where
  "apply_pid_option env args cell =
    (case hm_get (args_options args) RANDOM_PROCESS_ID_OPTION of
       Some (Value_Bool use_random) \<Rightarrow>
         if use_random then set_process_id (abs_i32 (env_random env)) cell
         else reset_process_id (env_pid env) cell
     | None \<Rightarrow> reset_process_id (env_pid env) cell
     | _ \<Rightarrow> cell)"

definition submit_process_name :: "('p, 'w) producer_ops \<Rightarrow> env \<Rightarrow> 'p \<Rightarrow> 'w globals \<Rightarrow> 'w globals" where
  "submit_process_name ops env pr g =
    (case env_exe_name env of
       None \<Rightarrow> g
     | Some file_name \<Rightarrow>
         let process_name = (case file_name of Some s \<Rightarrow> s | None \<Rightarrow> ''unknown'');
             process_event = Event_Track \<lparr>track_name = process_name,
               track_type = TrackType_Process (get_process_id (pid_cell g) (env_pid env)), track_parent = None\<rparr> in
         g\<lparr>world := snd (mpsc_submit ops pr process_event (world g))\<rparr>)"

text \<open>
  The start of a pending client.  The first component is \<open>None\<close> where the source returns from the
  handler, and the result that the rest of the handler acts on otherwise.
\<close>

definition start_client ::
  "('p, 'w) producer_ops \<Rightarrow> env \<Rightarrow> u64 \<Rightarrow> u64 \<Rightarrow> Args \<Rightarrow> i32 list \<Rightarrow> ('p, 'w) AgentState \<Rightarrow> 'w globals \<Rightarrow>
    MessageResult option \<times> ('p, 'w) AgentState \<times> 'w globals \<times> Action list" where
  "start_client ops env client_id buffer_size args raw_fds st g =
    (let nack = (\<lambda>e. (None, st, g, [SendMessage client_id (Nack e)])) in
     if another_started st then nack ''another client already started''
     else if args_tracing args = None then nack ''at least one arg must be non-empty''
     else if length raw_fds < 2 then nack ''missing file descriptors''
     else
       case validate_and_convert_fd env (raw_fds ! 0) of
         None \<Rightarrow> nack ''invalid file descriptors''
       | Some memory_fd \<Rightarrow>
       (case validate_and_convert_fd env (raw_fds ! 1) of
         None \<Rightarrow> nack ''invalid file descriptors''
       | Some notification_fd \<Rightarrow>
       (case mpsc_new ops memory_fd notification_fd buffer_size (world g) of
         (Inl e, w) \<Rightarrow> (Some (MR_Error (AgentError_Mpscbuf e)), st, g\<lparr>world := w\<rparr>, [])
       | (Inr pr, w) \<Rightarrow>
           let g1 = g\<lparr>pid_cell := apply_pid_option env args (pid_cell g), world := w\<rparr>;
               g2 = submit_process_name ops env pr g1 in
           case (tracing_extension st, args_tracing args) of
             (Some ext, Some tracing_args) \<Rightarrow>
               (case ext_start ext tracing_args (AgentHandle_new pr) (world g2) of
                  (Inr _, w2) \<Rightarrow>
                    (Some MR_Started, st\<lparr>extension_active := True\<rparr>, g2\<lparr>world := w2\<rparr>, [SendMessage client_id Ack])
                | (Inl (ValidationError error_msg), w2) \<Rightarrow>
                    (None, st, g2\<lparr>world := w2\<rparr>, [SendMessage client_id (Nack error_msg)]))
           | _ \<Rightarrow> (Some MR_Started, st, g2, [SendMessage client_id Ack]))))"

definition update_client :: "u64 \<Rightarrow> (AgentClientState \<Rightarrow> AgentClientState) \<Rightarrow> ('p, 'w) AgentState \<Rightarrow> ('p, 'w) AgentState" where
  "update_client client_id f st =
    st\<lparr>clients := map (\<lambda>(i, c). (i, if i = client_id then f c else c)) (clients st)\<rparr>"

definition handle_message ::
  "('p, 'w) producer_ops \<Rightarrow> env \<Rightarrow> u64 \<Rightarrow> ControlMessage \<Rightarrow> i32 list \<Rightarrow> ('p, 'w) AgentState \<Rightarrow> 'w globals \<Rightarrow>
    ('p, 'w) AgentState \<times> 'w globals \<times> Action list" where
  "handle_message ops env client_id msg raw_fds st g =
    (if msg = Version then (st, g, [SendMessage client_id (VersionResponse VERSION)])
     else
       case hm_get (clients st) client_id of
         None \<Rightarrow> (st, g, [])
       | Some client \<Rightarrow>
           let (result, st1, g1, actions) =
             (case client_state client of
                Pending \<Rightarrow>
                  (case msg of
                     Start buffer_size args \<Rightarrow> start_client ops env client_id buffer_size args raw_fds st g
                   | _ \<Rightarrow> (Some MR_Continue, st, g, []))
              | Started \<Rightarrow>
                  (case msg of
                     Stop \<Rightarrow> (Some MR_Disconnect, st, g, [SendMessage client_id Ack])
                   | Continue \<Rightarrow>
                       (Some MR_Continue,
                        update_client client_id (\<lambda>c. c\<lparr>timestamp_ns := get_timestamp_ns (env_clock env)\<rparr>) st,
                        g, [SendMessage client_id Ack])
                   | _ \<Rightarrow> (Some MR_Continue, st, g, []))) in
           case result of
             None \<Rightarrow> (st1, g1, actions)
           | Some MR_Continue \<Rightarrow> (st1, g1, actions)
           | Some MR_Started \<Rightarrow>
               (update_client client_id (\<lambda>c. c\<lparr>client_state := Started, timestamp_ns := get_timestamp_ns (env_clock env)\<rparr>)
                  (st1\<lparr>another_started := True, started_client := Some client_id\<rparr>),
                g1, actions)
           | Some _ \<Rightarrow>
               (let (st2, w2, actions2) = handle_disconnect client_id st1 (world g1) in
                (st2, g1\<lparr>world := w2\<rparr>, actions @ actions2)))"

text \<open>
  The timer.  The clock is read once per client; the result is \<open>None\<close> where the source would panic.
\<close>

definition timer ::
  "(u64 \<Rightarrow> i64 \<times> i64) \<Rightarrow> ('p, 'w) AgentState \<Rightarrow> 'w \<Rightarrow> (('p, 'w) AgentState \<times> 'w \<times> Action list) option" where
  "timer clock st w =
    (let expired = (\<lambda>i c. \<not> AgentClientState_timer (get_timestamp_ns (clock i)) c (timeout_ns st));
         pending = map (\<lambda>(i, c). DeleteEpoll i)
           (filter (\<lambda>(i, c). Some i \<noteq> started_client st \<and> expired i c) (clients st)) in
     case started_client st of
       None \<Rightarrow> Some (st, w, pending)
     | Some client_id \<Rightarrow>
         (case hm_get (clients st) client_id of
            None \<Rightarrow> None
          | Some c \<Rightarrow>
              if \<not> expired client_id c then Some (st, w, pending)
              else
                let delete = (if hm_get (clients st) client_id \<noteq> None then [DeleteEpoll client_id] else []);
                    (st1, w1) = stop_extension st w in
                Some (st1\<lparr>another_started := False, started_client := None\<rparr>, w1, pending @ delete)))"

text \<open>The producer operations on the ring buffer: its address space and its shared memory.\<close>

record ring_world =
  aspace :: address_space
  ring_mem :: shm

definition mpsc_ops ::
  "os \<Rightarrow> (nat \<Rightarrow> (Errno, unit) result) \<Rightarrow> bool \<Rightarrow> (Event \<Rightarrow> ser) \<Rightarrow> (nat Producer, ring_world) producer_ops" where
  "mpsc_ops os fstat locked enc = \<lparr>
    mpsc_new = \<lambda>m n data_size w.
      (case Producer_new os fstat (unat m) (unat n) data_size NoWakeup (aspace w) of
         (r, as) \<Rightarrow> (r, w\<lparr>aspace := as\<rparr>)),
    mpsc_submit = \<lambda>p event w.
      (case Producer_submit (mem_data_size (prod_memory p)) (prod_wakeup p) locked enc event (ring_mem w) of
         (r, s) \<Rightarrow> (r, w\<lparr>ring_mem := s\<rparr>))\<rparr>"

section \<open>The invariant\<close>

definition deletes :: "Action list \<Rightarrow> u64 set" where
  "deletes actions = {i. DeleteEpoll i \<in> set actions}"

text \<open>
  \<open>agent_inv N D st\<close>: apart from the clients in \<open>D\<close>, whose deletion is queued, exactly the client
  recorded as started is in state \<open>Started\<close>; the two flags agree with it; ids are positive and below the
  next id, which is at most \<open>N\<close>.
\<close>

definition agent_inv :: "nat \<Rightarrow> u64 set \<Rightarrow> ('p, 'w) AgentState \<Rightarrow> bool" where
  "agent_inv N D st \<longleftrightarrow>
    distinct (map fst (clients st)) \<and>
    (\<forall>i c. hm_get (clients st) i = Some c \<longrightarrow> i \<notin> D \<longrightarrow> (client_state c = Started \<longleftrightarrow> started_client st = Some i)) \<and>
    (\<forall>i. started_client st = Some i \<longrightarrow> hm_get (clients st) i \<noteq> None \<and> i \<notin> D) \<and>
    (another_started st \<longleftrightarrow> started_client st \<noteq> None) \<and>
    (extension_active st \<longrightarrow> started_client st \<noteq> None \<and> tracing_extension st \<noteq> None) \<and>
    (\<forall>i c. hm_get (clients st) i = Some c \<longrightarrow> 0 < i \<and> i < next_client_id st) \<and>
    unat (next_client_id st) \<le> N \<and> 0 < next_client_id st"

lemma agent_inv_new: "agent_inv 1 {} (AgentState_new t ext)"
  by (simp add: agent_inv_def AgentState_new_def hm_get_def)

lemma agent_inv_mono: "agent_inv N D st \<Longrightarrow> N \<le> M \<Longrightarrow> agent_inv M D st"
  by (auto simp: agent_inv_def)

lemma update_client_keys [simp]: "map fst (clients (update_client i f st)) = map fst (clients st)"
  by (simp add: update_client_def comp_def case_prod_beta)

lemma hm_get_map_at:
  "hm_get (map (\<lambda>(j, c). (j, if j = i then f c else c)) m) k = (if k = i then map_option f (hm_get m k) else hm_get m k)"
  by (induction m) (auto simp: hm_get_def)

lemma update_client_get [simp]:
  "hm_get (clients (update_client i f st)) j =
    (if j = i then map_option f (hm_get (clients st) j) else hm_get (clients st) j)"
  by (simp add: update_client_def hm_get_map_at)

lemma update_client_other [simp]:
  "started_client (update_client i f st) = started_client st" "next_client_id (update_client i f st) = next_client_id st"
  "another_started (update_client i f st) = another_started st" "extension_active (update_client i f st) = extension_active st"
  "tracing_extension (update_client i f st) = tracing_extension st" "timeout_ns (update_client i f st) = timeout_ns st"
  by (simp_all add: update_client_def)

lemma stop_extension_simps [simp]:
  "clients (fst (stop_extension st w)) = clients st" "next_client_id (fst (stop_extension st w)) = next_client_id st"
  "started_client (fst (stop_extension st w)) = started_client st" "timeout_ns (fst (stop_extension st w)) = timeout_ns st"
  "tracing_extension (fst (stop_extension st w)) = tracing_extension st"
  by (auto simp: stop_extension_def split: option.splits)

lemma stop_extension_inactive:
  "agent_inv N D st \<Longrightarrow> \<not> extension_active (fst (stop_extension st w))"
  by (auto simp: agent_inv_def stop_extension_def split: option.splits)

lemma register_client_inv:
  assumes inv: "agent_inv N {} st" and N: "N + 1 < 2 ^ 64"
  shows "agent_inv (N + 1) {} (register_client now (next_client_id st) (st\<lparr>next_client_id := next_client_id st + 1\<rparr>))"
proof -
  let ?n = "next_client_id st"
  have "unat ?n + 1 < 2 ^ 64" using assms by (simp add: agent_inv_def)
  then have u: "unat (?n + 1) = unat ?n + 1" by (simp add: unat_word_ariths)
  have lt: "i < ?n \<Longrightarrow> i < ?n + 1" "?n < ?n + 1" "0 < ?n + 1" "unat (?n + 1) \<le> N + 1" for i
    using inv by (simp_all add: word_less_nat_alt u agent_inv_def)
  have fresh: "hm_get (clients st) ?n = None" using inv by (auto simp: agent_inv_def)
  then have "distinct (map fst (hm_insert ?n c (clients st)))" for c
    using inv by (intro hm_insert_distinct) (simp add: agent_inv_def)
  then show ?thesis
    using inv lt fresh by (auto simp: agent_inv_def register_client_def AgentClientState_new_def)
qed

lemma remove_client_inv:
  "agent_inv N D st \<Longrightarrow> t \<in> D \<Longrightarrow> agent_inv N D (remove_client t st)"
  by (auto simp: agent_inv_def remove_client_def hm_remove_distinct)

lemma agent_inv_settled:
  "agent_inv N D st \<Longrightarrow> (\<And>t. t \<in> D \<Longrightarrow> hm_get (clients st) t = None) \<Longrightarrow> agent_inv N {} st"
  unfolding agent_inv_def by (metis empty_iff option.distinct(1))

lemma end_session_inv:
  assumes "agent_inv N {} st" "started_client st = Some i"
  shows "agent_inv N (insert i D) ((fst (stop_extension st w))\<lparr>another_started := False, started_client := None\<rparr>)"
  using assms stop_extension_inactive [OF assms(1), of w] by (auto simp: agent_inv_def)

lemma handle_disconnect_inv:
  assumes "agent_inv N {} st" "handle_disconnect i st w = (st', w', acts)"
  shows "agent_inv N (deletes acts) st'"
proof (cases "started_client st = Some i")
  case True
  have "deletes [DeleteEpoll i] = insert i {}" by (auto simp: deletes_def)
  then show ?thesis
    using True assms end_session_inv [OF assms(1) True, of "{}" w] by (auto simp: handle_disconnect_def case_prod_beta Let_def)
next
  case False
  then show ?thesis using assms by (auto simp: handle_disconnect_def agent_inv_def deletes_def)
qed

lemma start_client_state:
  assumes "start_client ops env i bs args fds st g = (r, st1, g1, acts)"
  shows "deletes acts = {} \<and> (r = Some MR_Started \<and> \<not> another_started st \<and> (st1 = st \<or> st1 = st\<lparr>extension_active := True\<rparr> \<and> tracing_extension st \<noteq> None) \<or>
    (r = None \<or> (\<exists>e. r = Some (MR_Error e))) \<and> st1 = st)"
  using assms
  by (auto simp: start_client_def Let_def deletes_def split: if_splits option.splits sum.splits prod.splits ExtensionError.splits)

lemma handle_message_ignored:
  "handle_message ops env i Version fds st g = (st, g, [SendMessage i (VersionResponse VERSION)])"
  "msg \<noteq> Version \<Longrightarrow> hm_get (clients st) i = None \<Longrightarrow> handle_message ops env i msg fds st g = (st, g, [])"
  by (simp_all add: handle_message_def)

lemma handle_message_inv:
  assumes inv: "agent_inv N {} st" and run: "handle_message ops env i msg fds st g = (st', g', acts)"
  shows "agent_inv N (deletes acts) st'"
proof (cases "msg = Version \<or> hm_get (clients st) i = None")
  case True
  then have "st' = st" "deletes acts = {}" using run
    by (cases "msg = Version"; auto simp: handle_message_ignored deletes_def)+
  then show ?thesis using inv by simp
next
  case False
  then obtain c where c: "hm_get (clients st) i = Some c" and nv: "msg \<noteq> Version" by auto
  show ?thesis
  proof (cases "client_state c")
    case Started
    have "started_client st = Some i" using inv c Started by (simp add: agent_inv_def)
    have e: "deletes [SendMessage i Ack] = {}" "deletes ([SendMessage i Ack] @ as) = deletes as" "deletes [] = {}" for as
      by (auto simp: deletes_def)
    show ?thesis
    proof (cases "msg = Stop")
      case True
      obtain st2 w2 as where d: "handle_disconnect i st (world g) = (st2, w2, as)" by (metis prod_cases3)
      then have "st' = st2" "acts = [SendMessage i Ack] @ as" using run c Started True by (simp_all add: handle_message_def)
      then show ?thesis using handle_disconnect_inv [OF inv d] e by simp
    next
      case False
      then show ?thesis
        using inv run c Started nv e by (auto simp: handle_message_def agent_inv_def split: ControlMessage.splits if_splits)
    qed
  next
    case Pending
    show ?thesis
    proof (cases msg)
      case (Start bs args)
      obtain r st1 g1 as where s: "start_client ops env i bs args fds st g = (r, st1, g1, as)" by (metis prod_cases4)
      note S = start_client_state [OF s]
      consider "r = Some MR_Started" | "r = None" | e where "r = Some (MR_Error e)" using S by auto
      then show ?thesis
      proof cases
        case 1
        then have "agent_inv N {} st'"
          using inv run c Pending Start s S by (auto simp: handle_message_def agent_inv_def split: if_splits)
        then show ?thesis using 1 run c Pending Start s S by (simp add: handle_message_def)
      next
        case 2
        then show ?thesis using inv run c Pending Start s S by (simp add: handle_message_def)
      next
        case (3 e)
        obtain st2 w2 as2 where d: "handle_disconnect i st (world g1) = (st2, w2, as2)" by (metis prod_cases3)
        have "st' = st2" "deletes acts = deletes as2"
          using run c Pending Start s S 3 d by (auto simp: handle_message_def deletes_def)
        then show ?thesis using handle_disconnect_inv [OF inv d] by simp
      qed
    qed (use inv run c Pending nv in \<open>auto simp: handle_message_def deletes_def\<close>)
  qed
qed

lemma timer_inv:
  assumes inv: "agent_inv N {} st"
  shows "\<exists>st' w' acts. timer clock st w = Some (st', w', acts) \<and> agent_inv N (deletes acts) st'"
proof (cases "started_client st")
  case None
  then show ?thesis using inv by (auto simp: timer_def Let_def agent_inv_def deletes_def)
next
  case (Some i)
  then obtain c where c: "hm_get (clients st) i = Some c" using inv by (auto simp: agent_inv_def)
  show ?thesis
  proof (cases "AgentClientState_timer (get_timestamp_ns (clock i)) c (timeout_ns st)")
    case True
    then show ?thesis using inv Some c by (auto simp: timer_def Let_def agent_inv_def deletes_def)
  next
    case False
    let ?p = "map (\<lambda>(i, c). DeleteEpoll i) (filter (\<lambda>(j, c). Some j \<noteq> started_client st \<and>
      \<not> AgentClientState_timer (get_timestamp_ns (clock j)) c (timeout_ns st)) (clients st))"
    have "deletes (?p @ [DeleteEpoll i]) = insert i (deletes ?p)" by (auto simp: deletes_def)
    then show ?thesis
      using False Some c end_session_inv [OF inv Some, of "deletes ?p" w]
      by (simp add: timer_def Let_def case_prod_beta)
  qed
qed

section \<open>Properties\<close>

text \<open>
  The reply to a start request, decided in this order: another client runs, no tracing arguments,
  fewer than two descriptors, a bad descriptor.
\<close>

definition start_refusal :: "env \<Rightarrow> bool \<Rightarrow> Args \<Rightarrow> i32 list \<Rightarrow> string option" where
  "start_refusal env busy args fds =
    (if busy then Some ''another client already started''
     else if args_tracing args = None then Some ''at least one arg must be non-empty''
     else if length fds < 2 then Some ''missing file descriptors''
     else if list_ex (\<lambda>fd. fd <s 0 \<or> env_fcntl_getfd env fd = - 1) (take 2 fds) then Some ''invalid file descriptors''
     else None)"

lemma validate_fd_None: "validate_and_convert_fd env fd = None \<longleftrightarrow> fd <s 0 \<or> env_fcntl_getfd env fd = - 1"
  by (simp add: validate_and_convert_fd_def)

lemma take_two: "\<not> length xs < 2 \<Longrightarrow> take 2 xs = [xs ! 0, xs ! 1]"
  by (cases xs; cases "tl xs") auto

lemma start_refused:
  assumes "start_refusal env (another_started st) args fds = Some e"
  shows "start_client ops env i bs args fds st g = (None, st, g, [SendMessage i (Nack e)])"
  using assms
  by (auto simp: start_refusal_def start_client_def Let_def take_two validate_and_convert_fd_def split: if_splits)

lemma start_accepted_fds:
  assumes "start_refusal env (another_started st) args fds = None"
  obtains m n where "validate_and_convert_fd env (fds ! 0) = Some m" "validate_and_convert_fd env (fds ! 1) = Some n"
    "\<not> another_started st" "args_tracing args \<noteq> None" "\<not> length fds < 2"
  using assms validate_fd_None [of env "fds ! 0"] validate_fd_None [of env "fds ! 1"]
  by (auto simp: start_refusal_def take_two split: if_splits)


definition pending_agent :: "('p, 'w) AgentState" where
  "pending_agent = register_client 5 1 (snd (get_next_client_id (AgentState_new 2000 None)))"

lemma pending_agent_inv: "agent_inv 2 {} (pending_agent :: ('p, 'w) AgentState)"
  using agent_inv_mono [OF register_client_inv [OF agent_inv_new [of 2000 "None :: ('p AgentHandle, 'w) Extension option"], of 5], of 2]
  by (simp add: pending_agent_def get_next_client_id_def AgentState_new_def)

definition fresh_world :: "ring_world globals" where
  "fresh_world = \<lparr>pid_cell = None, world = \<lparr>aspace = \<lambda>_. None, ring_mem = RingBuf_new (\<lambda>_. 0)\<rparr>\<rparr>"

definition quiet_env :: env where
  "quiet_env = \<lparr>env_clock = (1, 0), env_fcntl_getfd = \<lambda>_. 0, env_pid = 42, env_random = - 7, env_exe_name = None\<rparr>"


lemma saturating_le: "saturating_sub a b \<le> t \<longleftrightarrow> unat a - unat b \<le> unat (t :: u64)"
  by (simp add: word_le_nat_alt unat_saturating_sub)

text \<open>
  C19 (the timer): it never panics, queues the deletion of exactly the clients whose last message is
  older than the timeout on the clock read for them, and ends the running session, which stops an
  active extension, exactly when the started client is one of them.
\<close>

theorem timer_evicts_expired:
  assumes inv: "agent_inv N {} st"
  shows "\<exists>st' w' acts. timer clock st w = Some (st', w', acts) \<and>
    (\<forall>i. DeleteEpoll i \<in> set acts \<longleftrightarrow>
      (\<exists>c. hm_get (clients st) i = Some c \<and> unat (timeout_ns st) < unat (get_timestamp_ns (clock i)) - unat (timestamp_ns c))) \<and>
    (\<exists>i. started_client st = Some i \<and> DeleteEpoll i \<in> set acts \<and> started_client st' = None \<and> \<not> another_started st' \<and>
        (st', w') = (let (st1, w1) = stop_extension st w in (st1\<lparr>another_started := False, started_client := None\<rparr>, w1)) \<or>
      (\<forall>i. started_client st = Some i \<longrightarrow> DeleteEpoll i \<notin> set acts) \<and> st' = st \<and> w' = w)"
proof -
  let ?e = "\<lambda>i c. \<not> AgentClientState_timer (get_timestamp_ns (clock i)) c (timeout_ns st)"
  define P where "P = map (\<lambda>(i, c). DeleteEpoll i) (filter (\<lambda>(j, c). Some j \<noteq> started_client st \<and> ?e j c) (clients st))"
  have d: "distinct (map fst (clients st))" using inv by (simp add: agent_inv_def)
  have p: "DeleteEpoll i \<in> set P \<longleftrightarrow> (\<exists>c. hm_get (clients st) i = Some c \<and> Some i \<noteq> started_client st \<and> ?e i c)" for i
    unfolding P_def by (force simp: hm_get_mem [OF d])
  have e: "?e i c \<longleftrightarrow> unat (timeout_ns st) < unat (get_timestamp_ns (clock i)) - unat (timestamp_ns c)" for i c
    by (simp add: AgentClientState_timer_def saturating_le not_le)
  show ?thesis
  proof (cases "started_client st")
    case None
    then have "timer clock st w = Some (st, w, P)" by (simp add: timer_def P_def)
    then show ?thesis using None p by (simp add: e)
  next
    case (Some s)
    then obtain c where c: "hm_get (clients st) s = Some c" using inv by (auto simp: agent_inv_def)
    show ?thesis
    proof (cases "?e s c")
      case False
      then have "timer clock st w = Some (st, w, P)" using Some c by (simp add: timer_def P_def)
      moreover have "DeleteEpoll i \<in> set P \<longleftrightarrow> (\<exists>c. hm_get (clients st) i = Some c \<and> ?e i c)" for i
        unfolding p using False Some c by auto
      ultimately show ?thesis using False Some c by (auto simp: e)
    next
      case True
      let ?r = "let (st1, w1) = stop_extension st w in (st1\<lparr>another_started := False, started_client := None\<rparr>, w1)"
      have t: "timer clock st w = Some (fst ?r, snd ?r, P @ [DeleteEpoll s])"
        using True Some c by (simp add: timer_def P_def Let_def case_prod_beta)
      have q: "DeleteEpoll i \<in> set (P @ [DeleteEpoll s]) \<longleftrightarrow> (\<exists>c. hm_get (clients st) i = Some c \<and> ?e i c)" for i
        using p [of i] True Some c by auto
      show ?thesis
        unfolding t using Some q [unfolded e] by (auto simp: Let_def case_prod_beta)
    qed
  qed
qed

theorem timer_evicts_expired_witness:
  "\<exists>st' w' acts. timer (\<lambda>_. (3, 0)) (pending_agent :: (unit, unit) AgentState) () = Some (st', w', acts) \<and> DeleteEpoll 1 \<in> set acts"
  using timer_evicts_expired [OF pending_agent_inv, where clock = "\<lambda>_. (3, 0)" and w = "()"]
  by (fastforce simp: pending_agent_def register_client_def get_next_client_id_def AgentState_new_def hm_get_def
      AgentClientState_new_def get_timestamp_ns_def)

text \<open>
  With the option set, the process id becomes the absolute value of the
  random number, which is non-negative except that the smallest 32 bit integer is its own absolute
  value.
\<close>

theorem random_process_id_sign:
  assumes "hm_get (args_options args) ''random_process_id'' = Some (Value_Bool True)"
  shows "\<exists>p. apply_pid_option env args cell = Some p \<and> (p <s 0 \<longleftrightarrow> env_random env = push_bit 31 1)"
proof -
  let ?x = "env_random env"
  have m: "unat (push_bit 31 1 :: i32) = 2 ^ 31" by (simp add: push_bit_eq_mult)
  have "unat ?x < 2 ^ 32" using unat_lt [of ?x] by simp
  then have "abs_i32 ?x <s 0 \<longleftrightarrow> ?x = push_bit 31 1"
    unfolding abs_i32_def word_unat_eq_iff m sless_zero_i32
    by (cases "?x = 0") (auto simp: sless_zero_i32 unat_uminus_i32)
  then show ?thesis
    using assms by (simp add: apply_pid_option_def RANDOM_PROCESS_ID_OPTION_def set_process_id_def)
qed

theorem random_process_id_sign_witness:
  "\<exists>p. apply_pid_option (quiet_env\<lparr>env_random := push_bit 31 1\<rparr>)
      \<lparr>args_tracing = None, args_options = [(''random_process_id'', Value_Bool True)]\<rparr> None = Some p \<and> p <s 0"
  using random_process_id_sign [of "\<lparr>args_tracing = None, args_options = [(''random_process_id'', Value_Bool True)]\<rparr>"
      "quiet_env\<lparr>env_random := push_bit 31 1\<rparr>" None]
  by (auto simp: hm_get_def)

end
