(* ===== verification/EpollThread.thy ===== *)
theory EpollThread
  imports AgentState
begin

text \<open>
  The listener thread of the agent (agent/src/epoll_thread.rs) and its owner (agent/src/agent.rs).

  One round of the loop takes the events the wait returned, each with what the system calls of its
  handler return, and then runs the timer.  The sockets are file descriptors, and the calls on them
  and on the epoll instance are the argument \<open>net\<close>; they may change the world.  A round ends with the
  loop state, or with the error or panic that ends the thread.
\<close>

section \<open>Definitions\<close>

definition LISTENER_TOKEN :: u64 where "LISTENER_TOKEN = 0"

record 'w net =
  net_ser :: "ControlMessage \<Rightarrow> ser"
  net_access :: "u8 list \<Rightarrow> (RancorError, ControlMessage) result"
  net_sendmsg :: "nat \<Rightarrow> u8 list \<Rightarrow> 'w \<Rightarrow> string option \<times> 'w"
  net_epoll_add :: "nat \<Rightarrow> u64 \<Rightarrow> 'w \<Rightarrow> string option \<times> 'w"
  net_epoll_delete :: "nat \<Rightarrow> 'w \<Rightarrow> string option \<times> 'w"

datatype accept_result = Accepted nat "string option" | AcceptWouldBlock | AcceptError string

datatype recv_result = Received "u8 list" "i32 list" | RecvAgain | RecvError string

datatype epoll_event =
    OnListener accept_result
  | OnHangup u64
  | OnReadable u64 recv_result

datatype thread_exit = Failed AgentError | Panicked

record ('p, 'w) listener =
  agent :: "('p, 'w) AgentState"
  client_sockets :: "(u64 \<times> nat) list"
  glob :: "'w globals"

type_synonym ('p, 'w, 'a) lst = "(('p, 'w) listener, thread_exit, 'a) stm"

text \<open>A message serialised into a fresh buffer, as every sender in the crate does it.\<close>

definition to_buffer :: "ser \<Rightarrow> (RancorError, u8 list) result" where
  "to_buffer message =
    (case compute_length message of
       Inl e \<Rightarrow> Err e
     | Inr n \<Rightarrow>
         (case serialize_to_buf message (replicate (unat n) 0) of
            (Some e, _) \<Rightarrow> Err e
          | (None, buf) \<Rightarrow> Ok buf))"

primrec process_actions ::
  "'w net \<Rightarrow> (u64 \<times> nat) list \<Rightarrow> Action list \<Rightarrow> u64 list \<Rightarrow> ('w, AgentError, u64 list) stm" where
  "process_actions net sockets [] ids = ret ids"
| "process_actions net sockets (action # actions) ids =
    (case action of
       SendMessage client_id message \<Rightarrow>
         (case hm_get sockets client_id of
            None \<Rightarrow> process_actions net sockets actions ids
          | Some stream \<Rightarrow>
              (case to_buffer (net_ser net message) of
                 Inl e \<Rightarrow> throw (AgentError_Archive e)
               | Inr buf \<Rightarrow>
                   (\<lambda>w. process_actions net sockets actions ids (snd (net_sendmsg net stream buf w)))))
     | DeleteEpoll client_id \<Rightarrow> process_actions net sockets actions (ids @ [client_id]))"

definition drop_client :: "'w net \<Rightarrow> u64 \<Rightarrow> ('p, 'w, unit) lst" where
  "drop_client net token l =
    (let l1 = l\<lparr>agent := remove_client token (agent l)\<rparr> in
     case hm_get (client_sockets l) token of
       None \<Rightarrow> (Ok (), l1)
     | Some socket \<Rightarrow>
         (case net_epoll_delete net socket (world (glob l)) of
            (e, w) \<Rightarrow>
              (case e of Some m \<Rightarrow> Err (Failed (AgentError_Nix m)) | None \<Rightarrow> Ok (),
               l1\<lparr>client_sockets := hm_remove token (client_sockets l), glob := (glob l)\<lparr>world := w\<rparr>\<rparr>)))"

definition run_actions :: "'w net \<Rightarrow> Action list \<Rightarrow> ('p, 'w, unit) lst" where
  "run_actions net actions l =
    (case process_actions net (client_sockets l) actions [] (world (glob l)) of
       (Inl e, w) \<Rightarrow> (Err (Failed e), l\<lparr>glob := (glob l)\<lparr>world := w\<rparr>\<rparr>)
     | (Inr ids, w) \<Rightarrow> try_each (drop_client net) ids (l\<lparr>glob := (glob l)\<lparr>world := w\<rparr>\<rparr>))"

definition on_accept :: "'w net \<Rightarrow> env \<Rightarrow> accept_result \<Rightarrow> ('p, 'w, unit) lst" where
  "on_accept net env r l =
    (case r of
       Accepted stream nonblocking \<Rightarrow>
         (case nonblocking of
            Some m \<Rightarrow> (Err (Failed (AgentError_Io OtherKind m)), l)
          | None \<Rightarrow>
              let (client_id, st) = get_next_client_id (agent l) in
              (case net_epoll_add net stream client_id (world (glob l)) of
                 (Some m, w) \<Rightarrow> (Err (Failed (AgentError_Nix m)), l\<lparr>agent := st, glob := (glob l)\<lparr>world := w\<rparr>\<rparr>)
               | (None, w) \<Rightarrow>
                   run_actions net []
                     (l\<lparr>agent := register_client (get_timestamp_ns (env_clock env)) client_id st,
                        client_sockets := hm_insert client_id stream (client_sockets l),
                        glob := (glob l)\<lparr>world := w\<rparr>\<rparr>)))
     | AcceptWouldBlock \<Rightarrow> (Ok (), l)
     | AcceptError m \<Rightarrow> (Ok (), l))"

definition disconnect :: "'w net \<Rightarrow> u64 \<Rightarrow> ('p, 'w, unit) lst" where
  "disconnect net client_id l =
    (case handle_disconnect client_id (agent l) (world (glob l)) of
       (st, w, actions) \<Rightarrow> run_actions net actions (l\<lparr>agent := st, glob := (glob l)\<lparr>world := w\<rparr>\<rparr>))"

definition on_readable ::
  "('p, 'w) producer_ops \<Rightarrow> 'w net \<Rightarrow> env \<Rightarrow> u64 \<Rightarrow> recv_result \<Rightarrow> ('p, 'w, unit) lst" where
  "on_readable ops net env client_id r l =
    (case hm_get (client_sockets l) client_id of
       None \<Rightarrow> (Ok (), l)
     | Some stream \<Rightarrow>
         (case r of
            Received data raw_fds \<Rightarrow>
              if data \<noteq> [] then
                (case net_access net data of
                   Inr msg \<Rightarrow>
                     (case handle_message ops env client_id msg raw_fds (agent l) (glob l) of
                        (st, g, actions) \<Rightarrow> run_actions net actions (l\<lparr>agent := st, glob := g\<rparr>))
                 | Inl e \<Rightarrow> (Ok (), l))
              else (Ok (), l)
          | RecvAgain \<Rightarrow> (Ok (), l)
          | RecvError m \<Rightarrow> disconnect net client_id l))"

definition handle_event ::
  "('p, 'w) producer_ops \<Rightarrow> 'w net \<Rightarrow> epoll_event \<times> env \<Rightarrow> ('p, 'w, unit) lst" where
  "handle_event ops net e =
    (case e of
       (OnListener r, env) \<Rightarrow> on_accept net env r
     | (OnHangup client_id, env) \<Rightarrow> if client_id \<noteq> LISTENER_TOKEN then disconnect net client_id else ret ()
     | (OnReadable client_id r, env) \<Rightarrow>
         if client_id \<noteq> LISTENER_TOKEN then on_readable ops net env client_id r else ret ())"

definition run_timer :: "'w net \<Rightarrow> (u64 \<Rightarrow> i64 \<times> i64) \<Rightarrow> ('p, 'w, unit) lst" where
  "run_timer net clock l =
    (case timer clock (agent l) (world (glob l)) of
       None \<Rightarrow> (Err Panicked, l)
     | Some (st, w, actions) \<Rightarrow> run_actions net actions (l\<lparr>agent := st, glob := (glob l)\<lparr>world := w\<rparr>\<rparr>))"

definition listener_round ::
  "('p, 'w) producer_ops \<Rightarrow> 'w net \<Rightarrow> (epoll_event \<times> env) list \<Rightarrow> (u64 \<Rightarrow> i64 \<times> i64) \<Rightarrow> ('p, 'w, unit) lst" where
  "listener_round ops net events clock =
    try_bind (try_each (handle_event ops net) events) (\<lambda>_. run_timer net clock)"

text \<open>The loop until the shutdown flag is seen, for the rounds given.\<close>

definition epoll_listener_thread ::
  "('p, 'w) producer_ops \<Rightarrow> 'w net \<Rightarrow> ((epoll_event \<times> env) list \<times> (u64 \<Rightarrow> i64 \<times> i64)) list \<Rightarrow> ('p, 'w, unit) lst" where
  "epoll_listener_thread ops net = try_each (\<lambda>(events, clock). listener_round ops net events clock)"

definition listener_new :: "u16 \<Rightarrow> ('p AgentHandle, 'w) Extension option \<Rightarrow> 'w globals \<Rightarrow> ('p, 'w) listener" where
  "listener_new tmo ext g = \<lparr>agent = AgentState_new tmo ext, client_sockets = [], glob = g\<rparr>"

subsection \<open>The builder\<close>

record ('p, 'w) AgentBuilder =
  socket_path :: string
  builder_timeout_ms :: u16
  builder_extension :: "('p AgentHandle, 'w) Extension option"

definition AgentBuilder_new :: "string \<Rightarrow> ('p, 'w) AgentBuilder" where
  "AgentBuilder_new path = \<lparr>socket_path = path, builder_timeout_ms = ucast (CLIENT_TIMEOUT_NS div 1000000),
    builder_extension = None\<rparr>"

definition with_timeout :: "u16 \<Rightarrow> ('p, 'w) AgentBuilder \<Rightarrow> ('p, 'w) AgentBuilder" where
  "with_timeout tmo b = b\<lparr>builder_timeout_ms := tmo\<rparr>"

definition register_tracing :: "('p AgentHandle, 'w) Extension \<Rightarrow> ('p, 'w) AgentBuilder \<Rightarrow> ('p, 'w) AgentBuilder" where
  "register_tracing ext b = b\<lparr>builder_extension := Some ext\<rparr>"

definition build :: "'w globals \<Rightarrow> ('p, 'w) AgentBuilder \<Rightarrow> ('p, 'w) listener" where
  "build g b = listener_new (builder_timeout_ms b) (builder_extension b) g"

definition Agent_with_timeout :: "u16 \<Rightarrow> 'w globals \<Rightarrow> ('p, 'w) listener" where
  "Agent_with_timeout tmo g = listener_new tmo None g"

definition Agent_new :: "'w globals \<Rightarrow> ('p, 'w) listener" where
  "Agent_new g = Agent_with_timeout (ucast (CLIENT_TIMEOUT_NS div 1000000)) g"

text \<open>The owner of the thread: what joining it will give, its socket path and the shutdown flag.\<close>

record Agent =
  socket_thread :: "(thread_exit, unit) result option"
  agent_path :: string
  shutdown :: bool

definition wait_terminated :: "Agent \<Rightarrow> (AgentError, unit) result \<times> Agent" where
  "wait_terminated a =
    (let a1 = a\<lparr>shutdown := True\<rparr> in
     case socket_thread a1 of
       None \<Rightarrow> (Ok (), a1)
     | Some outcome \<Rightarrow>
         (case outcome of
            Inl Panicked \<Rightarrow> Err (AgentError_Io OtherKind ''Thread panicked'')
          | Inl (Failed e) \<Rightarrow> Err e
          | Inr _ \<Rightarrow> Ok (), a1\<lparr>socket_thread := None\<rparr>))"

definition Agent_drop :: "Agent \<Rightarrow> string set \<Rightarrow> Agent \<times> string set" where
  "Agent_drop a files = (a\<lparr>shutdown := True\<rparr>, files - {agent_path a})"

section \<open>The invariant of the loop\<close>

definition listener_inv :: "nat \<Rightarrow> u64 set \<Rightarrow> ('p, 'w) listener \<Rightarrow> bool" where
  "listener_inv N D l \<longleftrightarrow> agent_inv N D (agent l) \<and> distinct (map fst (client_sockets l)) \<and>
    (\<forall>i. hm_get (client_sockets l) i = None \<longleftrightarrow> hm_get (clients (agent l)) i = None)"

definition loop_post :: "nat \<Rightarrow> (thread_exit, 'a) result \<Rightarrow> ('p, 'w) listener \<Rightarrow> bool" where
  "loop_post N r l = (case r of Inl e \<Rightarrow> e \<noteq> Panicked | Inr _ \<Rightarrow> listener_inv N {} l)"

lemma listener_inv_new: "listener_inv 1 {} (listener_new t ext g)"
  using agent_inv_new [of t ext] by (simp add: listener_inv_def listener_new_def AgentState_new_def hm_get_def)

lemma listener_inv_glob [simp]: "listener_inv N D (l\<lparr>glob := g\<rparr>) = listener_inv N D l"
  by (simp add: listener_inv_def)

lemma listener_inv_mono: "listener_inv N D l \<Longrightarrow> N \<le> M \<Longrightarrow> listener_inv M D l"
  by (auto simp: listener_inv_def intro: agent_inv_mono)

lemma listener_inv_Suc: "listener_inv N D l \<Longrightarrow> listener_inv (Suc N) D l"
  by (erule listener_inv_mono) simp

lemma loop_post_simps [simp]: "loop_post N (Ok a) = listener_inv N {}" "loop_post N (Err e) l = (e \<noteq> Panicked)"
  by (auto simp: loop_post_def fun_eq_iff)

lemma loop_post_Suc: "loop_post N r l \<Longrightarrow> loop_post (Suc N) r l"
  by (cases r) (auto intro: listener_inv_Suc)

lemma process_actions_ids:
  "process_actions net sockets actions ids w = (Ok ids', w') \<Longrightarrow> set ids' = set ids \<union> deletes actions"
proof (induction actions arbitrary: ids w)
  case Nil
  then show ?case by (simp add: deletes_def)
next
  case (Cons a actions)
  show ?case
  proof (cases a)
    case (SendMessage i m)
    then have "deletes (a # actions) = deletes actions" by (auto simp: deletes_def)
    then show ?thesis using Cons SendMessage by (auto split: option.splits sum.splits)
  next
    case (DeleteEpoll i)
    then have "deletes (a # actions) = insert i (deletes actions)" by (auto simp: deletes_def)
    then show ?thesis using Cons.IH [of "ids @ [i]"] Cons.prems DeleteEpoll by simp
  qed
qed

lemma drop_client_cases:
  assumes "drop_client net t l = (r, l')"
  shows "agent l' = remove_client t (agent l)"
    "client_sockets l' = hm_remove t (client_sockets l) \<or> hm_get (client_sockets l) t = None \<and> client_sockets l' = client_sockets l"
    "r \<noteq> Err Panicked"
  using assms by (auto simp: drop_client_def Let_def split: option.splits prod.splits)

lemma drop_client_inv:
  assumes inv: "listener_inv N D l" and run: "drop_client net t l = (r, l')" and t: "t \<in> D"
  shows "listener_inv N D l'" "hm_get (clients (agent l')) t = None"
    "hm_get (clients (agent l)) i = None \<Longrightarrow> hm_get (clients (agent l')) i = None"
proof -
  note c = drop_client_cases [OF run]
  have g: "hm_get (clients (agent l')) i = (if i = t then None else hm_get (clients (agent l)) i)" for i
    by (simp add: c(1) remove_client_def)
  show "hm_get (clients (agent l')) t = None" "hm_get (clients (agent l)) i = None \<Longrightarrow> hm_get (clients (agent l')) i = None"
    by (simp_all add: g)
  have "agent_inv N D (agent l')" using inv t by (simp add: c(1) remove_client_inv listener_inv_def)
  then show "listener_inv N D l'"
    using c(2) inv by (auto simp: listener_inv_def g hm_remove_distinct)
qed

lemma drop_clients_inv:
  "listener_inv N D l \<Longrightarrow> set ids \<subseteq> D \<Longrightarrow> try_each (drop_client net) ids l = (r, l') \<Longrightarrow>
    r \<noteq> Err Panicked \<and> (r = Ok () \<longrightarrow> listener_inv N D l' \<and>
      (\<forall>i. i \<in> set ids \<or> hm_get (clients (agent l)) i = None \<longrightarrow> hm_get (clients (agent l')) i = None))"
proof (induction ids arbitrary: l)
  case (Cons t ids)
  obtain r1 l1 where d: "drop_client net t l = (r1, l1)" by fastforce
  have inv1: "listener_inv N D l1" "hm_get (clients (agent l1)) t = None"
    "\<And>i. hm_get (clients (agent l)) i = None \<Longrightarrow> hm_get (clients (agent l1)) i = None"
    using drop_client_inv [OF Cons.prems(1) d] Cons.prems(2) by auto
  show ?case
  proof (cases r1)
    case (Inl e)
    then show ?thesis using Cons.prems(3) d drop_client_cases(3) [OF d] by (auto simp: try_bind_def)
  next
    case (Inr u)
    then have "try_each (drop_client net) ids l1 = (r, l')" using Cons.prems(3) d by (simp add: try_bind_def)
    from Cons.IH [OF inv1(1) _ this] Cons.prems(2) inv1(2,3) show ?thesis by auto
  qed
qed auto

lemma run_actions_inv: "triple (listener_inv N (deletes actions)) (run_actions net actions) (loop_post N)"
proof (rule tripleI)
  fix l r l'
  assume inv: "listener_inv N (deletes actions) l" and run: "run_actions net actions l = (r, l')"
  obtain r1 w where p: "process_actions net (client_sockets l) actions [] (world (glob l)) = (r1, w)" by fastforce
  show "loop_post N r l'"
  proof (cases r1)
    case (Inl e)
    then show ?thesis using run p by (auto simp: run_actions_def loop_post_def)
  next
    case (Inr ids)
    have ids: "set ids = deletes actions" using process_actions_ids [OF p [unfolded Inr]] by simp
    have "try_each (drop_client net) ids (l\<lparr>glob := (glob l)\<lparr>world := w\<rparr>\<rparr>) = (r, l')"
      using run p Inr by (simp add: run_actions_def)
    from drop_clients_inv [OF _ _ this, of N "deletes actions"] inv ids
    have d: "r \<noteq> Err Panicked" "r = Ok () \<Longrightarrow> listener_inv N (deletes actions) l'"
      "\<And>i. r = Ok () \<Longrightarrow> i \<in> deletes actions \<Longrightarrow> hm_get (clients (agent l')) i = None"
      by auto
    show ?thesis
    proof (cases r)
      case (Inl e)
      then show ?thesis using d(1) by (auto simp: loop_post_def)
    next
      case (Inr u)
      then have "agent_inv N {} (agent l')"
        using d(2,3) agent_inv_settled [of N "deletes actions" "agent l'"] by (auto simp: listener_inv_def)
      then show ?thesis using d(2) Inr by (simp add: loop_post_def listener_inv_def)
    qed
  qed
qed

lemma run_actions_after:
  assumes "agent_inv N (deletes actions) st" "distinct (map fst socks)"
    "\<And>i. hm_get socks i = None \<longleftrightarrow> hm_get (clients st) i = None"
    "run_actions net actions (l\<lparr>agent := st, client_sockets := socks, glob := g\<rparr>) = (r, l')"
  shows "loop_post N r l'"
  by (rule tripleD [OF run_actions_inv _ assms(4)]) (use assms(1-3) in \<open>simp add: listener_inv_def\<close>)

lemma handle_disconnect_clients: "clients (fst (handle_disconnect i st w)) = clients st"
  by (simp add: handle_disconnect_def Let_def case_prod_beta)

lemma start_client_clients: "clients (fst (snd (start_client ops env i bs args fds st g))) = clients st"
  by (auto simp: start_client_def Let_def split: option.splits sum.splits prod.splits ExtensionError.splits)

lemma handle_message_keys:
  assumes "handle_message ops env i msg fds st g = (st', g', acts)"
  shows "hm_get (clients st') j = None \<longleftrightarrow> hm_get (clients st) j = None"
proof (cases "msg = Version \<or> hm_get (clients st) i = None")
  case True
  then show ?thesis using assms by (cases "msg = Version") (auto simp: handle_message_ignored)
next
  case False
  have s: "start_client ops env i bs args fds st g = (r, st1, g1, as) \<Longrightarrow> clients st1 = clients st" for bs args r st1 g1 as
    using start_client_clients [of ops env i bs args fds st g] by simp
  have d: "handle_disconnect i st0 w = (st2, w2, as) \<Longrightarrow> clients st2 = clients st0" for st0 w st2 w2 as
    using handle_disconnect_clients [of i st0 w] by simp
  show ?thesis
    using False assms
    by (auto simp: handle_message_def Let_def dest!: s d
        split: State.splits ControlMessage.splits prod.splits option.splits MessageResult.splits if_splits)
qed

lemma timer_clients: "timer clock st w = Some (st', w', acts) \<Longrightarrow> clients st' = clients st"
  by (auto simp: timer_def Let_def case_prod_beta split: option.splits if_splits)

lemma disconnect_inv: "triple (listener_inv N {}) (disconnect net i) (loop_post N)"
proof (rule tripleI)
  fix l r l'
  assume inv: "listener_inv N {} l" and run: "disconnect net i l = (r, l')"
  obtain st w acts where h: "handle_disconnect i (agent l) (world (glob l)) = (st, w, acts)" by (metis prod_cases3)
  have "agent_inv N (deletes acts) st" "clients st = clients (agent l)"
    using handle_disconnect_inv [OF _ h] inv handle_disconnect_clients [of i "agent l" "world (glob l)"] h
    by (auto simp: listener_inv_def)
  then show "loop_post N r l'"
    using run h inv
    by (intro run_actions_after [where actions = acts and st = st and socks = "client_sockets l" and l = l and g = "(glob l)\<lparr>world := w\<rparr>"])
      (auto simp: disconnect_def listener_inv_def)
qed

lemma on_accept_inv:
  assumes "N + 1 < 2 ^ 64"
  shows "triple (listener_inv N {}) (on_accept net env a) (loop_post (N + 1))"
proof (rule tripleI)
  fix l r l'
  assume inv: "listener_inv N {} l" and run: "on_accept net env a l = (r, l')"
  let ?i = "next_client_id (agent l)"
  let ?st = "register_client (get_timestamp_ns (env_clock env)) ?i ((agent l)\<lparr>next_client_id := ?i + 1\<rparr>)"
  show "loop_post (N + 1) r l'"
  proof (cases "\<exists>stream w. a = Accepted stream None \<and> net_epoll_add net stream ?i (world (glob l)) = (None, w)")
    case True
    then obtain stream w where a: "a = Accepted stream None" "net_epoll_add net stream ?i (world (glob l)) = (None, w)" by auto
    have "agent_inv (N + 1) {} ?st" using inv assms by (intro register_client_inv) (simp_all add: listener_inv_def)
    then have "agent_inv (N + 1) (deletes []) ?st" by (simp add: deletes_def)
    then show ?thesis
      using run a inv
      by (intro run_actions_after [where actions = "[]" and st = ?st and socks = "hm_insert ?i stream (client_sockets l)" and l = l and g = "(glob l)\<lparr>world := w\<rparr>"])
        (auto simp: on_accept_def get_next_client_id_def listener_inv_def hm_insert_distinct register_client_def)
  next
    case False
    then show ?thesis
      using run inv
      by (auto simp: on_accept_def loop_post_def get_next_client_id_def split: accept_result.splits option.splits prod.splits
          intro: listener_inv_Suc)
  qed
qed

lemma on_readable_inv: "triple (listener_inv N {}) (on_readable ops net env i a) (loop_post N)"
proof (rule tripleI)
  fix l r l'
  assume inv: "listener_inv N {} l" and run: "on_readable ops net env i a l = (r, l')"
  consider (msg) data fds msg stream where "a = Received data fds" "data \<noteq> []" "net_access net data = Ok msg"
      "hm_get (client_sockets l) i = Some stream"
    | (disc) m stream where "a = RecvError m" "hm_get (client_sockets l) i = Some stream"
    | (skip) "r = Ok ()" "l' = l"
    using run by (auto simp: on_readable_def split: option.splits recv_result.splits if_splits sum.splits)
  then show "loop_post N r l'"
  proof cases
    case msg
    obtain st g acts where h: "handle_message ops env i msg fds (agent l) (glob l) = (st, g, acts)" by (metis prod_cases3)
    have "agent_inv N (deletes acts) st" using handle_message_inv [OF _ h] inv by (simp add: listener_inv_def)
    then show ?thesis
      using run h inv msg handle_message_keys [OF h]
      by (intro run_actions_after [where actions = acts and st = st and socks = "client_sockets l" and l = l and g = g]) (auto simp: on_readable_def listener_inv_def)
  next
    case disc
    then have "disconnect net i l = (r, l')" using run by (auto simp: on_readable_def)
    then show ?thesis by (rule tripleD [OF disconnect_inv inv])
  next
    case skip
    then show ?thesis using inv by (simp add: loop_post_def)
  qed
qed

lemma run_timer_inv: "triple (listener_inv N {}) (run_timer net clock) (loop_post N)"
proof (rule tripleI)
  fix l r l'
  assume inv: "listener_inv N {} l" and run: "run_timer net clock l = (r, l')"
  obtain st w acts where t: "timer clock (agent l) (world (glob l)) = Some (st, w, acts)" "agent_inv N (deletes acts) st"
    using timer_inv [of N "agent l"] inv by (auto simp: listener_inv_def) metis
  then show "loop_post N r l'"
    using run inv timer_clients [OF t(1)]
    by (intro run_actions_after [where actions = acts and st = st and socks = "client_sockets l" and l = l and g = "(glob l)\<lparr>world := w\<rparr>"])
      (auto simp: run_timer_def listener_inv_def)
qed

lemma handle_event_inv:
  assumes "N + 1 < 2 ^ 64"
  shows "triple (listener_inv N {}) (handle_event ops net e) (loop_post (N + 1))"
proof -
  have skip: "triple (listener_inv N {} :: ('a, 'b) listener \<Rightarrow> bool) (ret ()) (loop_post (N + 1))"
    by (rule triple_ret) (auto intro: listener_inv_Suc)
  have disc: "triple (listener_inv N {} :: ('a, 'b) listener \<Rightarrow> bool) (disconnect net i) (loop_post (N + 1))" for i
    by (rule triple_conseq [OF disconnect_inv [of N]]) (auto intro: loop_post_Suc)
  have readable: "triple (listener_inv N {}) (on_readable ops net env i a) (loop_post (N + 1))" for env i a
    by (rule triple_conseq [OF on_readable_inv [of N]]) (auto intro: loop_post_Suc)
  obtain ev env where e: "e = (ev, env)" by fastforce
  show ?thesis
    using on_accept_inv [OF assms] skip disc readable unfolding e handle_event_def by (cases ev) simp_all
qed

lemma handle_events_inv:
  "N + length events < 2 ^ 64 \<Longrightarrow>
    triple (listener_inv N {}) (try_each (handle_event ops net) events) (loop_post (N + length events))"
proof (induction events arbitrary: N)
  case Nil
  then show ?case by (auto simp: triple_def loop_post_def)
next
  case (Cons e events)
  have "triple (listener_inv N {}) (handle_event ops net e) (loop_post (N + 1))"
    using Cons.prems by (intro handle_event_inv) simp
  moreover have "triple (listener_inv (N + 1) {}) (try_each (handle_event ops net) events) (loop_post (N + 1 + length events))"
    using Cons.prems by (intro Cons.IH) simp
  ultimately show ?case
    unfolding try_each.simps by (intro triple_bind [where Q = "loop_post (N + 1)"]) (simp_all add: add.assoc)
qed

lemma round_inv:
  assumes "N + length events < 2 ^ 64"
  shows "triple (listener_inv N {}) (listener_round ops net events clock) (loop_post (N + length events))"
  unfolding listener_round_def
  by (rule triple_bind [OF handle_events_inv [OF assms]])
    (simp_all add: run_timer_inv)

definition accepts :: "((epoll_event \<times> env) list \<times> (u64 \<Rightarrow> i64 \<times> i64)) list \<Rightarrow> nat" where
  "accepts rounds = sum_list (map (length \<circ> fst) rounds)"

lemma thread_inv:
  "N + accepts rounds < 2 ^ 64 \<Longrightarrow>
    triple (listener_inv N {}) (epoll_listener_thread ops net rounds) (loop_post (N + accepts rounds))"
proof (induction rounds arbitrary: N)
  case Nil
  then show ?case by (auto simp: triple_def loop_post_def epoll_listener_thread_def accepts_def)
next
  case (Cons r rounds)
  obtain events clock where r: "r = (events, clock)" by fastforce
  have a: "accepts (r # rounds) = length events + accepts rounds" by (simp add: accepts_def r)
  have "triple (listener_inv N {}) (listener_round ops net events clock) (loop_post (N + length events))"
    using Cons.prems a by (intro round_inv) simp
  moreover have "triple (listener_inv (N + length events) {}) (epoll_listener_thread ops net rounds)
      (loop_post (N + length events + accepts rounds))"
    using Cons.prems a by (intro Cons.IH) simp
  ultimately show ?case
    unfolding epoll_listener_thread_def try_each.simps r prod.case a [unfolded r]
    by (intro triple_bind [where Q = "loop_post (N + length events)"]) (simp_all add: add.assoc)
qed

section \<open>Properties\<close>

text \<open>
  C17 (the agent serves at most one client and never panics): however the events arrive and whatever
  the sockets answer, the thread never panics, and after every number of rounds that it survives
  exactly the client recorded as started is in state \<open>Started\<close>, the flags agree with it, the extension
  is active only for it, and the sockets are those of the registered clients.
\<close>

theorem listener_keeps_invariant:
  assumes "accepts rounds < 2 ^ 64 - 1" "epoll_listener_thread ops net rounds (listener_new tmo ext g) = (r, l)"
  shows "r \<noteq> Err Panicked \<and>
    (r = Ok () \<longrightarrow>
      (\<forall>i c. hm_get (clients (agent l)) i = Some c \<longrightarrow> (client_state c = Started \<longleftrightarrow> started_client (agent l) = Some i)) \<and>
      (\<forall>i. started_client (agent l) = Some i \<longrightarrow> hm_get (clients (agent l)) i \<noteq> None) \<and>
      (another_started (agent l) \<longleftrightarrow> started_client (agent l) \<noteq> None) \<and>
      (extension_active (agent l) \<longrightarrow> started_client (agent l) \<noteq> None) \<and>
      (\<forall>i. hm_get (client_sockets l) i = None \<longleftrightarrow> hm_get (clients (agent l)) i = None))"
proof -
  have "1 + accepts rounds < 2 ^ 64" using assms(1) by simp
  from tripleD [OF thread_inv [OF this] listener_inv_new assms(2)] show ?thesis
    by (auto simp: loop_post_def listener_inv_def agent_inv_def)
qed

text \<open>Sockets that accept everything.\<close>

definition quiet_net :: "'w net" where
  "quiet_net = \<lparr>net_ser = \<lambda>_. Done, net_access = \<lambda>_. Err OutOfSpaceError, net_sendmsg = \<lambda>_ _ w. (None, w),
    net_epoll_add = \<lambda>_ _ w. (None, w), net_epoll_delete = \<lambda>_ w. (None, w)\<rparr>"

theorem listener_keeps_invariant_witness:
  "\<exists>l. epoll_listener_thread (mpsc_ops example_os (\<lambda>_. Ok ()) True (\<lambda>_. Done)) quiet_net
      [([(OnListener (Accepted 9 None), quiet_env)], \<lambda>_. (1, 0))] (listener_new 2000 None fresh_world) = (Ok (), l) \<and>
    hm_get (clients (agent l)) 1 \<noteq> None \<and> hm_get (client_sockets l) 1 \<noteq> None"
proof -
  let ?ops = "mpsc_ops example_os (\<lambda>_. Ok ()) True (\<lambda>_. Done)"
  let ?rounds = "[([(OnListener (Accepted 9 None), quiet_env)], \<lambda>_. (1 :: i64, 0 :: i64))]"
  obtain r l where run: "epoll_listener_thread ?ops quiet_net ?rounds (listener_new 2000 None fresh_world) = (r, l)" by fastforce
  then have c: "r = Ok () \<and> hm_get (clients (agent l)) 1 \<noteq> None"
    by (auto simp: epoll_listener_thread_def listener_round_def try_bind_def handle_event_def on_accept_def listener_new_def
        AgentState_new_def get_next_client_id_def quiet_net_def run_actions_def run_timer_def timer_def register_client_def
        AgentClientState_new_def AgentClientState_timer_def saturating_sub_def get_timestamp_ns_def quiet_env_def Let_def hm_get_def)
  have "accepts ?rounds < 2 ^ 64 - 1" by (simp add: accepts_def)
  from conjunct2 [OF listener_keeps_invariant [OF this run]] c
  have "hm_get (client_sockets l) 1 \<noteq> None" by simp
  with run c show ?thesis by auto
qed

end
