(* ===== verification/AgentClient.thy ===== *)
theory AgentClient
  imports EpollThread
begin

text \<open>
  The client of an agent (agent/src/client.rs).

  The socket calls are the argument \<open>cnet\<close> over a world of their own, so that a connection to a model
  of the agent can be plugged in.  A method takes the client with its world and returns the result and
  the client after it.
\<close>

section \<open>Definitions\<close>

definition CLIENT_READ_TIMEOUT_MS :: u16 where "CLIENT_READ_TIMEOUT_MS = 5000"

datatype sock_errno = EAGAIN | EPIPE | SockErrno string

record 'w cnet =
  cn_ser :: "ControlMessage \<Rightarrow> ser"
  cn_access :: "u8 list \<Rightarrow> (RancorError, ControlMessage) result"
  cn_connect :: "string \<Rightarrow> 'w \<Rightarrow> (string, nat) result \<times> 'w"
  cn_set_nonblocking :: "nat \<Rightarrow> 'w \<Rightarrow> string option \<times> 'w"
  cn_sendmsg :: "nat \<Rightarrow> u8 list \<Rightarrow> i32 list \<Rightarrow> 'w \<Rightarrow> sock_errno option \<times> 'w"
  cn_epoll :: "nat \<Rightarrow> 'w \<Rightarrow> string option \<times> 'w"
  cn_wait :: "nat \<Rightarrow> u16 \<Rightarrow> 'w \<Rightarrow> (string, nat) result \<times> 'w"
  cn_recv :: "nat \<Rightarrow> nat \<Rightarrow> 'w \<Rightarrow> (sock_errno, u8 list) result \<times> 'w"

record 'w AgentClient =
  client_path :: string
  stream :: "nat option"
  cworld :: 'w

type_synonym ('w, 'a) cl = "('w AgentClient, AgentError, 'a) stm"

definition AgentClient_new :: "string \<Rightarrow> 'w \<Rightarrow> 'w AgentClient" where
  "AgentClient_new path w = \<lparr>client_path = path, stream = None, cworld = w\<rparr>"

fun errno_to_agent :: "sock_errno \<Rightarrow> AgentError" where
  "errno_to_agent EAGAIN = AgentError_Nix ''EAGAIN''"
| "errno_to_agent EPIPE = AgentError_Nix ''EPIPE''"
| "errno_to_agent (SockErrno m) = AgentError_Nix m"

definition on_world :: "('w, AgentError, 'a) stm \<Rightarrow> ('w, 'a) cl" where
  "on_world = on_field cworld (\<lambda>w c. c\<lparr>cworld := w\<rparr>)"

definition wait_for_response :: "'w cnet \<Rightarrow> nat \<Rightarrow> ('w, AgentError, u8 list) stm" where
  "wait_for_response net fd w =
    (case cn_epoll net fd w of
       (Some m, w1) \<Rightarrow> (Err (AgentError_Nix m), w1)
     | (None, w1) \<Rightarrow>
         (case cn_wait net fd CLIENT_READ_TIMEOUT_MS w1 of
            (Inl m, w2) \<Rightarrow> (Err (AgentError_Nix m), w2)
          | (Inr nfds, w2) \<Rightarrow>
              if nfds = 0 then (Err (AgentError_Io TimedOut ''timeout waiting for agent response''), w2)
              else
                (case cn_recv net fd 1024 w2 of
                   (Inr data, w3) \<Rightarrow> (Ok data, w3)
                 | (Inl EAGAIN, w3) \<Rightarrow> (Err (AgentError_Io WouldBlock ''no data available''), w3)
                 | (Inl e, w3) \<Rightarrow> (Err (errno_to_agent e), w3))))"

definition as_archived :: "'w cnet \<Rightarrow> u8 list \<Rightarrow> (AgentError, ControlMessage) result" where
  "as_archived net data = (case cn_access net data of Inl e \<Rightarrow> Err (AgentError_Archive e) | Inr m \<Rightarrow> Ok m)"

definition connect_or_reuse :: "'w cnet \<Rightarrow> ('w, nat) cl" where
  "connect_or_reuse net c =
    (case stream c of
       Some fd \<Rightarrow> (Ok fd, c)
     | None \<Rightarrow>
         (case cn_connect net (client_path c) (cworld c) of
            (Inl m, w) \<Rightarrow> (Err (AgentError_Io OtherKind m), c\<lparr>cworld := w\<rparr>)
          | (Inr fd, w) \<Rightarrow>
              (case cn_set_nonblocking net fd w of
                 (Some m, w1) \<Rightarrow> (Err (AgentError_Io OtherKind m), c\<lparr>cworld := w1\<rparr>)
               | (None, w1) \<Rightarrow> (Ok fd, c\<lparr>stream := Some fd, cworld := w1\<rparr>))))"

definition serialized :: "'w cnet \<Rightarrow> ControlMessage \<Rightarrow> ('w, u8 list) cl" where
  "serialized net msg = (case to_buffer (cn_ser net msg) of Inl e \<Rightarrow> throw (AgentError_Archive e) | Inr buf \<Rightarrow> ret buf)"

definition check_version :: "'w cnet \<Rightarrow> ('w, string) cl" where
  "check_version net =
    try_bind (connect_or_reuse net) (\<lambda>fd.
    try_bind (serialized net Version) (\<lambda>buf.
    try_bind (on_world (\<lambda>w. case cn_sendmsg net fd buf [] w of
        (Some e, w1) \<Rightarrow> (Err (errno_to_agent e), w1) | (None, w1) \<Rightarrow> (Ok (), w1))) (\<lambda>_.
    try_bind (on_world (wait_for_response net fd)) (\<lambda>response.
    case as_archived net response of
      Inl e \<Rightarrow> throw e
    | Inr (VersionResponse _) \<Rightarrow> ret VERSION
    | Inr _ \<Rightarrow> throw (AgentError_Io OtherKind ''unexpected response from agent'')))))"

text \<open>Forgetting the connection before an error is returned.\<close>

definition fail_closed :: "AgentError \<Rightarrow> ('w, 'a) cl" where
  "fail_closed e = try_bind (modify (\<lambda>c. c\<lparr>stream := None\<rparr>)) (\<lambda>_. throw e)"

definition or_close :: "('w, AgentError, 'a) stm \<Rightarrow> ('a \<Rightarrow> ('w, 'b) cl) \<Rightarrow> ('w, 'b) cl" where
  "or_close m k c =
    (case m (cworld c) of
       (Inl e, w) \<Rightarrow> fail_closed e (c\<lparr>cworld := w\<rparr>)
     | (Inr a, w) \<Rightarrow> k a (c\<lparr>cworld := w\<rparr>))"

definition consumer_fds :: "nat Consumer \<Rightarrow> i32 list" where
  "consumer_fds cons = [of_nat (mem_fd (cons_memory cons)), of_nat (cons_notification cons)]"

definition start_with_options ::
  "'w cnet \<Rightarrow> nat Consumer \<Rightarrow> string \<Rightarrow> TimestampType \<Rightarrow> Value hashmap \<Rightarrow> ('w, unit) cl" where
  "start_with_options net cons flt tt options =
    try_bind (check_version net) (\<lambda>version.
    if version \<noteq> VERSION then fail_closed (AgentError_Io OtherKind
        (''version mismatch: agent version '' @ version @ '' != client version '' @ VERSION))
    else
      try_bind (connect_or_reuse net) (\<lambda>fd.
      let start_msg = Start (mem_data_size (cons_memory cons)) \<lparr>args_tracing = Some \<lparr>log_filter = flt, timestamp_type = tt\<rparr>, args_options = options\<rparr> in
      try_bind (serialized net start_msg) (\<lambda>buf.
      or_close (\<lambda>w. case cn_sendmsg net fd buf (consumer_fds cons) w of
          (Some e, w1) \<Rightarrow> (Err (errno_to_agent e), w1) | (None, w1) \<Rightarrow> (Ok (), w1)) (\<lambda>_.
      or_close (wait_for_response net fd) (\<lambda>response.
      case as_archived net response of
        Inl e \<Rightarrow> fail_closed e
      | Inr Ack \<Rightarrow> ret ()
      | Inr (Nack e) \<Rightarrow> fail_closed (AgentError_Io OtherKind (''agent rejected start: '' @ e))
      | Inr _ \<Rightarrow> fail_closed (AgentError_Io OtherKind ''unexpected response from agent''))))))"

definition start_with_timestamp ::
  "'w cnet \<Rightarrow> nat Consumer \<Rightarrow> string \<Rightarrow> TimestampType \<Rightarrow> ('w, unit) cl" where
  "start_with_timestamp net cons flt tt = start_with_options net cons flt tt []"

definition client_start :: "'w cnet \<Rightarrow> nat Consumer \<Rightarrow> string \<Rightarrow> ('w, unit) cl" where
  "client_start net cons flt = start_with_timestamp net cons flt Monotonic"

definition client_stop :: "'w cnet \<Rightarrow> ('w, unit) cl" where
  "client_stop net c =
    (case stream c of
       None \<Rightarrow> (Ok (), c)
     | Some fd \<Rightarrow>
         (case to_buffer (cn_ser net Stop) of
            Inl e \<Rightarrow> (Err (AgentError_Archive e), c)
          | Inr buf \<Rightarrow>
              (case cn_sendmsg net fd buf [] (cworld c) of
                 (None, w) \<Rightarrow> (Ok (), c\<lparr>stream := None, cworld := snd (wait_for_response net fd w)\<rparr>)
               | (Some EAGAIN, w) \<Rightarrow> (Err (AgentError_Io WouldBlock ''stop message would block''), c\<lparr>cworld := w\<rparr>)
               | (Some EPIPE, w) \<Rightarrow> (Ok (), c\<lparr>stream := None, cworld := w\<rparr>)
               | (Some e, w) \<Rightarrow> (Err (errno_to_agent e), c\<lparr>cworld := w\<rparr>))))"

definition send_continue :: "'w cnet \<Rightarrow> ('w, unit) cl" where
  "send_continue net c =
    (case stream c of
       None \<Rightarrow> (Ok (), c)
     | Some fd \<Rightarrow>
         (case to_buffer (cn_ser net Continue) of
            Inl e \<Rightarrow> (Err (AgentError_Archive e), c)
          | Inr buf \<Rightarrow>
              (case cn_sendmsg net fd buf [] (cworld c) of
                 (None, w) \<Rightarrow>
                   try_bind (on_world (wait_for_response net fd)) (\<lambda>response.
                   case as_archived net response of
                     Inl e \<Rightarrow> throw e
                   | Inr Ack \<Rightarrow> ret ()
                   | Inr (Nack e) \<Rightarrow> throw (AgentError_Io OtherKind e)
                   | Inr _ \<Rightarrow> throw (AgentError_Io OtherKind ''unexpected response from agent'')) (c\<lparr>cworld := w\<rparr>)
               | (Some EAGAIN, w) \<Rightarrow> (Err (AgentError_Io WouldBlock ''continue message would block''), c\<lparr>cworld := w\<rparr>)
               | (Some e, w) \<Rightarrow> (Err (errno_to_agent e), c\<lparr>cworld := w\<rparr>))))"

definition enabled :: "'w AgentClient \<Rightarrow> bool" where
  "enabled c = (stream c \<noteq> None)"

definition keepalive :: "'w cnet \<Rightarrow> ('w, unit) cl" where
  "keepalive net c = (if enabled c then send_continue net c else (Err NotEnabled, c))"

section \<open>The connection\<close>

lemma connect_or_reuse_stream:
  "connect_or_reuse net c = (Ok fd, c') \<Longrightarrow> stream c' = Some fd"
  by (auto simp: connect_or_reuse_def split: option.splits sum.splits prod.splits)

lemma on_world_stream: "on_world m c = (r, c') \<Longrightarrow> stream c' = stream c"
  by (auto simp: on_world_def on_field_def split: prod.splits)

lemma serialized_state: "serialized net msg c = (r, c') \<Longrightarrow> c' = c"
  by (auto simp: serialized_def split: sum.splits)

lemma check_version_Ok:
  "check_version net c = (Ok v, c') \<Longrightarrow> v = VERSION \<and> stream c' \<noteq> None"
  unfolding check_version_def
  apply (erule try_bind_OkE)+
  apply (drule connect_or_reuse_stream on_world_stream serialized_state)+
  by (auto split: sum.splits ControlMessage.splits)

text \<open>A start that got past the version check either is acknowledged or leaves no connection behind.\<close>

lemma fail_closed_stream [simp]: "fail_closed e c = (Err e, c\<lparr>stream := None\<rparr>)"
  by (simp add: fail_closed_def)

definition settled :: "(AgentError, unit) result \<times> 'w AgentClient \<Rightarrow> bool" where
  "settled = (\<lambda>(r, c). (r = Ok ()) = (stream c \<noteq> None))"

lemma settled_fail [simp]: "settled (fail_closed e c)"
  by (simp add: settled_def)

lemma settled_or_close:
  assumes "stream c \<noteq> None" "\<And>a c'. stream c' \<noteq> None \<Longrightarrow> settled (k a c')"
  shows "settled (or_close m k c)"
proof (cases "m (cworld c)")
  case (Pair r w)
  with assms(1) assms(2) [of "c\<lparr>cworld := w\<rparr>"] show ?thesis
    by (cases r) (simp_all add: or_close_def del: fail_closed_stream not_None_eq)
qed

lemma settled_reply:
  "stream c \<noteq> None \<Longrightarrow>
   settled ((case as_archived net response of
        Inl e \<Rightarrow> fail_closed e
      | Inr Ack \<Rightarrow> ret ()
      | Inr (Nack e) \<Rightarrow> fail_closed (AgentError_Io OtherKind (''agent rejected start: '' @ e))
      | Inr _ \<Rightarrow> fail_closed (AgentError_Io OtherKind ''unexpected response from agent'')) c)"
  by (simp add: settled_def split: sum.splits ControlMessage.splits)


text \<open>An agent that answers from a script, one answer per request.\<close>

definition script_reply :: "u8 list \<Rightarrow> (RancorError, ControlMessage) result" where
  "script_reply d = (if d = [0] then Ok (VersionResponse ''0.0.0'') else if d = [1] then Ok Ack else Ok (Nack ''no''))"

definition script_net :: "u8 list list cnet" where
  "script_net = \<lparr>cn_ser = \<lambda>_. Done, cn_access = script_reply, cn_connect = \<lambda>_ w. (Ok 3, w),
    cn_set_nonblocking = \<lambda>_ w. (None, w), cn_sendmsg = \<lambda>_ _ _ w. (None, w), cn_epoll = \<lambda>_ w. (None, w),
    cn_wait = \<lambda>_ _ w. (Ok 1, w),
    cn_recv = \<lambda>_ n w. (case w of [] \<Rightarrow> (Err EAGAIN, w) | d # w' \<Rightarrow> (Ok (take n d), w'))\<rparr>"

definition example_consumer :: "nat Consumer" where
  "example_consumer = \<lparr>cons_memory = \<lparr>ptr = 0, mem_data_size = 4096, mem_page_size = 4096, mem_fd = 5\<rparr>, cons_notification = 6\<rparr>"

lemma to_buffer_Done [simp]: "to_buffer Done = Ok []"
  by (simp add: to_buffer_def compute_length_def serialize_to_buf_def SliceWriter_new_def CountingWriter_new_def)

lemmas script_run = script_reply_def
  check_version_def try_bind_def connect_or_reuse_def AgentClient_new_def script_net_def serialized_def on_world_def
  on_field_def wait_for_response_def as_archived_def


text \<open>
  The version the agent reports is not looked at: an agent that answers the query with any version
  string makes \<open>check_version\<close> return the client's own version, so that \<open>start_with_options\<close> never takes
  its version mismatch branch.
\<close>

theorem version_reply_ignored:
  assumes "stream c = Some fd" "to_buffer (cn_ser net Version) = Ok buf"
    "cn_sendmsg net fd buf [] (cworld c) = (None, w)" "wait_for_response net fd w = (Ok data, w')"
    "cn_access net data = Ok (VersionResponse reported)"
  shows "check_version net c = (Ok VERSION, c\<lparr>cworld := w'\<rparr>)"
  using assms
  by (simp add: check_version_def try_bind_def connect_or_reuse_def serialized_def on_world_def on_field_def as_archived_def)

theorem version_reply_ignored_witness:
  "script_reply [0] = Ok (VersionResponse ''0.0.0'') \<and> VERSION \<noteq> ''0.0.0'' \<and>
   check_version script_net \<lparr>client_path = ''s'', stream = Some 3, cworld = [[0]]\<rparr> =
     (Ok VERSION, \<lparr>client_path = ''s'', stream = Some 3, cworld = []\<rparr>)"
proof -
  let ?c = "\<lparr>client_path = ''s'', stream = Some 3, cworld = [[0 :: u8]]\<rparr>"
  have "check_version script_net ?c = (Ok VERSION, ?c\<lparr>cworld := []\<rparr>)"
    by (rule version_reply_ignored [of ?c 3 script_net "[]" "[[0]]" "[0]" "[]" "''0.0.0''"])
      (simp_all add: script_net_def script_reply_def wait_for_response_def)
  then show ?thesis by (simp add: VERSION_def script_reply_def)
qed

text \<open>
  Stopping: \<open>stop\<close> returns \<open>Ok\<close> exactly when the client is left disconnected, whatever the agent
  answers or even if it answers nothing; when the request could not be sent the connection is kept, so
  that the call can be repeated; on a client without a connection it does nothing.
\<close>

theorem stop_disconnects:
  assumes "client_stop net c = (r, c')"
  shows "(r = Ok () \<longleftrightarrow> \<not> enabled c') \<and> (r \<noteq> Ok () \<longrightarrow> stream c' = stream c) \<and> (\<not> enabled c \<longrightarrow> c' = c)"
  using assms by (auto simp: client_stop_def enabled_def split: option.splits sum.splits prod.splits sock_errno.splits)

theorem stop_disconnects_witness:
  "\<exists>c'. client_stop script_net \<lparr>client_path = ''s'', stream = Some 3, cworld = []\<rparr> = (Ok (), c') \<and> \<not> enabled c'"
proof -
  have "client_stop script_net \<lparr>client_path = ''s'', stream = Some 3, cworld = []\<rparr> =
      (Ok (), \<lparr>client_path = ''s'', stream = None, cworld = []\<rparr>)"
    by (simp add: client_stop_def script_net_def wait_for_response_def)
  with stop_disconnects [OF this] show ?thesis by auto
qed

end
