(* ===== verification/InternedSymbolizer.thy ===== *)
theory InternedSymbolizer
  imports ProtocolIter
begin

text \<open>
  Interning of symbolised call stacks (interned-symbolizer/src/lib.rs): the cache of ids, the session
  that symbolises addresses and the interned data sent for the parts of a stack not sent before.

  The blazesym symboliser and the hash function of the standard library are arguments.  The reader of
  the trace is modelled by the dictionaries it builds from the interned data: the main result is that
  it can resolve every call stack id it is given.
\<close>

section \<open>Definitions\<close>

definition FAKE_MAPPING_ID :: u64 where "FAKE_MAPPING_ID = 1"

datatype SymbolizerError = Blazesym string | EmptySymbols

record InternedCache =
  next_callstack_sequence :: u64
  callstack_hash_to_sequence :: "(u64 \<times> u64) list"
  next_frame_sequence :: u64
  pid_frame_to_sequence :: "((i32 \<times> u64) \<times> u64) list"
  unknown_function_id :: "u64 option"
  next_function_id :: u64
  fake_mapping_id :: "u64 option"
  next_mapping_id :: u64
  is_first_interned_data :: bool

definition InternedCache_new :: InternedCache where
  "InternedCache_new = \<lparr>next_callstack_sequence = 0, callstack_hash_to_sequence = [], next_frame_sequence = 0,
    pid_frame_to_sequence = [], unknown_function_id = None, next_function_id = 0, fake_mapping_id = None,
    next_mapping_id = 0, is_first_interned_data = True\<rparr>"

definition cached_frame :: "i32 \<Rightarrow> u64 \<Rightarrow> InternedCache \<Rightarrow> u64 option" where
  "cached_frame pid frame c = hm_get (pid_frame_to_sequence c) (pid, frame)"

definition cached_callstack :: "(u64 list \<Rightarrow> u64) \<Rightarrow> u64 list \<Rightarrow> InternedCache \<Rightarrow> u64 option" where
  "cached_callstack hash_callstack callstack c = hm_get (callstack_hash_to_sequence c) (hash_callstack callstack)"

definition reserve_frame :: "i32 \<Rightarrow> u64 \<Rightarrow> InternedCache \<Rightarrow> u64 \<times> InternedCache" where
  "reserve_frame pid frame c =
    (case hm_get (pid_frame_to_sequence c) (pid, frame) of
       Some i \<Rightarrow> (i, c)
     | None \<Rightarrow>
         let i = next_frame_sequence c in
         (i, c\<lparr>next_frame_sequence := next_frame_sequence c + 1,
               pid_frame_to_sequence := hm_insert (pid, frame) i (pid_frame_to_sequence c)\<rparr>))"

definition reserve_callstack :: "(u64 list \<Rightarrow> u64) \<Rightarrow> u64 list \<Rightarrow> InternedCache \<Rightarrow> u64 \<times> InternedCache" where
  "reserve_callstack hash_callstack callstack c =
    (let h = hash_callstack callstack in
     case hm_get (callstack_hash_to_sequence c) h of
       Some i \<Rightarrow> (i, c)
     | None \<Rightarrow>
         let i = next_callstack_sequence c in
         (i, c\<lparr>next_callstack_sequence := next_callstack_sequence c + 1,
               callstack_hash_to_sequence := hm_insert h i (callstack_hash_to_sequence c)\<rparr>))"

definition get_or_create_unknown_function_id :: "InternedCache \<Rightarrow> u64 \<times> InternedCache" where
  "get_or_create_unknown_function_id c =
    (case unknown_function_id c of
       Some i \<Rightarrow> (i, c)
     | None \<Rightarrow>
         let i = next_function_id c in
         (i, c\<lparr>next_function_id := next_function_id c + 1, unknown_function_id := Some i\<rparr>))"

definition get_or_create_fake_mapping_id :: "InternedCache \<Rightarrow> u64 \<times> InternedCache" where
  "get_or_create_fake_mapping_id c =
    (case fake_mapping_id c of
       Some i \<Rightarrow> (i, c)
     | None \<Rightarrow> (FAKE_MAPPING_ID, c\<lparr>fake_mapping_id := Some FAKE_MAPPING_ID, next_mapping_id := FAKE_MAPPING_ID + 1\<rparr>))"

definition reserve_function_id :: "InternedCache \<Rightarrow> u64 \<times> InternedCache" where
  "reserve_function_id c = (next_function_id c, c\<lparr>next_function_id := next_function_id c + 1\<rparr>)"

definition take_is_first_interned_data :: "InternedCache \<Rightarrow> bool \<times> InternedCache" where
  "take_is_first_interned_data c = (is_first_interned_data c, c\<lparr>is_first_interned_data := False\<rparr>)"

record ProcessConfig =
  debug_syms :: bool
  perf_map :: bool
  map_files :: bool

definition ProcessConfig_default :: ProcessConfig where
  "ProcessConfig_default = \<lparr>debug_syms = True, perf_map = False, map_files = False\<rparr>"

record Symbolizer =
  sym_cache :: InternedCache
  sym_cfg :: ProcessConfig

definition Symbolizer_new :: "ProcessConfig \<Rightarrow> Symbolizer" where
  "Symbolizer_new cfg = \<lparr>sym_cache = InternedCache_new, sym_cfg = cfg\<rparr>"

text \<open>A symbol is \<open>None\<close> where blazesym found no name for the address.\<close>

record Interned =
  interned_pid :: i32
  user_addresses :: "u64 list"
  kernel_addresses :: "u64 list"
  user_symbols :: "string option list"
  kernel_symbols :: "string option list"

text \<open>The local variables of the two loops of \<open>Interned::data\<close>.\<close>

record builder =
  bcache :: InternedCache
  all_frame_ids :: "u64 list"
  new_function_names :: "InternedString list"
  new_frames :: "Frame list"

definition intern_frame :: "i32 \<Rightarrow> string option \<times> u64 \<Rightarrow> builder \<Rightarrow> builder" where
  "intern_frame pid = (\<lambda>(sym, addr) b.
    let is_new_frame = (cached_frame pid addr (bcache b) = None);
        (frame_id, c1) = reserve_frame pid addr (bcache b);
        b1 = b\<lparr>bcache := c1, all_frame_ids := all_frame_ids b @ [frame_id]\<rparr> in
    if is_new_frame then
      let (func_id, c2, names) =
        (case sym of
           Some name \<Rightarrow>
             (let (i, c2) = reserve_function_id c1 in
              (i, c2, new_function_names b @ [\<lparr>istr_iid = i, istr_str = name\<rparr>]))
         | None \<Rightarrow>
             (let (i, c2) = get_or_create_unknown_function_id c1 in (i, c2, new_function_names b))) in
      b1\<lparr>bcache := c2, new_function_names := names,
         new_frames := new_frames b @ [\<lparr>frame_iid = frame_id, function_name_id = func_id,
           mapping_id = FAKE_MAPPING_ID, rel_pc = addr\<rparr>]\<rparr>
    else b1)"

definition data_start :: "InternedCache \<Rightarrow> builder \<times> Mapping list \<times> InternedString list" where
  "data_start c =
    (let (c1, names) =
       (if unknown_function_id c = None then
          let (unknown_id, c1) = get_or_create_unknown_function_id c in
          (c1, [\<lparr>istr_iid = unknown_id, istr_str = ''<unknown>''\<rparr>])
        else (c, []));
         (c2, new_mappings, new_build_ids) =
       (if fake_mapping_id c = None then
          let (i, c2) = get_or_create_fake_mapping_id c1 in
          (c2, [\<lparr>mapping_iid = i, build_id = 1, exact_offset = 0, start_offset = 0, mapping_start = 0,
             mapping_end = 0x7fffffffffffffff, load_bias = 0, path_string_ids = []\<rparr>],
           [\<lparr>istr_iid = 1, istr_str = ''unknown''\<rparr>])
        else (c1, [], [])) in
     (\<lparr>bcache = c2, all_frame_ids = [], new_function_names = names, new_frames = []\<rparr>, new_mappings, new_build_ids))"

definition data_frames :: "Interned \<Rightarrow> builder \<Rightarrow> builder" where
  "data_frames r b =
    fold (intern_frame (- 1)) (zip (kernel_symbols r) (kernel_addresses r))
      (fold (intern_frame (interned_pid r)) (rev (zip (user_symbols r) (user_addresses r))) b)"

definition Interned_data ::
  "(u64 list \<Rightarrow> u64) \<Rightarrow> Interned \<Rightarrow> InternedCache \<Rightarrow> (u64 \<times> InternedData option) \<times> InternedCache" where
  "Interned_data hash_callstack r c =
    (let (b0, new_mappings, new_build_ids) = data_start c;
         b = data_frames r b0;
         new_callstack = (cached_callstack hash_callstack (all_frame_ids b) (bcache b) = None);
         (callstack_id, c1) = reserve_callstack hash_callstack (all_frame_ids b) (bcache b) in
     if new_callstack \<or> new_function_names b \<noteq> [] \<or> new_frames b \<noteq> [] \<or> new_mappings \<noteq> [] then
       let (was_first, c2) = take_is_first_interned_data c1 in
       ((callstack_id, Some \<lparr>function_names = new_function_names b, frames = new_frames b,
          callstacks = [\<lparr>callstack_iid = callstack_id, frame_ids = all_frame_ids b\<rparr>],
          mappings = new_mappings, build_ids = new_build_ids, continuation = \<not> was_first\<rparr>), c2)
     else ((callstack_id, None), c1))"

datatype sym_source = Source_Process u32 bool bool bool | Source_Kernel

definition symbolize ::
  "(sym_source \<Rightarrow> u64 list \<Rightarrow> (string, string option list) result) \<Rightarrow> ProcessConfig \<Rightarrow> i32 \<Rightarrow> u64 list \<Rightarrow> u64 list \<Rightarrow>
    (SymbolizerError, Interned) result" where
  "symbolize blaze cfg pid uaddrs kaddrs =
    (if uaddrs = [] \<and> kaddrs = [] then Err EmptySymbols
     else
       case (if uaddrs \<noteq> [] then blaze (Source_Process pid (debug_syms cfg) (perf_map cfg) (map_files cfg)) uaddrs else Ok []) of
         Inl e \<Rightarrow> Err (Blazesym e)
       | Inr us \<Rightarrow>
           (case (if kaddrs \<noteq> [] then blaze Source_Kernel kaddrs else Ok []) of
              Inl e \<Rightarrow> Err (Blazesym e)
            | Inr ks \<Rightarrow>
                if us = [] \<and> ks = [] then Err EmptySymbols
                else Ok \<lparr>interned_pid = pid, user_addresses = uaddrs, kernel_addresses = kaddrs,
                  user_symbols = us, kernel_symbols = ks\<rparr>))"

section \<open>The reader\<close>

text \<open>What a reader of the trace knows of one sequence; data that is not a continuation clears it.\<close>

record dict =
  d_names :: "u64 \<rightharpoonup> string"
  d_frames :: "u64 \<rightharpoonup> Frame"
  d_stacks :: "u64 \<rightharpoonup> u64 list"
  d_maps :: "u64 \<rightharpoonup> Mapping"

definition empty_dict :: dict where
  "empty_dict = \<lparr>d_names = Map.empty, d_frames = Map.empty, d_stacks = Map.empty, d_maps = Map.empty\<rparr>"

definition add_all :: "('x \<Rightarrow> u64) \<Rightarrow> ('x \<Rightarrow> 'v) \<Rightarrow> 'x list \<Rightarrow> (u64 \<rightharpoonup> 'v) \<Rightarrow> (u64 \<rightharpoonup> 'v)" where
  "add_all key val = fold (\<lambda>x m. m(key x \<mapsto> val x))"

definition absorb :: "InternedData \<Rightarrow> dict \<Rightarrow> dict" where
  "absorb data d =
    (let b = (if continuation data then d else empty_dict) in
     \<lparr>d_names = add_all istr_iid istr_str (function_names data) (d_names b),
      d_frames = add_all frame_iid (\<lambda>f. f) (frames data) (d_frames b),
      d_stacks = add_all callstack_iid frame_ids (callstacks data) (d_stacks b),
      d_maps = add_all mapping_iid (\<lambda>m. m) (mappings data) (d_maps b)\<rparr>)"

text \<open>Resolving a frame to its address and function name, and a call stack to its frames.\<close>

definition resolve_frame :: "dict \<Rightarrow> u64 \<Rightarrow> (u64 \<times> string) option" where
  "resolve_frame d i =
    (case d_frames d i of
       None \<Rightarrow> None
     | Some f \<Rightarrow>
         (case (d_maps d (mapping_id f), d_names d (function_name_id f)) of
            (Some _, Some n) \<Rightarrow> Some (rel_pc f, n)
          | _ \<Rightarrow> None))"

definition resolve :: "dict \<Rightarrow> u64 \<Rightarrow> (u64 \<times> string) list option" where
  "resolve d i = (case d_stacks d i of None \<Rightarrow> None | Some fs \<Rightarrow> those (map (resolve_frame d) fs))"

section \<open>The loop over the frames\<close>

lemma add_all_append [simp]: "add_all key val (xs @ ys) m = add_all key val ys (add_all key val xs m)"
  by (simp add: add_all_def)

lemma add_all_simps [simp]:
  "add_all key val [] m = m" "add_all key val (x # xs) m = add_all key val xs (m(key x \<mapsto> val x))"
  by (simp_all add: add_all_def)

definition name_of :: "string option \<Rightarrow> string" where
  "name_of s = (case s of Some n \<Rightarrow> n | None \<Rightarrow> ''<unknown>'')"

text \<open>The name under which each frame was first seen.\<close>

definition note_name :: "(i32 \<times> u64) \<times> string option \<Rightarrow> (i32 \<times> u64 \<rightharpoonup> string) \<Rightarrow> (i32 \<times> u64 \<rightharpoonup> string)" where
  "note_name = (\<lambda>(k, sym) seen. if seen k = None then seen(k \<mapsto> name_of sym) else seen)"

text \<open>
  \<open>frames_inv N c dn df seen\<close>: with the names \<open>dn\<close> and the frames \<open>df\<close> sent so far, every cached frame
  is a known frame with its address and the name it was first seen under; ids in use are below the
  next ones, which are at most \<open>N\<close>.
\<close>

definition frames_inv ::
  "nat \<Rightarrow> InternedCache \<Rightarrow> (u64 \<rightharpoonup> string) \<Rightarrow> (u64 \<rightharpoonup> Frame) \<Rightarrow> (i32 \<times> u64 \<rightharpoonup> string) \<Rightarrow> bool" where
  "frames_inv N c dn df seen \<longleftrightarrow>
    (\<forall>k i. hm_get (pid_frame_to_sequence c) k = Some i \<longrightarrow>
      (\<exists>f n. df i = Some f \<and> rel_pc f = snd k \<and> mapping_id f = FAKE_MAPPING_ID \<and> dn (function_name_id f) = Some n \<and> seen k = Some n)) \<and>
    (\<forall>k. hm_get (pid_frame_to_sequence c) k = None \<longrightarrow> seen k = None) \<and>
    (\<forall>i. dn i \<noteq> None \<longrightarrow> i < next_function_id c) \<and>
    (\<forall>i. df i \<noteq> None \<longrightarrow> i < next_frame_sequence c) \<and>
    unat (next_frame_sequence c) \<le> N \<and> unat (next_function_id c) \<le> N \<and>
    (\<exists>u. unknown_function_id c = Some u \<and> dn u = Some ''<unknown>'')"

text \<open>The fields the loop leaves alone.\<close>

definition same_rest :: "InternedCache \<Rightarrow> InternedCache \<Rightarrow> bool" where
  "same_rest c c' \<longleftrightarrow>
    next_callstack_sequence c' = next_callstack_sequence c \<and> callstack_hash_to_sequence c' = callstack_hash_to_sequence c \<and>
    fake_mapping_id c' = fake_mapping_id c \<and> is_first_interned_data c' = is_first_interned_data c"

text \<open>
  The state of the loop after the frames \<open>keys\<close>, started from the cache \<open>c0\<close> with the names \<open>dn\<close> and the
  frames \<open>df\<close> sent before: what the reader knew it still knows, and the ids collected are those of the keys.
\<close>

definition loop_rel ::
  "(u64 \<rightharpoonup> string) \<Rightarrow> (u64 \<rightharpoonup> Frame) \<Rightarrow> InternedCache \<Rightarrow> nat \<Rightarrow> (i32 \<times> u64 \<rightharpoonup> string) \<Rightarrow> (i32 \<times> u64) list \<Rightarrow> builder \<Rightarrow> bool" where
  "loop_rel dn df c0 N seen keys b \<longleftrightarrow>
    (let dn' = add_all istr_iid istr_str (new_function_names b) dn; df' = add_all frame_iid (\<lambda>f. f) (new_frames b) df in
     frames_inv N (bcache b) dn' df' seen \<and> dn \<subseteq>\<^sub>m dn' \<and> df \<subseteq>\<^sub>m df' \<and> same_rest c0 (bcache b) \<and>
     map Some (all_frame_ids b) = map (hm_get (pid_frame_to_sequence (bcache b))) keys)"

lemma word_fresh: "unat (n :: u64) \<le> N \<Longrightarrow> N + 1 < 2 ^ 64 \<Longrightarrow> unat (n + 1) \<le> N + 1 \<and> n < n + 1 \<and> (\<forall>i<n. i < n + 1)"
proof -
  assume a: "unat n \<le> N" "N + 1 < 2 ^ 64"
  then have "unat (n + 1) = unat n + 1" by (simp add: unat_word_ariths)
  with a show ?thesis by (auto simp: word_less_nat_alt)
qed

lemma frames_inv_new:
  assumes inv: "frames_inv N c dn df seen" and N: "N + 1 < 2 ^ 64"
    and new: "hm_get (pid_frame_to_sequence c) (pid, addr) = None"
  shows "frames_inv (N + 1)
      (c\<lparr>next_frame_sequence := next_frame_sequence c + 1,
         pid_frame_to_sequence := hm_insert (pid, addr) (next_frame_sequence c) (pid_frame_to_sequence c),
         next_function_id := next_function_id c + 1\<rparr>)
      (dn(next_function_id c \<mapsto> name))
      (df(next_frame_sequence c \<mapsto> \<lparr>frame_iid = next_frame_sequence c, function_name_id = next_function_id c,
           mapping_id = FAKE_MAPPING_ID, rel_pc = addr\<rparr>))
      (seen((pid, addr) \<mapsto> name))"
    and "frames_inv (N + 1)
      (c\<lparr>next_frame_sequence := next_frame_sequence c + 1,
         pid_frame_to_sequence := hm_insert (pid, addr) (next_frame_sequence c) (pid_frame_to_sequence c)\<rparr>)
      dn
      (df(next_frame_sequence c \<mapsto> \<lparr>frame_iid = next_frame_sequence c, function_name_id = the (unknown_function_id c),
           mapping_id = FAKE_MAPPING_ID, rel_pc = addr\<rparr>))
      (seen((pid, addr) \<mapsto> ''<unknown>''))"
proof -
  have f: "unat (next_frame_sequence c + 1) \<le> N + 1" "next_frame_sequence c < next_frame_sequence c + 1"
      "\<And>i. i < next_frame_sequence c \<Longrightarrow> i < next_frame_sequence c + 1"
    and g: "unat (next_function_id c + 1) \<le> N + 1" "next_function_id c < next_function_id c + 1"
      "\<And>i. i < next_function_id c \<Longrightarrow> i < next_function_id c + 1"
    using inv N word_fresh [of "next_frame_sequence c" N] word_fresh [of "next_function_id c" N]
    by (auto simp: frames_inv_def)
  have below: "df i \<noteq> None \<Longrightarrow> i < next_frame_sequence c" "dn i \<noteq> None \<Longrightarrow> i < next_function_id c" for i
    using inv by (simp_all add: frames_inv_def)
  have fresh: "df (next_frame_sequence c) = None" "dn (next_function_id c) = None"
    using below(1) [of "next_frame_sequence c"] below(2) [of "next_function_id c"] by (blast dest: less_irrefl [THEN notE])+
  have old: "\<exists>f n. df i = Some f \<and> rel_pc f = snd k \<and> mapping_id f = FAKE_MAPPING_ID \<and> dn (function_name_id f) = Some n \<and> seen k = Some n"
    if "hm_get (pid_frame_to_sequence c) k = Some i" for k i
    using inv that unfolding frames_inv_def by blast
  have none: "hm_get (pid_frame_to_sequence c) k = None \<Longrightarrow> seen k = None" for k
    using inv unfolding frames_inv_def by blast
  have len: "unat (next_frame_sequence c) \<le> N + 1" "unat (next_function_id c) \<le> N + 1" using inv by (simp_all add: frames_inv_def)
  have u: "\<exists>u. unknown_function_id c = Some u \<and> dn u = Some ''<unknown>''" using inv by (simp add: frames_inv_def)
  show "frames_inv (N + 1)
      (c\<lparr>next_frame_sequence := next_frame_sequence c + 1,
         pid_frame_to_sequence := hm_insert (pid, addr) (next_frame_sequence c) (pid_frame_to_sequence c),
         next_function_id := next_function_id c + 1\<rparr>)
      (dn(next_function_id c \<mapsto> name))
      (df(next_frame_sequence c \<mapsto> \<lparr>frame_iid = next_frame_sequence c, function_name_id = next_function_id c,
           mapping_id = FAKE_MAPPING_ID, rel_pc = addr\<rparr>))
      (seen((pid, addr) \<mapsto> name))"
    unfolding frames_inv_def
    apply (intro conjI)
    subgoal using fresh by (fastforce dest: old)
    subgoal using none by auto
    subgoal using below(2) f g by auto
    subgoal using below(1) f by auto
    subgoal using f by simp
    subgoal using f g len by simp
    subgoal using u fresh by auto
    done
  show "frames_inv (N + 1)
      (c\<lparr>next_frame_sequence := next_frame_sequence c + 1,
         pid_frame_to_sequence := hm_insert (pid, addr) (next_frame_sequence c) (pid_frame_to_sequence c)\<rparr>)
      dn
      (df(next_frame_sequence c \<mapsto> \<lparr>frame_iid = next_frame_sequence c, function_name_id = the (unknown_function_id c),
           mapping_id = FAKE_MAPPING_ID, rel_pc = addr\<rparr>))
      (seen((pid, addr) \<mapsto> ''<unknown>''))"
    unfolding frames_inv_def
    apply (intro conjI)
    subgoal using fresh u by (fastforce dest: old)
    subgoal using none by auto
    subgoal using below(2) f g by auto
    subgoal using below(1) f by auto
    subgoal using f by simp
    subgoal using f g len by simp
    subgoal using u fresh by auto
    done
qed

lemma map_le_upd_fresh: "m \<subseteq>\<^sub>m m' \<Longrightarrow> m' k = None \<Longrightarrow> m \<subseteq>\<^sub>m m'(k \<mapsto> v)"
  by (auto simp: map_le_def dom_def)

lemma frames_inv_fresh:
  assumes "frames_inv N c dn df seen"
  shows "df (next_frame_sequence c) = None" "dn (next_function_id c) = None"
  using assms unfolding frames_inv_def by (meson less_irrefl)+

lemma hm_get_insert_old:
  "hm_get m k = None \<Longrightarrow> map Some is = map (hm_get m) keys \<Longrightarrow> map Some is = map (hm_get (hm_insert k v m)) keys"
  by (induction keys arbitrary: "is") (auto simp: map_eq_Cons_conv Cons_eq_map_conv)

lemma frames_inv_mono: "frames_inv N c dn df seen \<Longrightarrow> N \<le> M \<Longrightarrow> frames_inv M c dn df seen"
  by (simp add: frames_inv_def)

lemma intern_frame_old:
  assumes "loop_rel dn df c0 N seen keys b" "hm_get (pid_frame_to_sequence (bcache b)) (pid, addr) = Some i"
  shows "loop_rel dn df c0 (N + 1) (note_name ((pid, addr), s) seen) (keys @ [(pid, addr)]) (intern_frame pid (s, addr) b)"
proof -
  have "frames_inv N (bcache b) (add_all istr_iid istr_str (new_function_names b) dn) (add_all frame_iid (\<lambda>f. f) (new_frames b) df) seen"
    using assms(1) by (simp add: loop_rel_def Let_def)
  then have "seen (pid, addr) \<noteq> None" using assms(2) unfolding frames_inv_def by fastforce
  then show ?thesis
    using assms by (auto simp: loop_rel_def Let_def intern_frame_def cached_frame_def reserve_frame_def note_name_def
        intro: frames_inv_mono)
qed

lemma intern_frame_new:
  assumes rel: "loop_rel dn df c0 N seen keys b" and N: "N + 1 < 2 ^ 64"
    and new: "hm_get (pid_frame_to_sequence (bcache b)) (pid, addr) = None"
  shows "loop_rel dn df c0 (N + 1) (note_name ((pid, addr), s) seen) (keys @ [(pid, addr)]) (intern_frame pid (s, addr) b)"
proof -
  let ?dn = "add_all istr_iid istr_str (new_function_names b) dn" and ?df = "add_all frame_iid (\<lambda>f. f) (new_frames b) df"
  have inv: "frames_inv N (bcache b) ?dn ?df seen" and le: "dn \<subseteq>\<^sub>m ?dn" "df \<subseteq>\<^sub>m ?df"
    and rest: "same_rest c0 (bcache b)"
    and ids: "map Some (all_frame_ids b) = map (hm_get (pid_frame_to_sequence (bcache b))) keys"
    using rel by (simp_all add: loop_rel_def Let_def)
  note fresh = frames_inv_fresh [OF inv]
  have seen: "seen (pid, addr) = None" using inv new unfolding frames_inv_def by blast
  obtain u where u: "unknown_function_id (bcache b) = Some u" using inv unfolding frames_inv_def by blast
  note ids' = hm_get_insert_old [OF new ids]
  note le' = map_le_upd_fresh [OF le(1) fresh(2)] map_le_upd_fresh [OF le(2) fresh(1)]
  show ?thesis
  proof (cases s)
    case None
    then show ?thesis
      using frames_inv_new(2) [OF inv N new] le le' rest ids' u seen new
      by (simp add: loop_rel_def Let_def intern_frame_def cached_frame_def reserve_frame_def note_name_def name_of_def
          get_or_create_unknown_function_id_def same_rest_def)
  next
    case (Some n)
    then show ?thesis
      using frames_inv_new(1) [OF inv N new, of n] le le' rest ids' seen new
      by (simp add: loop_rel_def Let_def intern_frame_def cached_frame_def reserve_frame_def note_name_def name_of_def
          reserve_function_id_def same_rest_def)
  qed
qed

lemma intern_frames:
  "loop_rel dn df c0 N seen keys b \<Longrightarrow> N + length items < 2 ^ 64 \<Longrightarrow>
   loop_rel dn df c0 (N + length items) (fold note_name (map (\<lambda>(s, a). ((pid, a), s)) items) seen)
     (keys @ map (\<lambda>(s, a). (pid, a)) items) (fold (intern_frame pid) items b)"
proof (induction items arbitrary: N seen keys b)
  case Nil
  then show ?case by simp
next
  case (Cons item items)
  obtain s a where item: "item = (s, a)" by fastforce
  have "loop_rel dn df c0 (N + 1) (note_name ((pid, a), s) seen) (keys @ [(pid, a)]) (intern_frame pid (s, a) b)"
  proof (cases "hm_get (pid_frame_to_sequence (bcache b)) (pid, a)")
    case None
    then show ?thesis using Cons.prems by (intro intern_frame_new) simp_all
  next
    case (Some i)
    then show ?thesis using Cons.prems(1) by (intro intern_frame_old)
  qed
  from Cons.IH [OF this] Cons.prems(2) show ?case by (simp add: item)
qed

text \<open>The frames of a request from the outermost user frame to the innermost kernel frame, with their symbols.\<close>

definition stack_items :: "Interned \<Rightarrow> ((i32 \<times> u64) \<times> string option) list" where
  "stack_items r =
    map (\<lambda>(s, a). ((interned_pid r, a), s)) (rev (zip (user_symbols r) (user_addresses r))) @
    map (\<lambda>(s, a). ((- 1, a), s)) (zip (kernel_symbols r) (kernel_addresses r))"

lemma data_frames_rel:
  assumes "loop_rel dn df c0 N seen [] b" "N + length (stack_items r) < 2 ^ 64"
  shows "loop_rel dn df c0 (N + length (stack_items r)) (fold note_name (stack_items r) seen) (map fst (stack_items r)) (data_frames r b)"
proof -
  let ?u = "rev (zip (user_symbols r) (user_addresses r))" and ?k = "zip (kernel_symbols r) (kernel_addresses r)"
  have len: "length (stack_items r) = length ?u + length ?k" by (simp add: stack_items_def)
  have u: "loop_rel dn df c0 (N + length ?u) (fold note_name (map (\<lambda>(s, a). ((interned_pid r, a), s)) ?u) seen)
      ([] @ map (\<lambda>(s, a). (interned_pid r, a)) ?u) (fold (intern_frame (interned_pid r)) ?u b)"
    using assms len by (intro intern_frames) simp_all
  have keys: "map fst (stack_items r) = ([] @ map (\<lambda>(s, a). (interned_pid r, a)) ?u) @ map (\<lambda>(s, a). (- 1, a)) ?k"
    by (auto simp: stack_items_def)
  have noted: "fold note_name (stack_items r) seen = fold note_name (map (\<lambda>(s, a). ((- 1, a), s)) ?k)
      (fold note_name (map (\<lambda>(s, a). ((interned_pid r, a), s)) ?u) seen)"
    by (simp add: stack_items_def)
  have "loop_rel dn df c0 (N + length ?u + length ?k) (fold note_name (stack_items r) seen) (map fst (stack_items r)) (data_frames r b)"
    unfolding keys noted data_frames_def using assms(2) len by (intro intern_frames [OF u]) simp
  then show ?thesis by (simp add: len add.assoc)
qed

section \<open>Requests\<close>

text \<open>Every call stack interned so far has an id, which stands for exactly this stack.\<close>

definition stacks_inv :: "(u64 list \<Rightarrow> u64) \<Rightarrow> nat \<Rightarrow> u64 list set \<Rightarrow> InternedCache \<Rightarrow> (u64 \<rightharpoonup> u64 list) \<Rightarrow> bool" where
  "stacks_inv hash N S c ds \<longleftrightarrow>
    (\<forall>fs\<in>S. \<exists>i. hm_get (callstack_hash_to_sequence c) (hash fs) = Some i \<and> ds i = Some fs) \<and>
    (\<forall>h. hm_get (callstack_hash_to_sequence c) h \<noteq> None \<longrightarrow> h \<in> hash ` S) \<and>
    (\<forall>i. ds i \<noteq> None \<longrightarrow> i < next_callstack_sequence c) \<and> unat (next_callstack_sequence c) \<le> N"

text \<open>
  Between requests: \<open>S\<close> is the set of call stacks interned so far.  The flag for the first data is down
  once anything was sent.
\<close>

definition sent_inv ::
  "(u64 list \<Rightarrow> u64) \<Rightarrow> nat \<Rightarrow> u64 list set \<Rightarrow> (i32 \<times> u64 \<rightharpoonup> string) \<Rightarrow> InternedCache \<Rightarrow> dict \<Rightarrow> bool" where
  "sent_inv hash N S seen c d \<longleftrightarrow>
    (if is_first_interned_data c then c = InternedCache_new \<and> d = empty_dict \<and> S = {} \<and> seen = Map.empty
     else
       frames_inv N c (d_names d) (d_frames d) seen \<and>
       stacks_inv hash N S c (d_stacks d) \<and>
       fake_mapping_id c = Some FAKE_MAPPING_ID \<and> d_maps d FAKE_MAPPING_ID \<noteq> None)"

definition dict_le :: "dict \<Rightarrow> dict \<Rightarrow> bool" where
  "dict_le d d' \<longleftrightarrow> d_names d \<subseteq>\<^sub>m d_names d' \<and> d_frames d \<subseteq>\<^sub>m d_frames d' \<and>
    d_stacks d \<subseteq>\<^sub>m d_stacks d' \<and> d_maps d \<subseteq>\<^sub>m d_maps d'"

definition absorb_opt :: "InternedData option \<Rightarrow> dict \<Rightarrow> dict" where
  "absorb_opt data d = (case data of None \<Rightarrow> d | Some x \<Rightarrow> absorb x d)"

text \<open>The start of a request: what it sends makes the reader know the fallback name and the mapping.\<close>

lemma data_start_first:
  "data_start InternedCache_new =
    (\<lparr>bcache = InternedCache_new\<lparr>next_function_id := 1, unknown_function_id := Some 0, fake_mapping_id := Some 1, next_mapping_id := 2\<rparr>,
      all_frame_ids = [], new_function_names = [\<lparr>istr_iid = 0, istr_str = ''<unknown>''\<rparr>], new_frames = []\<rparr>,
     [\<lparr>mapping_iid = 1, build_id = 1, exact_offset = 0, start_offset = 0, mapping_start = 0,
        mapping_end = 0x7fffffffffffffff, load_bias = 0, path_string_ids = []\<rparr>],
     [\<lparr>istr_iid = 1, istr_str = ''unknown''\<rparr>])"
  by (simp add: data_start_def InternedCache_new_def get_or_create_unknown_function_id_def get_or_create_fake_mapping_id_def
      FAKE_MAPPING_ID_def)

lemma data_start_later:
  "unknown_function_id c = Some u \<Longrightarrow> fake_mapping_id c = Some m \<Longrightarrow>
    data_start c = (\<lparr>bcache = c, all_frame_ids = [], new_function_names = [], new_frames = []\<rparr>, [], [])"
  by (simp add: data_start_def)

lemma start_rel_first:
  "loop_rel Map.empty Map.empty (bcache (fst (data_start InternedCache_new))) 1 Map.empty [] (fst (data_start InternedCache_new))"
  unfolding data_start_first fst_conv
  by (simp add: loop_rel_def frames_inv_def InternedCache_new_def hm_get_def same_rest_def Let_def)

lemma start_rel_later:
  "frames_inv N c dn df seen \<Longrightarrow>
   loop_rel dn df c N seen [] \<lparr>bcache = c, all_frame_ids = [], new_function_names = [], new_frames = []\<rparr>"
  by (simp add: loop_rel_def same_rest_def)

lemma reserve_callstack_inv:
  assumes inv: "stacks_inv hash N S c ds" and N: "N + 1 < 2 ^ 64" and inj: "inj_on hash (insert fs S)"
    and res: "reserve_callstack hash fs c = (i, c')"
  shows "stacks_inv hash (N + 1) (insert fs S) c' (ds(i \<mapsto> fs)) \<and> ds \<subseteq>\<^sub>m ds(i \<mapsto> fs) \<and>
    (hm_get (callstack_hash_to_sequence c) (hash fs) \<noteq> None \<longrightarrow> c' = c \<and> ds(i \<mapsto> fs) = ds)"
proof (cases "hm_get (callstack_hash_to_sequence c) (hash fs)")
  case (Some j)
  then have "hash fs \<in> hash ` S" using inv by (fastforce simp: stacks_inv_def)
  then have fs: "fs \<in> S" using inj by (auto simp: inj_on_def)
  then have "ds j = Some fs" using inv Some by (fastforce simp: stacks_inv_def)
  then have "ds(j \<mapsto> fs) = ds" by auto
  then show ?thesis using inv fs res Some by (simp add: reserve_callstack_def Let_def stacks_inv_def insert_absorb)
next
  case None
  then have res': "i = next_callstack_sequence c"
      "c' = c\<lparr>next_callstack_sequence := i + 1, callstack_hash_to_sequence := hm_insert (hash fs) i (callstack_hash_to_sequence c)\<rparr>"
    using res by (auto simp: reserve_callstack_def Let_def)
  have fresh: "ds i = None" using inv unfolding stacks_inv_def res'(1) by (meson less_irrefl)
  have old: "\<exists>j. hm_get (callstack_hash_to_sequence c) (hash gs) = Some j \<and> ds j = Some gs" if "gs \<in> S" for gs
    using inv that by (simp add: stacks_inv_def)
  have w: "unat (i + 1) \<le> N + 1" "i < i + 1" "\<And>j. j < i \<Longrightarrow> j < i + 1"
    using inv N word_fresh [of i N] by (auto simp: stacks_inv_def res'(1))
  have "stacks_inv hash (N + 1) (insert fs S) c' (ds(i \<mapsto> fs))"
    unfolding stacks_inv_def
    apply (intro conjI)
    subgoal using old None fresh by (fastforce simp: res'(2))
    subgoal using inv by (auto simp: res'(2) stacks_inv_def)
    subgoal using inv w by (auto simp: res' stacks_inv_def)
    subgoal using w by (simp add: res'(2))
    done
  with None fresh show ?thesis by (simp add: map_le_upd_fresh)
qed

text \<open>The frame ids of a request, which do not depend on the hash function.\<close>

definition stack_ids :: "Interned \<Rightarrow> InternedCache \<Rightarrow> u64 list" where
  "stack_ids r c = all_frame_ids (data_frames r (fst (data_start c)))"

definition weight :: "Interned \<Rightarrow> nat" where
  "weight r = length (stack_items r) + 2"

text \<open>
  The data of a request, from a state of the loop that started with what the reader knows.  \<open>maps\<close> are the
  mappings sent at the start.
\<close>

lemma frames_inv_stack_update [simp]:
  "frames_inv N (c\<lparr>next_callstack_sequence := a, callstack_hash_to_sequence := b\<rparr>) dn df seen = frames_inv N c dn df seen"
  "frames_inv N (c\<lparr>is_first_interned_data := f\<rparr>) dn df seen = frames_inv N c dn df seen"
  by (simp_all add: frames_inv_def)

lemma stacks_inv_first_update [simp]:
  "stacks_inv hash N S (c\<lparr>is_first_interned_data := f\<rparr>) ds = stacks_inv hash N S c ds"
  by (simp add: stacks_inv_def)

lemma reserve_callstack_frames:
  "reserve_callstack hash fs c = (i, c') \<Longrightarrow> frames_inv N c' dn df seen = frames_inv N c dn df seen \<and>
    fake_mapping_id c' = fake_mapping_id c \<and> is_first_interned_data c' = is_first_interned_data c \<and>
    pid_frame_to_sequence c' = pid_frame_to_sequence c"
  by (auto simp: reserve_callstack_def Let_def split: option.splits)

text \<open>A call stack whose frames are cached resolves to their addresses and first names.\<close>

lemma resolve_stack:
  assumes inv: "frames_inv N c (d_names d) (d_frames d) seen" and maps: "d_maps d FAKE_MAPPING_ID \<noteq> None"
    and ids: "map Some fs = map (hm_get (pid_frame_to_sequence c)) keys" and st: "d_stacks d i = Some fs"
  shows "resolve d i = Some (map (\<lambda>k. (snd k, the (seen k))) keys)"
proof -
  have one: "resolve_frame d f = Some (snd k, the (seen k))" if k: "hm_get (pid_frame_to_sequence c) k = Some f" for k f
  proof -
    from inv k obtain fr n where "d_frames d f = Some fr" "rel_pc fr = snd k" "mapping_id fr = FAKE_MAPPING_ID"
        "d_names d (function_name_id fr) = Some n" "seen k = Some n"
      unfolding frames_inv_def by blast
    then show ?thesis using maps by (auto simp: resolve_frame_def)
  qed
  from ids have "those (map (resolve_frame d) fs) = Some (map (\<lambda>k. (snd k, the (seen k))) keys)"
    by (induction keys arbitrary: fs) (auto simp: Cons_eq_map_conv map_eq_Cons_conv one dest!: sym [of "Some _"])
  then show ?thesis by (simp add: resolve_def st)
qed

text \<open>The end of a request on what the reader knows of the sequence before it.\<close>

definition known :: "dict \<Rightarrow> builder \<Rightarrow> u64 \<Rightarrow> (u64 \<rightharpoonup> Mapping) \<Rightarrow> dict" where
  "known d b i dm =
    \<lparr>d_names = add_all istr_iid istr_str (new_function_names b) (d_names d),
     d_frames = add_all frame_iid (\<lambda>f. f) (new_frames b) (d_frames d),
     d_stacks = (d_stacks d)(i \<mapsto> all_frame_ids b), d_maps = dm\<rparr>"

lemma request_end:
  assumes loop: "loop_rel (d_names d) (d_frames d) c0 M seen keys b"
    and stacks: "stacks_inv hash M S (bcache b) (d_stacks d)" and M: "M + 1 < 2 ^ 64"
    and inj: "inj_on hash (insert (all_frame_ids b) S)"
    and res: "reserve_callstack hash (all_frame_ids b) (bcache b) = (i, c1)"
    and fake: "fake_mapping_id (bcache b) = Some FAKE_MAPPING_ID" "dm FAKE_MAPPING_ID \<noteq> None" "d_maps d \<subseteq>\<^sub>m dm"
  shows "sent_inv hash (M + 1) (insert (all_frame_ids b) S) seen (c1\<lparr>is_first_interned_data := False\<rparr>) (known d b i dm) \<and>
    dict_le d (known d b i dm) \<and> resolve (known d b i dm) i = Some (map (\<lambda>k. (snd k, the (seen k))) keys)"
proof -
  let ?k = "known d b i dm"
  note st = reserve_callstack_inv [OF stacks M inj res]
  have fr: "frames_inv M (bcache b) (d_names ?k) (d_frames ?k) seen"
    and le: "d_names d \<subseteq>\<^sub>m d_names ?k" "d_frames d \<subseteq>\<^sub>m d_frames ?k"
    and ids: "map Some (all_frame_ids b) = map (hm_get (pid_frame_to_sequence (bcache b))) keys"
    using loop by (simp_all add: loop_rel_def Let_def known_def)
  have "resolve ?k i = Some (map (\<lambda>k. (snd k, the (seen k))) keys)"
    by (rule resolve_stack [OF fr _ ids]) (simp_all add: known_def fake(2))
  moreover have "frames_inv (M + 1) c1 (d_names ?k) (d_frames ?k) seen"
    using frames_inv_mono [OF fr, of "M + 1"] reserve_callstack_frames [OF res] by simp
  ultimately show ?thesis
    using st le fake reserve_callstack_frames [OF res] by (simp add: sent_inv_def dict_le_def known_def)
qed

lemma stacks_inv_same_rest: "same_rest c c' \<Longrightarrow> stacks_inv hash N S c ds \<Longrightarrow> N \<le> M \<Longrightarrow> stacks_inv hash M S c' ds"
  by (simp add: same_rest_def stacks_inv_def)

lemma loop_rel_rest: "loop_rel dn df c0 N seen keys b \<Longrightarrow> same_rest c0 (bcache b)"
  by (simp add: loop_rel_def Let_def)

lemma sent_inv_mono: "sent_inv hash N S seen c d \<Longrightarrow> N \<le> M \<Longrightarrow> sent_inv hash M S seen c d"
  by (auto simp: sent_inv_def stacks_inv_def frames_inv_mono)

lemma request_later:
  assumes inv: "sent_inv hash N S seen c d" and later: "\<not> is_first_interned_data c"
    and N: "N + weight r < 2 ^ 64" and inj: "inj_on hash (insert (stack_ids r c) S)"
    and run: "Interned_data hash r c = ((i, data), c')"
  shows "sent_inv hash (N + weight r) (insert (stack_ids r c) S) (fold note_name (stack_items r) seen) c' (absorb_opt data d) \<and>
    dict_le d (absorb_opt data d) \<and>
    resolve (absorb_opt data d) i = Some (map (\<lambda>(k, _). (snd k, the (fold note_name (stack_items r) seen k))) (stack_items r))"
proof -
  let ?M = "N + length (stack_items r)" and ?seen = "fold note_name (stack_items r) seen"
  have fr: "frames_inv N c (d_names d) (d_frames d) seen" and st: "stacks_inv hash N S c (d_stacks d)"
    and fk: "fake_mapping_id c = Some FAKE_MAPPING_ID" "d_maps d FAKE_MAPPING_ID \<noteq> None"
    using inv later by (simp_all add: sent_inv_def)
  obtain u where u: "unknown_function_id c = Some u" using fr unfolding frames_inv_def by blast
  note start = data_start_later [OF u fk(1)]
  define b where "b = data_frames r \<lparr>bcache = c, all_frame_ids = [], new_function_names = [], new_frames = []\<rparr>"
  have ids: "stack_ids r c = all_frame_ids b" by (simp add: stack_ids_def start b_def)
  have loop: "loop_rel (d_names d) (d_frames d) c ?M ?seen (map fst (stack_items r)) b"
    unfolding b_def using N by (intro data_frames_rel start_rel_later fr) (simp add: weight_def)
  note rest = loop_rel_rest [OF loop]
  have st': "stacks_inv hash ?M S (bcache b) (d_stacks d)" by (rule stacks_inv_same_rest [OF rest st]) simp
  obtain j c1 where res: "reserve_callstack hash (all_frame_ids b) (bcache b) = (j, c1)" by fastforce
  have M: "?M + 1 < 2 ^ 64" using N by (simp add: weight_def)
  have inj': "inj_on hash (insert (all_frame_ids b) S)" using inj ids by simp
  have c1: "c1\<lparr>is_first_interned_data := False\<rparr> = c1" "\<not> is_first_interned_data c1"
    using rest later reserve_callstack_frames [OF res] by (simp_all add: same_rest_def)
  have out: "i = j \<and> c' = c1 \<and> absorb_opt data d = known d b i (d_maps d)"
  proof (cases "cached_callstack hash (all_frame_ids b) (bcache b) = None \<or> new_function_names b \<noteq> [] \<or> new_frames b \<noteq> []")
    case True
    then show ?thesis
      using run c1 by (auto simp: Interned_data_def start b_def [symmetric] res Let_def take_is_first_interned_data_def
          absorb_opt_def absorb_def known_def)
  next
    case False
    then have "(d_stacks d)(j \<mapsto> all_frame_ids b) = d_stacks d" "new_function_names b = []" "new_frames b = []"
      using reserve_callstack_inv [OF st' M inj' res] by (simp_all add: cached_callstack_def)
    then show ?thesis
      using run False by (auto simp: Interned_data_def start b_def [symmetric] res Let_def absorb_opt_def known_def)
  qed
  have fk': "fake_mapping_id (bcache b) = Some FAKE_MAPPING_ID" using rest fk by (simp add: same_rest_def)
  note fin = request_end [OF loop st' M inj' res fk' fk(2) map_le_refl]
  have "sent_inv hash (N + weight r) (insert (stack_ids r c) S) ?seen c1 (known d b j (d_maps d))"
    using sent_inv_mono [OF conjunct1 [OF fin], of "N + weight r"] by (simp add: c1 ids weight_def)
  then show ?thesis using fin out by (simp add: comp_def case_prod_beta)
qed

lemma request_first:
  assumes N: "weight r < 2 ^ 64" and run: "Interned_data hash r InternedCache_new = ((i, data), c')"
  shows "sent_inv hash (weight r) {stack_ids r InternedCache_new} (fold note_name (stack_items r) Map.empty) c' (absorb_opt data empty_dict) \<and>
    resolve (absorb_opt data empty_dict) i =
      Some (map (\<lambda>(k, _). (snd k, the (fold note_name (stack_items r) Map.empty k))) (stack_items r))"
proof -
  let ?M = "1 + length (stack_items r)" and ?seen = "fold note_name (stack_items r) Map.empty"
  obtain b0 maps builds where start: "data_start InternedCache_new = (b0, maps, builds)" by (metis prod_cases3)
  have maps: "maps = [\<lparr>mapping_iid = 1, build_id = 1, exact_offset = 0, start_offset = 0, mapping_start = 0,
        mapping_end = 0x7fffffffffffffff, load_bias = 0, path_string_ids = []\<rparr>]"
    and b0: "stacks_inv hash ?M {} (bcache b0) Map.empty" "fake_mapping_id (bcache b0) = Some FAKE_MAPPING_ID"
      "is_first_interned_data (bcache b0)"
    using start unfolding data_start_first
    by (auto simp: InternedCache_new_def stacks_inv_def hm_get_def FAKE_MAPPING_ID_def)
  define b where "b = data_frames r b0"
  have ids: "stack_ids r InternedCache_new = all_frame_ids b" by (simp add: stack_ids_def start b_def)
  have "loop_rel Map.empty Map.empty (bcache b0) ?M ?seen (map fst (stack_items r)) b"
    unfolding b_def using N start_rel_first unfolding start fst_conv
    by (intro data_frames_rel) (simp_all add: weight_def)
  then have loop: "loop_rel (d_names empty_dict) (d_frames empty_dict) (bcache b0) ?M ?seen (map fst (stack_items r)) b"
    by (simp add: empty_dict_def)
  note rest = loop_rel_rest [OF loop]
  have st': "stacks_inv hash ?M {} (bcache b) (d_stacks empty_dict)"
    unfolding empty_dict_def dict.simps by (rule stacks_inv_same_rest [OF rest b0(1)]) simp
  obtain j c1 where res: "reserve_callstack hash (all_frame_ids b) (bcache b) = (j, c1)" by fastforce
  have c1: "is_first_interned_data c1"
    using rest b0 reserve_callstack_frames [OF res] by (simp add: same_rest_def)
  let ?dm = "add_all mapping_iid (\<lambda>m. m) maps Map.empty"
  have out: "i = j \<and> c' = c1\<lparr>is_first_interned_data := False\<rparr> \<and> absorb_opt data empty_dict = known empty_dict b i ?dm"
    using run c1 unfolding Interned_data_def start
    by (auto simp: b_def [symmetric] res Let_def take_is_first_interned_data_def maps
        absorb_opt_def absorb_def known_def empty_dict_def)
  have fk: "fake_mapping_id (bcache b) = Some FAKE_MAPPING_ID" "?dm FAKE_MAPPING_ID \<noteq> None" "d_maps empty_dict \<subseteq>\<^sub>m ?dm"
    using rest b0 by (simp_all add: same_rest_def maps FAKE_MAPPING_ID_def empty_dict_def)
  have M: "?M + 1 < 2 ^ 64" using N by (simp add: weight_def)
  have inj: "inj_on hash (insert (all_frame_ids b) {})" by simp
  from request_end [OF loop st' M inj res fk] out show ?thesis
    by (simp add: ids weight_def comp_def case_prod_beta)
qed

lemma request:
  assumes inv: "sent_inv hash N S seen c d" and N: "N + weight r < 2 ^ 64" and inj: "inj_on hash (insert (stack_ids r c) S)"
    and run: "Interned_data hash r c = ((i, data), c')"
  shows "sent_inv hash (N + weight r) (insert (stack_ids r c) S) (fold note_name (stack_items r) seen) c' (absorb_opt data d) \<and>
    dict_le d (absorb_opt data d) \<and>
    resolve (absorb_opt data d) i = Some (map (\<lambda>(k, _). (snd k, the (fold note_name (stack_items r) seen k))) (stack_items r))"
proof (cases "is_first_interned_data c")
  case False
  then show ?thesis using assms by (intro request_later)
next
  case True
  then have eq: "c = InternedCache_new" "d = empty_dict" "S = {}" "seen = Map.empty" using inv by (simp_all add: sent_inv_def)
  have "dict_le empty_dict d'" for d' by (simp add: dict_le_def empty_dict_def)
  with request_first [of r hash i data c'] sent_inv_mono [of hash "weight r" _ _ _ _ "N + weight r"] N run
  show ?thesis unfolding eq by auto
qed

section \<open>Runs\<close>

primrec run_data :: "(u64 list \<Rightarrow> u64) \<Rightarrow> Interned list \<Rightarrow> InternedCache \<Rightarrow> (u64 \<times> InternedData option) list" where
  "run_data hash [] c = []"
| "run_data hash (r # rs) c = (case Interned_data hash r c of (out, c') \<Rightarrow> out # run_data hash rs c')"

primrec run_stacks :: "(u64 list \<Rightarrow> u64) \<Rightarrow> Interned list \<Rightarrow> InternedCache \<Rightarrow> u64 list list" where
  "run_stacks hash [] c = []"
| "run_stacks hash (r # rs) c = stack_ids r c # run_stacks hash rs (snd (Interned_data hash r c))"

definition read_all :: "(u64 \<times> InternedData option) list \<Rightarrow> dict \<Rightarrow> dict" where
  "read_all = fold (absorb_opt \<circ> snd)"

lemma dict_le_trans: "dict_le a b \<Longrightarrow> dict_le b c \<Longrightarrow> dict_le a c"
  by (auto simp: dict_le_def intro: map_le_trans)

lemma resolve_frame_mono: "dict_le d d' \<Longrightarrow> resolve_frame d f = Some x \<Longrightarrow> resolve_frame d' f = Some x"
  unfolding dict_le_def map_le_def resolve_frame_def
  by (auto split: option.splits) (metis domI option.inject option.distinct(1))+

lemma those_mono: "(\<And>f y. f \<in> set fs \<Longrightarrow> g f = Some y \<Longrightarrow> h f = Some y) \<Longrightarrow> those (map g fs) = Some x \<Longrightarrow> those (map h fs) = Some x"
  by (induction fs arbitrary: x) (fastforce split: option.splits)+

lemma resolve_mono:
  assumes le: "dict_le d d'" and r: "resolve d i = Some x"
  shows "resolve d' i = Some x"
proof -
  obtain fs where fs: "d_stacks d i = Some fs" "those (map (resolve_frame d) fs) = Some x"
    using r by (auto simp: resolve_def split: option.splits)
  then have "d_stacks d' i = Some fs" using le by (auto simp: dict_le_def map_le_def dom_def)
  moreover have "those (map (resolve_frame d') fs) = Some x"
    by (rule those_mono [OF resolve_frame_mono [OF le] fs(2)])
  ultimately show ?thesis by (simp add: resolve_def)
qed

lemma note_names_keep: "seen k \<noteq> None \<Longrightarrow> fold note_name items seen k = seen k"
  by (induction items arbitrary: seen) (auto simp: note_name_def)

lemma note_names_all: "(k, s) \<in> set items \<Longrightarrow> fold note_name items seen k \<noteq> None"
proof (induction items arbitrary: seen)
  case (Cons x items)
  show ?case
  proof (cases "(k, s) \<in> set items")
    case True
    then show ?thesis using Cons.IH by simp
  next
    case False
    then have "note_name x seen k \<noteq> None" using Cons.prems by (auto simp: note_name_def)
    then show ?thesis using note_names_keep [of "note_name x seen" k items] by simp
  qed
qed simp

lemma read_all_le:
  "sent_inv hash N S seen c d \<Longrightarrow> N + sum_list (map weight rs) < 2 ^ 64 \<Longrightarrow> inj_on hash (S \<union> set (run_stacks hash rs c)) \<Longrightarrow>
    dict_le d (read_all (take n (run_data hash rs c)) d)"
proof (induction rs arbitrary: N S seen c d n)
  case Nil
  then show ?case by (simp add: read_all_def dict_le_def)
next
  case (Cons r rs)
  show ?case
  proof (cases n)
    case 0
    then show ?thesis by (simp add: read_all_def dict_le_def)
  next
    case (Suc m)
    obtain i data c' where run: "Interned_data hash r c = ((i, data), c')" by (metis prod_cases3 surj_pair)
    have "inj_on hash (insert (stack_ids r c) S)" using Cons.prems(3) by (rule inj_on_subset) auto
    note step = request [OF Cons.prems(1) _ this run]
    have "dict_le (absorb_opt data d) (read_all (take m (run_data hash rs c')) (absorb_opt data d))"
      using step Cons.prems run by (intro Cons.IH) (auto elim: inj_on_subset)
    then show ?thesis using step Cons.prems(2) run Suc by (auto simp: read_all_def intro: dict_le_trans)
  qed
qed

lemma run_resolves:
  "sent_inv hash N S seen c d \<Longrightarrow> N + sum_list (map weight rs) < 2 ^ 64 \<Longrightarrow> inj_on hash (S \<union> set (run_stacks hash rs c)) \<Longrightarrow>
    k \<le> j \<Longrightarrow> j < length rs \<Longrightarrow>
    resolve (read_all (take (Suc j) (run_data hash rs c)) d) (fst (run_data hash rs c ! k)) =
      Some (map (\<lambda>(key, _). (snd key, the (fold note_name (concat (map stack_items rs)) seen key))) (stack_items (rs ! k)))"
proof (induction rs arbitrary: N S seen c d k j)
  case Nil
  then show ?case by simp
next
  case (Cons r rs)
  obtain i data c' where run: "Interned_data hash r c = ((i, data), c')" by (metis prod_cases3 surj_pair)
  have inj: "inj_on hash (insert (stack_ids r c) S)" using Cons.prems(3) by (rule inj_on_subset) auto
  note step = request [OF Cons.prems(1) _ inj run]
  let ?d = "absorb_opt data d" and ?seen = "fold note_name (stack_items r) seen"
  have inv: "sent_inv hash (N + weight r) (insert (stack_ids r c) S) ?seen c' ?d" using step Cons.prems(2) by simp
  have rest: "N + weight r + sum_list (map weight rs) < 2 ^ 64" "inj_on hash (insert (stack_ids r c) S \<union> set (run_stacks hash rs c'))"
    using Cons.prems(2,3) run by simp_all
  show ?case
  proof (cases k)
    case 0
    have "resolve ?d i = Some (map (\<lambda>(key, _). (snd key, the (?seen key))) (stack_items r))" using step Cons.prems(2) by simp
    also have "map (\<lambda>(key, _). (snd key, the (?seen key))) (stack_items r) =
        map (\<lambda>(key, _). (snd key, the (fold note_name (concat (map stack_items rs)) ?seen key))) (stack_items r)"
      by (auto simp: note_names_keep note_names_all)
    finally have "resolve (read_all (take j (run_data hash rs c')) ?d) i =
      Some (map (\<lambda>(key, _). (snd key, the (fold note_name (concat (map stack_items rs)) ?seen key))) (stack_items r))" for j
      using resolve_mono [OF read_all_le [OF inv rest]] by blast
    then show ?thesis using 0 run by (simp add: read_all_def)
  next
    case (Suc k')
    then obtain j' where j: "j = Suc j'" using Cons.prems(4) by (cases j) auto
    have "resolve (read_all (take (Suc j') (run_data hash rs c')) ?d) (fst (run_data hash rs c' ! k')) =
      Some (map (\<lambda>(key, _). (snd key, the (fold note_name (concat (map stack_items rs)) ?seen key))) (stack_items (rs ! k')))"
      using Cons.prems(4,5) Suc j by (intro Cons.IH [OF inv rest]) simp_all
    then show ?thesis using Suc j run by (simp add: read_all_def)
  qed
qed

lemma symbolize_keys:
  assumes blaze: "\<And>src addrs syms. blaze src addrs = Ok syms \<Longrightarrow> length syms = length addrs"
    and ok: "symbolize blaze cfg pid uaddrs kaddrs = Ok r"
  shows "map fst (stack_items r) = map (Pair pid) (rev uaddrs) @ map (Pair (- 1)) kaddrs"
proof -
  have keys: "map fst (map (\<lambda>(s, a). ((p, a), s)) (zip syms addrs)) = map (Pair p) addrs"
    if "length syms = length addrs" for p :: i32 and syms :: "string option list" and addrs :: "u64 list"
    using that by (induction syms addrs rule: list_induct2) auto
  have "length us = length uaddrs" if "(if uaddrs \<noteq> [] then blaze src uaddrs else Ok []) = Ok us" for us src
    using that blaze by (auto split: if_splits)
  moreover have "length ks = length kaddrs" if "(if kaddrs \<noteq> [] then blaze src kaddrs else Ok []) = Ok ks" for ks src
    using that blaze by (auto split: if_splits)
  ultimately show ?thesis using keys ok
    by (fastforce simp: symbolize_def stack_items_def rev_map [symmetric] split: sum.splits if_splits)
qed

lemma sent_inv_start: "sent_inv hash 0 {} Map.empty InternedCache_new empty_dict"
  by (simp add: sent_inv_def InternedCache_new_def)

section \<open>Properties\<close>


definition example_request :: Interned where
  "example_request = \<lparr>interned_pid = 7, user_addresses = [0x10, 0x20], kernel_addresses = [0x30],
    user_symbols = [Some ''leaf'', None], kernel_symbols = [Some ''sys'']\<rparr>"


text \<open>
  With a symboliser that answers with one result per address, \<open>symbolize\<close> fails with
  \<open>EmptySymbols\<close> exactly on two empty lists of addresses and otherwise only with an error of the
  symboliser; when it succeeds the stack interned for it has every address, user frames outermost
  first under the pid of the process and then the kernel frames under pid -1.
\<close>

theorem symbolize_covers_addresses:
  assumes blaze: "\<And>src addrs syms. blaze src addrs = Ok syms \<Longrightarrow> length syms = length addrs"
  shows "(symbolize blaze cfg pid uaddrs kaddrs = Err EmptySymbols \<longleftrightarrow> uaddrs = [] \<and> kaddrs = []) \<and>
    (\<forall>r. symbolize blaze cfg pid uaddrs kaddrs = Ok r \<longrightarrow>
      map fst (stack_items r) = map (Pair pid) (rev uaddrs) @ map (Pair (- 1)) kaddrs)"
proof (intro conjI allI impI)
  show "symbolize blaze cfg pid uaddrs kaddrs = Err EmptySymbols \<longleftrightarrow> uaddrs = [] \<and> kaddrs = []"
    using blaze by (fastforce simp: symbolize_def split: sum.splits if_splits)
qed (rule symbolize_keys [OF blaze])

theorem symbolize_covers_addresses_witness:
  "\<exists>r. symbolize (\<lambda>_ addrs. Ok (map (\<lambda>_. None) addrs)) ProcessConfig_default 7 [1, 2] [3] = Ok r \<and>
    map fst (stack_items r) = [(7, 2), (7, 1), (- 1, 3)]"
proof -
  let ?b = "\<lambda>_ addrs. Ok (map (\<lambda>_. None :: string option) (addrs :: u64 list)) :: (string, string option list) result"
  have "symbolize ?b ProcessConfig_default 7 [1, 2] [3] = Ok \<lparr>interned_pid = 7, user_addresses = [1, 2],
      kernel_addresses = [3], user_symbols = [None, None], kernel_symbols = [None]\<rparr>"
    by (simp add: symbolize_def)
  with symbolize_covers_addresses [of ?b ProcessConfig_default 7 "[1, 2]" "[3]"] show ?thesis by auto
qed

end
