(* ===== verification/TracingLayer.thy ===== *)
theory TracingLayer
  imports AgentState
begin

text \<open>
  The tracing layer of an instrumented program (tracing-manytrace/src/layer.rs, extension.rs, visitor.rs):
  the extension that the agent starts and stops, the visitor that turns the fields of spans and events
  into labels, and the callbacks of the layer.

  The filter of tracing-subscriber and the conversion of integers to floating point are arguments; the
  registry of spans, which tracing-subscriber keeps, is a table of the metadata and of the data the
  layer attached.  Attaching data twice panics there: a callback that panics is \<open>None\<close>.  The messages to
  the standard error stream are not modelled.
\<close>

section \<open>Definitions\<close>

subsection \<open>The extension\<close>

type_synonym clockid = i32

definition CLOCK_REALTIME :: clockid where "CLOCK_REALTIME = 0"
definition CLOCK_MONOTONIC :: clockid where "CLOCK_MONOTONIC = 1"
definition CLOCK_BOOTTIME :: clockid where "CLOCK_BOOTTIME = 7"

record ('f, 's) TracingState =
  ts_clock_id :: clockid
  ts_env_filter :: 'f
  ts_handle :: "'s AgentHandle"

type_synonym ('f, 's) TracingExtension = "('f, 's) TracingState option"

definition TracingExtension_new :: "('f, 's) TracingExtension" where
  "TracingExtension_new = None"

definition clock_id :: "('f, 's) TracingExtension \<Rightarrow> clockid" where
  "clock_id ext = (case ext of Some s \<Rightarrow> ts_clock_id s | None \<Rightarrow> CLOCK_MONOTONIC)"

definition with_env_filter :: "('f \<Rightarrow> 'r) \<Rightarrow> ('f, 's) TracingExtension \<Rightarrow> 'r option" where
  "with_env_filter f ext = map_option (\<lambda>s. f (ts_env_filter s)) ext"

definition TracingExtension_submit ::
  "('s AgentHandle, AgentError, unit) stm \<Rightarrow> (('f, 's) TracingExtension, AgentError, unit) stm" where
  "TracingExtension_submit handle_submit ext =
    (case ext of
       Some s \<Rightarrow> (case handle_submit (ts_handle s) of (r, h) \<Rightarrow> (r, Some (s\<lparr>ts_handle := h\<rparr>)))
     | None \<Rightarrow> (Err NotEnabled, None))"

definition is_active :: "('f, 's) TracingExtension \<Rightarrow> bool" where
  "is_active ext = (ext \<noteq> None)"

definition TracingExtension_start ::
  "(string \<Rightarrow> (string, 'f) result) \<Rightarrow> TracingArgs \<Rightarrow> 's AgentHandle \<Rightarrow> (('f, 's) TracingExtension, ExtensionError, unit) stm" where
  "TracingExtension_start try_new args handle =
    (let cid = (case timestamp_type args of
        Monotonic \<Rightarrow> CLOCK_MONOTONIC | Boottime \<Rightarrow> CLOCK_BOOTTIME | Realtime \<Rightarrow> CLOCK_REALTIME) in
     case try_new (log_filter args) of
       Inl e \<Rightarrow> throw (ValidationError (''invalid log filter '' @ CHR 0x27 # log_filter args @ CHR 0x27 # '': '' @ e))
     | Inr env_filter \<Rightarrow>
         modify (\<lambda>_. Some \<lparr>ts_clock_id = cid, ts_env_filter = env_filter, ts_handle = handle\<rparr>))"

definition TracingExtension_stop :: "(('f, 's) TracingExtension, ExtensionError, unit) stm" where
  "TracingExtension_stop = modify (\<lambda>_. None)"

subsection \<open>The visitor\<close>

record SpanData =
  sd_labels :: Labels
  sd_start_timestamp :: u64

datatype field_value =
    Field_i64 i64
  | Field_u64 u64
  | Field_f64 f64
  | Field_bool bool
  | Field_str string
  | Field_debug string

text \<open>A field with its value; a value recorded through \<open>Debug\<close> comes formatted.\<close>

definition record_field :: "(u64 \<Rightarrow> f64) \<Rightarrow> string \<times> field_value \<Rightarrow> SpanData \<Rightarrow> SpanData" where
  "record_field u64_to_f64 = (\<lambda>(name, v) d. let l = sd_labels d in d\<lparr>sd_labels :=
    (case v of
       Field_i64 value \<Rightarrow> l\<lparr>ints := hm_insert name value (ints l)\<rparr>
     | Field_u64 value \<Rightarrow>
         if value \<le> 0x7fffffffffffffff then l\<lparr>ints := hm_insert name value (ints l)\<rparr>
         else l\<lparr>floats := hm_insert name (u64_to_f64 value) (floats l)\<rparr>
     | Field_f64 value \<Rightarrow> l\<lparr>floats := hm_insert name value (floats l)\<rparr>
     | Field_bool value \<Rightarrow> l\<lparr>bools := hm_insert name value (bools l)\<rparr>
     | Field_str value \<Rightarrow> l\<lparr>strings := hm_insert name value (strings l)\<rparr>
     | Field_debug formatted \<Rightarrow> l\<lparr>strings := hm_insert name formatted (strings l)\<rparr>)\<rparr>)"

subsection \<open>The layer\<close>

record meta =
  meta_name :: string
  meta_target :: string

record span_slot =
  slot_meta :: meta
  slot_data :: "SpanData option"

text \<open>The thread-local flag and the thread ids are tables over the threads.\<close>

record ('f, 's) layer =
  in_tracing :: "nat \<Rightarrow> bool"
  thread_ids :: "(nat \<times> i32) list"
  extension :: "('f, 's) TracingExtension"
  spans :: "(u64 \<times> span_slot) list"

text \<open>What the calling thread sees of its surroundings.\<close>

record call =
  call_thread :: nat
  call_thread_name :: "string option"
  call_gettid :: i32
  call_pid :: i32
  call_clock :: "clockid \<Rightarrow> i64 \<times> i64"

definition get_timestamp :: "i64 \<times> i64 \<Rightarrow> u64" where
  "get_timestamp ts = fst ts * 1000000000 + snd ts"

definition ManytraceLayer_new :: "('f, 's) TracingExtension \<Rightarrow> (u64 \<times> span_slot) list \<Rightarrow> ('f, 's) layer" where
  "ManytraceLayer_new ext registry = \<lparr>in_tracing = \<lambda>_. False, thread_ids = [], extension = ext, spans = registry\<rparr>"

definition get_thread_id :: "call \<Rightarrow> ('f, 's) layer \<Rightarrow> i32 \<times> ('f, 's) layer" where
  "get_thread_id c l =
    (case hm_get (thread_ids l) (call_thread c) of
       Some tid \<Rightarrow> (tid, l)
     | None \<Rightarrow> (call_gettid c, l\<lparr>thread_ids := hm_insert (call_thread c) (call_gettid c) (thread_ids l)\<rparr>))"

definition is_enabled :: "('f \<Rightarrow> meta \<Rightarrow> bool) \<Rightarrow> meta \<Rightarrow> ('f, 's) layer \<Rightarrow> bool" where
  "is_enabled filter_enabled m l =
    (case with_env_filter (\<lambda>f. filter_enabled f m) (extension l) of Some b \<Rightarrow> b | None \<Rightarrow> True)"

definition with_guard :: "call \<Rightarrow> (('f, 's) layer \<Rightarrow> ('f, 's) layer option) \<Rightarrow> ('f, 's) layer \<Rightarrow> ('f, 's) layer option" where
  "with_guard c body l =
    (if in_tracing l (call_thread c) then Some l
     else
       map_option (\<lambda>l1. l1\<lparr>in_tracing := (in_tracing l1)(call_thread c := False)\<rparr>)
         (body (l\<lparr>in_tracing := (in_tracing l)(call_thread c := True)\<rparr>)))"

definition labelled :: "(u64 \<Rightarrow> f64) \<Rightarrow> meta \<Rightarrow> (string \<times> field_value) list \<Rightarrow> SpanData" where
  "labelled u64_to_f64 m fs =
    (let d = fold (record_field u64_to_f64) fs \<lparr>sd_labels = Labels_new, sd_start_timestamp = 0\<rparr> in
     d\<lparr>sd_labels := (sd_labels d)\<lparr>strings := hm_insert ''target'' (meta_target m) (strings (sd_labels d))\<rparr>\<rparr>)"

definition on_new_span ::
  "('f \<Rightarrow> meta \<Rightarrow> bool) \<Rightarrow> (u64 \<Rightarrow> f64) \<Rightarrow> call \<Rightarrow> meta \<Rightarrow> (string \<times> field_value) list \<Rightarrow> u64 \<Rightarrow> ('f, 's) layer \<Rightarrow> ('f, 's) layer option" where
  "on_new_span filter_enabled u64_to_f64 c m fs i = with_guard c (\<lambda>l.
    if \<not> is_active (extension l) then Some l
    else if \<not> is_enabled filter_enabled m l then Some l
    else
      let span_data = labelled u64_to_f64 m fs in
      case hm_get (spans l) i of
        None \<Rightarrow> Some l
      | Some slot \<Rightarrow>
          if slot_data slot = None then
            Some (l\<lparr>spans := hm_insert i (slot\<lparr>slot_data := Some span_data\<rparr>) (spans l)\<rparr>)
          else None)"

definition on_enter :: "call \<Rightarrow> u64 \<Rightarrow> ('f, 's) layer \<Rightarrow> ('f, 's) layer option" where
  "on_enter c i = with_guard c (\<lambda>l.
    if \<not> is_active (extension l) then Some l
    else
      case hm_get (spans l) i of
        None \<Rightarrow> Some l
      | Some slot \<Rightarrow>
          (case slot_data slot of
             None \<Rightarrow> Some l
           | Some d \<Rightarrow>
               Some (l\<lparr>spans := hm_insert i (slot\<lparr>slot_data :=
                 Some (d\<lparr>sd_start_timestamp := get_timestamp (call_clock c (clock_id (extension l)))\<rparr>)\<rparr>) (spans l)\<rparr>)))"

text \<open>Submitting to the extension, whose errors the callbacks ignore.\<close>

definition submit_event ::
  "(Event \<Rightarrow> ('s, AgentError, unit) stm) \<Rightarrow> call \<Rightarrow> Event \<Rightarrow> ('f, 's) layer \<Rightarrow> ('f, 's) layer" where
  "submit_event submit c event l = l\<lparr>extension := snd (TracingExtension_submit
     (AgentHandle_submit submit (call_thread c) (call_thread_name c) (call_gettid c) (call_pid c) event) (extension l))\<rparr>"

definition on_exit ::
  "(Event \<Rightarrow> ('s, AgentError, unit) stm) \<Rightarrow> call \<Rightarrow> u64 \<Rightarrow> ('f, 's) layer \<Rightarrow> ('f, 's) layer option" where
  "on_exit submit c i = with_guard c (\<lambda>l.
    if \<not> is_active (extension l) then Some l
    else
      case hm_get (spans l) i of
        None \<Rightarrow> Some l
      | Some slot \<Rightarrow>
          (case slot_data slot of
             None \<Rightarrow> Some l
           | Some d \<Rightarrow>
               let (tid, l1) = get_thread_id c l in
               Some (submit_event submit c (Event_Span \<lparr>span_name = meta_name (slot_meta slot), span_id = i,
                 start_timestamp = sd_start_timestamp d,
                 end_timestamp = get_timestamp (call_clock c (clock_id (extension l))),
                 span_track_id = TrackId_Thread tid (call_pid c), span_labels = sd_labels d\<rparr>) l1)))"

definition on_event ::
  "('f \<Rightarrow> meta \<Rightarrow> bool) \<Rightarrow> (u64 \<Rightarrow> f64) \<Rightarrow> (Event \<Rightarrow> ('s, AgentError, unit) stm) \<Rightarrow> call \<Rightarrow> meta \<Rightarrow> (string \<times> field_value) list \<Rightarrow>
    ('f, 's) layer \<Rightarrow> ('f, 's) layer option" where
  "on_event filter_enabled u64_to_f64 submit c m fs = with_guard c (\<lambda>l.
    if \<not> is_active (extension l) then Some l
    else if \<not> is_enabled filter_enabled m l then Some l
    else
      let span_data = labelled u64_to_f64 m fs;
          (tid, l1) = get_thread_id c l in
      Some (submit_event submit c (Event_Instant \<lparr>instant_name = meta_name m,
        instant_timestamp = get_timestamp (call_clock c (clock_id (extension l))),
        instant_track_id = TrackId_Thread tid (call_pid c), instant_labels = sd_labels span_data\<rparr>) l1))"

section \<open>Sequences of callbacks\<close>

datatype 's layer_op =
    Op_New meta "(string \<times> field_value) list" u64
  | Op_Enter u64
  | Op_Exit u64
  | Op_Event meta "(string \<times> field_value) list"
  | Op_Start TracingArgs "'s AgentHandle"
  | Op_Stop

record ('f, 's) layer_env =
  le_filter :: "'f \<Rightarrow> meta \<Rightarrow> bool"
  le_f64 :: "u64 \<Rightarrow> f64"
  le_submit :: "Event \<Rightarrow> ('s, AgentError, unit) stm"
  le_try_new :: "string \<Rightarrow> (string, 'f) result"

definition layer_op :: "('f, 's) layer_env \<Rightarrow> 's layer_op \<times> call \<Rightarrow> ('f, 's) layer \<Rightarrow> ('f, 's) layer option" where
  "layer_op e = (\<lambda>(op, c). case op of
       Op_New m fs i \<Rightarrow> on_new_span (le_filter e) (le_f64 e) c m fs i
     | Op_Enter i \<Rightarrow> on_enter c i
     | Op_Exit i \<Rightarrow> on_exit (le_submit e) c i
     | Op_Event m fs \<Rightarrow> on_event (le_filter e) (le_f64 e) (le_submit e) c m fs
     | Op_Start args handle \<Rightarrow> (\<lambda>l. Some (l\<lparr>extension := snd (TracingExtension_start (le_try_new e) args handle (extension l))\<rparr>))
     | Op_Stop \<Rightarrow> (\<lambda>l. Some (l\<lparr>extension := snd (TracingExtension_stop (extension l))\<rparr>)))"

primrec layer_run :: "('f, 's) layer_env \<Rightarrow> ('s layer_op \<times> call) list \<Rightarrow> ('f, 's) layer \<Rightarrow> ('f, 's) layer option" where
  "layer_run e [] l = Some l"
| "layer_run e (x # xs) l = Option.bind (layer_op e x l) (layer_run e xs)"

section \<open>Callbacks that leave a span alone\<close>

definition idle :: "('f, 's) layer \<Rightarrow> bool" where
  "idle l \<longleftrightarrow> (\<forall>t. \<not> in_tracing l t)"

definition config :: "('f, 's) layer \<Rightarrow> (clockid \<times> 'f) option" where
  "config l = map_option (\<lambda>s. (ts_clock_id s, ts_env_filter s)) (extension l)"

definition touches :: "u64 \<Rightarrow> 's layer_op \<Rightarrow> bool" where
  "touches i op = (case op of
       Op_New m fs j \<Rightarrow> j = i | Op_Enter j \<Rightarrow> j = i | Op_Exit j \<Rightarrow> False | Op_Event m fs \<Rightarrow> False
     | Op_Start args h \<Rightarrow> True | Op_Stop \<Rightarrow> True)"

lemma with_guard_idle:
  assumes "idle l" "with_guard c body l = Some l'"
  obtains l1 where "body (l\<lparr>in_tracing := (in_tracing l)(call_thread c := True)\<rparr>) = Some l1"
    "l' = l1\<lparr>in_tracing := (in_tracing l1)(call_thread c := False)\<rparr>"
  using assms by (auto simp: with_guard_def idle_def)

lemma config_simps [simp]:
  "config (l\<lparr>in_tracing := a\<rparr>) = config l" "config (l\<lparr>thread_ids := b\<rparr>) = config l" "config (l\<lparr>spans := d\<rparr>) = config l"
  by (simp_all add: config_def)

lemma submit_event_simps [simp]:
  "config (submit_event submit c ev l) = config l" "spans (submit_event submit c ev l) = spans l"
  "in_tracing (submit_event submit c ev l) = in_tracing l" "thread_ids (submit_event submit c ev l) = thread_ids l"
  by (auto simp: submit_event_def TracingExtension_submit_def config_def split: option.splits prod.splits)

lemma get_thread_id_simps [simp]:
  "spans (snd (get_thread_id c l)) = spans l" "in_tracing (snd (get_thread_id c l)) = in_tracing l"
  "extension (snd (get_thread_id c l)) = extension l" "config (snd (get_thread_id c l)) = config l"
  by (auto simp: get_thread_id_def config_def split: option.splits)

lemmas callback_defs = on_new_span_def on_enter_def on_exit_def on_event_def

lemma layer_op_other:
  assumes idle: "idle l" and run: "layer_op e (op, c) l = Some l'" and other: "\<not> touches i op"
  shows "idle l' \<and> config l' = config l \<and> hm_get (spans l') i = hm_get (spans l) i"
proof (cases op)
  case (Op_New m fs j)
  then show ?thesis using run other idle unfolding layer_op_def
    by (auto simp: on_new_span_def touches_def Let_def idle_def elim!: with_guard_idle [OF idle] split: if_splits option.splits)
next
  case (Op_Enter j)
  then show ?thesis using run other idle unfolding layer_op_def
    by (auto simp: on_enter_def touches_def idle_def elim!: with_guard_idle [OF idle] split: if_splits option.splits)
next
  case (Op_Exit j)
  then show ?thesis using run other idle unfolding layer_op_def
    by (auto simp: on_exit_def Let_def case_prod_beta idle_def elim!: with_guard_idle [OF idle] split: if_splits option.splits)
next
  case (Op_Event m fs)
  then show ?thesis using run other idle unfolding layer_op_def
    by (auto simp: on_event_def Let_def case_prod_beta idle_def elim!: with_guard_idle [OF idle] split: if_splits option.splits)
qed (use other in \<open>simp_all add: touches_def\<close>)

lemma layer_run_other:
  "idle l \<Longrightarrow> layer_run e ops l = Some l' \<Longrightarrow> \<forall>(op, c)\<in>set ops. \<not> touches i op \<Longrightarrow>
    idle l' \<and> config l' = config l \<and> hm_get (spans l') i = hm_get (spans l) i"
proof (induction ops arbitrary: l)
  case (Cons x ops)
  obtain op c where x: "x = (op, c)" by fastforce
  obtain l1 where l1: "layer_op e (op, c) l = Some l1" "layer_run e ops l1 = Some l'"
    using Cons.prems(2) by (auto simp: x bind_eq_Some_conv)
  with layer_op_other [OF Cons.prems(1) l1(1), of i] Cons.prems(3) x Cons.IH [OF _ l1(2)]
  show ?case by auto
qed simp

lemma layer_run_append [simp]: "layer_run e (xs @ ys) l = Option.bind (layer_run e xs l) (layer_run e ys)"
  by (induction xs arbitrary: l) (auto simp: bind_eq_None_conv split: bind_splits)

section \<open>The life of a span\<close>

lemma new_span_attaches:
  assumes idle: "idle l" and run: "layer_op e (Op_New m fs i, c) l = Some l'"
    and cfg: "config l = Some (cid, f)" "le_filter e f m" and slot: "hm_get (spans l) i = Some \<lparr>slot_meta = m, slot_data = None\<rparr>"
  shows "idle l' \<and> config l' = config l \<and>
    hm_get (spans l') i = Some \<lparr>slot_meta = m, slot_data = Some (labelled (le_f64 e) m fs)\<rparr>"
  using run cfg slot idle unfolding layer_op_def prod.case layer_op.case on_new_span_def
  by (auto simp: config_def is_active_def is_enabled_def with_env_filter_def Let_def idle_def elim!: with_guard_idle [OF idle] split: if_splits)

lemma enter_stamps:
  assumes idle: "idle l" and run: "layer_op e (Op_Enter i, c) l = Some l'"
    and cfg: "config l = Some (cid, f)" and slot: "hm_get (spans l) i = Some \<lparr>slot_meta = m, slot_data = Some d\<rparr>"
  shows "idle l' \<and> config l' = config l \<and>
    hm_get (spans l') i = Some \<lparr>slot_meta = m, slot_data = Some (d\<lparr>sd_start_timestamp := get_timestamp (call_clock c cid)\<rparr>)\<rparr>"
  using run cfg slot idle unfolding layer_op_def prod.case layer_op.case on_enter_def
  by (auto simp: config_def is_active_def clock_id_def idle_def elim!: with_guard_idle [OF idle] split: if_splits)

text \<open>The event of a span: from the start stamp to the clock at the exit, on the calling thread.\<close>

definition span_event :: "meta \<Rightarrow> u64 \<Rightarrow> SpanData \<Rightarrow> u64 \<Rightarrow> i32 \<Rightarrow> i32 \<Rightarrow> Event" where
  "span_event m i d t tid pid = Event_Span \<lparr>span_name = meta_name m, span_id = i, start_timestamp = sd_start_timestamp d,
    end_timestamp = t, span_track_id = TrackId_Thread tid pid, span_labels = sd_labels d\<rparr>"

definition handle_submit ::
  "('f, 's) layer_env \<Rightarrow> call \<Rightarrow> Event \<Rightarrow> 's AgentHandle \<Rightarrow> 's AgentHandle" where
  "handle_submit e c ev h =
    snd (AgentHandle_submit (le_submit e) (call_thread c) (call_thread_name c) (call_gettid c) (call_pid c) ev h)"

lemma exit_submits:
  assumes idle: "idle l" and ext: "extension l = Some st"
    and slot: "hm_get (spans l) i = Some \<lparr>slot_meta = m, slot_data = Some d\<rparr>"
  shows "\<exists>l'. layer_op e (Op_Exit i, c) l = Some l' \<and>
    extension l' = Some (st\<lparr>ts_handle := handle_submit e c
      (span_event m i d (get_timestamp (call_clock c (ts_clock_id st))) (fst (get_thread_id c l)) (call_pid c)) (ts_handle st)\<rparr>)"
proof -
  have "fst (get_thread_id c (l\<lparr>in_tracing := x\<rparr>)) = fst (get_thread_id c l)" for x
    by (simp add: get_thread_id_def split: option.splits)
  then show ?thesis
    using assms by (auto simp: layer_op_def on_exit_def with_guard_def idle_def is_active_def clock_id_def Let_def case_prod_beta
        submit_event_def TracingExtension_submit_def handle_submit_def span_event_def split: prod.splits)
qed

text \<open>
  C22: A span is reported once with its own times: when it was created while the layer was active and
  its level enabled, then entered, and in between and until its exit any other callbacks ran on any
  threads, leaving the span itself, and the session, alone, the exit submits exactly one span event,
  with the name, the id, the labels recorded at its creation and the target, the clock of the session
  read at the entry and at the exit, and the thread of the exit.
\<close>

theorem span_reported:
  assumes idle: "idle l" and cfg: "config l = Some (cid, f)" "le_filter e f m"
    and slot: "hm_get (spans l) i = Some \<lparr>slot_meta = m, slot_data = None\<rparr>"
    and other: "\<forall>(op, c)\<in>set (ops1 @ ops2). \<not> touches i op"
    and run: "layer_run e ((Op_New m fs i, c0) # ops1 @ (Op_Enter i, c1) # ops2) l = Some l2"
  shows "\<exists>st l3. extension l2 = Some st \<and> layer_op e (Op_Exit i, c2) l2 = Some l3 \<and>
    extension l3 = Some (st\<lparr>ts_handle := handle_submit e c2
      (span_event m i ((labelled (le_f64 e) m fs)\<lparr>sd_start_timestamp := get_timestamp (call_clock c1 cid)\<rparr>)
        (get_timestamp (call_clock c2 cid)) (fst (get_thread_id c2 l2)) (call_pid c2)) (ts_handle st)\<rparr>)"
proof -
  obtain la lb lc where la: "layer_op e (Op_New m fs i, c0) l = Some la" and lb: "layer_run e ops1 la = Some lb"
    and lc: "layer_op e (Op_Enter i, c1) lb = Some lc" and l2: "layer_run e ops2 lc = Some l2"
    using run by (auto simp: bind_eq_Some_conv)
  note a = new_span_attaches [OF idle la cfg slot]
  have b: "idle lb \<and> config lb = config la \<and> hm_get (spans lb) i = hm_get (spans la) i"
    using a other by (intro layer_run_other [OF _ lb]) auto
  have "idle lc \<and> config lc = config lb \<and> hm_get (spans lc) i = Some \<lparr>slot_meta = m,
      slot_data = Some ((labelled (le_f64 e) m fs)\<lparr>sd_start_timestamp := get_timestamp (call_clock c1 cid)\<rparr>)\<rparr>"
    using a b cfg(1) by (intro enter_stamps [OF _ lc]) auto
  moreover from this have "idle l2 \<and> config l2 = config lc \<and> hm_get (spans l2) i = hm_get (spans lc) i"
    using other by (intro layer_run_other [OF _ l2]) auto
  ultimately have l2': "idle l2" "config l2 = Some (cid, f)"
      "hm_get (spans l2) i = Some \<lparr>slot_meta = m,
        slot_data = Some ((labelled (le_f64 e) m fs)\<lparr>sd_start_timestamp := get_timestamp (call_clock c1 cid)\<rparr>)\<rparr>"
    using a b cfg(1) by simp_all
  then obtain st where st: "extension l2 = Some st" "ts_clock_id st = cid" by (auto simp: config_def)
  from exit_submits [OF l2'(1) st(1) l2'(3), of e c2] st show ?thesis by auto
qed

text \<open>
  A span entered while no session runs is reported with start time 0: a span created during a
  session, entered after the session was stopped and left during the next one is submitted to the new
  session as a span that began at time 0, since the entry did not stamp it.
\<close>

theorem span_entered_while_stopped:
  assumes idle: "idle l" and cfg: "config l = Some (cid, f)" "le_filter e f m"
    and slot: "hm_get (spans l) i = Some \<lparr>slot_meta = m, slot_data = None\<rparr>"
    and valid: "le_try_new e (log_filter args) = Ok f'"
  shows "\<exists>l4 cid' tid. layer_run e [(Op_New m fs i, c0), (Op_Stop, c1), (Op_Enter i, c2), (Op_Start args h, c3), (Op_Exit i, c4)] l = Some l4 \<and>
    extension l4 = Some \<lparr>ts_clock_id = cid', ts_env_filter = f', ts_handle = handle_submit e c4
      (span_event m i (labelled (le_f64 e) m fs) (get_timestamp (call_clock c4 cid')) tid (call_pid c4)) h\<rparr> \<and>
    sd_start_timestamp (labelled (le_f64 e) m fs) = 0"
proof -
  have zero: "sd_start_timestamp (fold (record_field g) xs d) = sd_start_timestamp d" for g xs d
    by (induction xs arbitrary: d) (auto simp: record_field_def Let_def)
  obtain st where st: "extension l = Some st" "ts_env_filter st = f" using cfg(1) by (auto simp: config_def)
  obtain la where la: "layer_op e (Op_New m fs i, c0) l = Some la"
    using idle cfg slot st by (auto simp: layer_op_def on_new_span_def with_guard_def idle_def Let_def is_active_def is_enabled_def with_env_filter_def)
  note a = new_span_attaches [OF idle la cfg slot]
  define lb where "lb = la\<lparr>extension := None\<rparr>"
  have enter: "layer_op e (Op_Enter i, c2) lb = Some lb"
    using a by (simp add: layer_op_def on_enter_def with_guard_def idle_def lb_def is_active_def fun_upd_idem)
  define cid' where "cid' = (case timestamp_type args of Monotonic \<Rightarrow> CLOCK_MONOTONIC | Boottime \<Rightarrow> CLOCK_BOOTTIME | Realtime \<Rightarrow> CLOCK_REALTIME)"
  define lc where "lc = lb\<lparr>extension := Some \<lparr>ts_clock_id = cid', ts_env_filter = f', ts_handle = h\<rparr>\<rparr>"
  have "idle lc" "hm_get (spans lc) i = Some \<lparr>slot_meta = m, slot_data = Some (labelled (le_f64 e) m fs)\<rparr>"
      "extension lc = Some \<lparr>ts_clock_id = cid', ts_env_filter = f', ts_handle = h\<rparr>"
    using a by (simp_all add: lc_def lb_def idle_def)
  from exit_submits [OF this(1,3,2), of e c4] obtain l4 where
    l4: "layer_op e (Op_Exit i, c4) lc = Some l4" "extension l4 = Some \<lparr>ts_clock_id = cid', ts_env_filter = f', ts_handle = handle_submit e c4
      (span_event m i (labelled (le_f64 e) m fs) (get_timestamp (call_clock c4 cid')) (fst (get_thread_id c4 lc)) (call_pid c4)) h\<rparr>"
    by auto
  have "layer_op e (Op_Stop, c1) la = Some lb" "layer_op e (Op_Start args h, c3) lb = Some lc"
    by (simp_all add: layer_op_def TracingExtension_stop_def TracingExtension_start_def valid lb_def lc_def cid'_def Let_def)
  with la enter l4 show ?thesis by (auto simp: labelled_def Let_def zero)
qed

definition example_call :: "i64 \<Rightarrow> call" where
  "example_call t = \<lparr>call_thread = 0, call_thread_name = None, call_gettid = 7, call_pid = 3, call_clock = \<lambda>_. (0, t)\<rparr>"

definition example_meta :: meta where
  "example_meta = \<lparr>meta_name = ''work'', meta_target = ''app''\<rparr>"

definition example_env :: "(unit, Event list) layer_env" where
  "example_env = \<lparr>le_filter = \<lambda>_ _. True, le_f64 = \<lambda>x. x, le_submit = \<lambda>ev c. (Ok (), c @ [ev]), le_try_new = \<lambda>_. Ok ()\<rparr>"

definition example_layer :: "(unit, Event list) layer" where
  "example_layer = ManytraceLayer_new (Some \<lparr>ts_clock_id = CLOCK_MONOTONIC, ts_env_filter = (), ts_handle = AgentHandle_new []\<rparr>)
    [(5, \<lparr>slot_meta = example_meta, slot_data = None\<rparr>)]"

lemma example_layer_ok:
  "idle example_layer" "config example_layer = Some (CLOCK_MONOTONIC, ())" "le_filter example_env () example_meta"
  "hm_get (spans example_layer) 5 = Some \<lparr>slot_meta = example_meta, slot_data = None\<rparr>"
  by (simp_all add: example_layer_def ManytraceLayer_new_def idle_def config_def example_env_def hm_get_def)

lemma example_clock [simp]: "call_clock (example_call t) c = (0, t)"
  by (simp add: example_call_def)

lemma handle_submit_example:
  "chan (handle_submit example_env (example_call t) ev h) = chan h @ [ev]"
  by (simp add: handle_submit_def example_env_def example_call_def AgentHandle_submit_def Let_def on_field_def try_bind_def)

theorem span_reported_witness:
  "\<exists>l2 l3 st. layer_run example_env [(Op_New example_meta [] 5, example_call 1), (Op_Enter 5, example_call 2)] example_layer = Some l2 \<and>
    layer_op example_env (Op_Exit 5, example_call 9) l2 = Some l3 \<and> extension l3 = Some st \<and>
    (\<exists>sp. chan (ts_handle st) = [Event_Span sp] \<and> start_timestamp sp = 2 \<and> end_timestamp sp = 9)"
proof -
  let ?ops = "(Op_New example_meta [] 5, example_call 1) # [] @ (Op_Enter 5, example_call 2) # []"
  obtain l2 where l2: "layer_run example_env ?ops example_layer = Some l2" "map_option (chan \<circ> ts_handle) (extension l2) = Some []"
    by (auto simp: layer_op_def on_new_span_def on_enter_def with_guard_def example_layer_def ManytraceLayer_new_def is_active_def
        is_enabled_def with_env_filter_def example_env_def example_call_def Let_def hm_get_def AgentHandle_new_def)
  have "\<forall>(op, c)\<in>set ([] @ []). \<not> touches 5 (op :: Event list layer_op)" by simp
  from span_reported [OF example_layer_ok this l2(1), of "example_call 9"] obtain st l3 where
    "extension l2 = Some st" "layer_op example_env (Op_Exit 5, example_call 9) l2 = Some l3"
    "extension l3 = Some (st\<lparr>ts_handle := handle_submit example_env (example_call 9)
      (span_event example_meta 5 ((labelled (le_f64 example_env) example_meta [])\<lparr>sd_start_timestamp :=
          get_timestamp (call_clock (example_call 2) CLOCK_MONOTONIC)\<rparr>)
        (get_timestamp (call_clock (example_call 9) CLOCK_MONOTONIC)) (fst (get_thread_id (example_call 9) l2))
        (call_pid (example_call 9))) (ts_handle st)\<rparr>)"
    by blast
  with l2 show ?thesis
    by (auto simp: handle_submit_example span_event_def get_timestamp_def)
qed

theorem span_entered_while_stopped_witness:
  "\<exists>l4 st sp. layer_run example_env [(Op_New example_meta [] 5, example_call 1), (Op_Stop, example_call 2), (Op_Enter 5, example_call 3),
      (Op_Start \<lparr>log_filter = ''info'', timestamp_type = Monotonic\<rparr> (AgentHandle_new []), example_call 4), (Op_Exit 5, example_call 9)]
      example_layer = Some l4 \<and> extension l4 = Some st \<and> chan (ts_handle st) = [Event_Span sp] \<and> start_timestamp sp = 0"
proof -
  have "le_try_new example_env (log_filter \<lparr>log_filter = ''info'', timestamp_type = Monotonic\<rparr>) = Ok ()" by (simp add: example_env_def)
  from span_entered_while_stopped [OF example_layer_ok this, of "[]" "example_call 1" "example_call 2" "example_call 3"
      "AgentHandle_new []" "example_call 4" "example_call 9"]
  show ?thesis by (fastforce simp: handle_submit_example span_event_def AgentHandle_new_def)
qed

section \<open>Labels\<close>

definition labels_wf :: "Labels \<Rightarrow> bool" where
  "labels_wf l \<longleftrightarrow> distinct (map fst (strings l)) \<and> distinct (map fst (ints l)) \<and> distinct (map fst (bools l)) \<and> distinct (map fst (floats l))"

definition has_label :: "(u64 \<Rightarrow> f64) \<Rightarrow> Labels \<Rightarrow> string \<times> field_value \<Rightarrow> bool" where
  "has_label u64_to_f64 l = (\<lambda>(n, v). case v of
      Field_i64 x \<Rightarrow> hm_get (ints l) n = Some x
    | Field_u64 x \<Rightarrow> if uint x < 2 ^ 63 then (\<exists>y. hm_get (ints l) n = Some y \<and> sint y = uint x) else hm_get (floats l) n = Some (u64_to_f64 x)
    | Field_f64 x \<Rightarrow> hm_get (floats l) n = Some x
    | Field_bool x \<Rightarrow> hm_get (bools l) n = Some x
    | Field_str x \<Rightarrow> hm_get (strings l) n = Some x
    | Field_debug x \<Rightarrow> hm_get (strings l) n = Some x)"

lemma record_field_wf: "labels_wf (sd_labels d) \<Longrightarrow> labels_wf (sd_labels (record_field g x d))"
  by (auto simp: record_field_def labels_wf_def hm_insert_distinct Let_def split: field_value.splits prod.splits)

lemma record_fields_wf: "labels_wf (sd_labels d) \<Longrightarrow> labels_wf (sd_labels (fold (record_field g) fs d))"
  by (induction fs arbitrary: d) (simp_all add: record_field_wf)

lemma sint_small_u64: "(x :: u64) \<le> 0x7fffffffffffffff \<Longrightarrow> uint x < 2 ^ 63 \<and> sint x = uint x"
proof -
  assume "x \<le> 0x7fffffffffffffff"
  then have "uint x < 2 ^ 63" by (simp add: word_le_def)
  then show ?thesis using uint_ge_0 [of x] by (simp add: sint_uint signed_take_bit_int_eq_self_iff order_trans [OF _ uint_ge_0])
qed

lemma big_u64: "\<not> (x :: u64) \<le> 0x7fffffffffffffff \<Longrightarrow> \<not> uint x < 2 ^ 63"
  by (simp add: word_le_def)

lemma record_field_has: "has_label g (sd_labels (record_field g x d)) x"
  using sint_small_u64 big_u64
  by (auto simp: has_label_def record_field_def Let_def split: field_value.splits prod.splits)

lemma record_field_keeps: "n \<noteq> fst x \<Longrightarrow> has_label g (sd_labels d) (n, v) \<Longrightarrow> has_label g (sd_labels (record_field g x d)) (n, v)"
  by (cases x; cases "snd x") (auto simp: has_label_def record_field_def Let_def split: field_value.splits if_splits)

lemma record_fields_keep:
  "n \<notin> fst ` set fs \<Longrightarrow> has_label g (sd_labels d) (n, v) \<Longrightarrow> has_label g (sd_labels (fold (record_field g) fs d)) (n, v)"
  by (induction fs arbitrary: d) (auto simp: record_field_keeps)

lemma record_fields_have:
  "distinct (map fst fs) \<Longrightarrow> x \<in> set fs \<Longrightarrow> has_label g (sd_labels (fold (record_field g) fs d)) x"
proof (induction fs arbitrary: d)
  case (Cons y fs)
  show ?case
  proof (cases "x = y")
    case True
    then show ?thesis
      using Cons.prems(1) record_fields_keep [of "fst x" fs g _ "snd x"] record_field_has [of g x d] by simp
  next
    case False
    then show ?thesis using Cons by simp
  qed
qed simp

text \<open>
  C23: The labels of a span or event are well typed: every table has at most one value per name, the
  target is the one of the metadata, and every field is found under its name with its value in the
  table of its type, where an unsigned integer is kept as the equal signed one if it is below \<open>2 ^ 63\<close>
  and as a floating point number otherwise.  Only a field called \<open>target\<close> is replaced.
\<close>

theorem labels_typed:
  "labels_wf (sd_labels (labelled g m fs)) \<and>
   hm_get (strings (sd_labels (labelled g m fs))) ''target'' = Some (meta_target m) \<and>
   (distinct (map fst fs) \<longrightarrow> (\<forall>x\<in>set fs. fst x \<noteq> ''target'' \<longrightarrow> has_label g (sd_labels (labelled g m fs)) x))"
proof -
  let ?d = "fold (record_field g) fs \<lparr>sd_labels = Labels_new, sd_start_timestamp = 0\<rparr>"
  have l: "sd_labels (labelled g m fs) = (sd_labels ?d)\<lparr>strings := hm_insert ''target'' (meta_target m) (strings (sd_labels ?d))\<rparr>"
    by (simp add: labelled_def Let_def)
  have "labels_wf (sd_labels ?d)" by (rule record_fields_wf) (simp add: labels_wf_def Labels_new_def)
  moreover have "has_label g (sd_labels (labelled g m fs)) x" if "has_label g (sd_labels ?d) x" "fst x \<noteq> ''target''" for x
    using that unfolding l by (cases x; cases "snd x") (auto simp: has_label_def)
  ultimately show ?thesis
    using record_fields_have [of fs] unfolding l by (auto simp: labels_wf_def hm_insert_distinct)
qed

theorem labels_typed_witness:
  "has_label (\<lambda>x. x) (sd_labels (labelled (\<lambda>x. x) example_meta [(''n'', Field_u64 7), (''ok'', Field_bool True)])) (''n'', Field_u64 7)"
  using labels_typed [of "\<lambda>x. x" example_meta "[(''n'', Field_u64 7), (''ok'', Field_bool True)]"] by simp

end
