(* ===== verification/BpfCommon.thy ===== *)
theory BpfCommon
  imports Stateful Protocol
begin

text \<open>
  What the BPF modules share (bpf/src/lib.rs and bpf/src/perf_event.rs): the error type, the loading of
  a program through libbpf, and perf events.

  The libbpf library is the argument \<open>libbpf\<close> over a world of its own.  The record that a BPF program
  writes and its user space half reads is one record of the model.  A callback takes a message and
  returns the status the ring buffer acts on; the code of a module that calls it is written in the
  state-exception monad with the non-zero statuses as errors, \<open>emit\<close> being the call.
\<close>

section \<open>Definitions\<close>

datatype BpfError = LoadError string | AttachError string | MapError string

definition get_monotonic_timestamp :: "i64 \<times> i64 \<Rightarrow> u64" where
  "get_monotonic_timestamp ts = fst ts * 1000000000 + snd ts"

definition map_err :: "('e \<Rightarrow> 'e') \<Rightarrow> ('s, 'e, 'a) stm \<Rightarrow> ('s, 'e', 'a) stm" where
  "map_err f m s = (case m s of (Inl e, s') \<Rightarrow> (Err (f e), s') | (Inr a, s') \<Rightarrow> (Ok a, s'))"

type_synonym ('w, 'a) sys = "('w, string, 'a) stm"

record perf_event_attr =
  pe_type :: u32
  pe_config :: u64
  pe_sample_type :: u64
  pe_freq :: bool
  pe_sample :: u64

record 'w libbpf =
  lb_open :: "('w, unit) sys"
  lb_set_max_entries :: "string \<Rightarrow> u32 \<Rightarrow> ('w, unit) sys"
  lb_rodata :: "string \<Rightarrow> u64 \<Rightarrow> 'w \<Rightarrow> 'w"
  lb_load :: "('w, unit) sys"
  lb_update :: "string \<Rightarrow> u32 \<Rightarrow> u32 \<Rightarrow> ('w, unit) sys"
  lb_attach :: "('w, unit) sys"
  lb_ring_add :: "('w, unit) sys"
  lb_ring_build :: "('w, unit) sys"
  lb_num_possible_cpus :: usize
  lb_perf_event_open :: "perf_event_attr \<Rightarrow> i32 \<Rightarrow> i32 \<Rightarrow> i32 \<Rightarrow> u32 \<Rightarrow> 'w \<Rightarrow> i64 \<times> 'w"
  lb_last_os_error :: "'w \<Rightarrow> string"
  lb_attach_perf_event :: "i32 \<Rightarrow> ('w, unit) sys"

definition PERF_TYPE_SOFTWARE :: u32 where "PERF_TYPE_SOFTWARE = 1"
definition PERF_COUNT_SW_CPU_CLOCK :: u32 where "PERF_COUNT_SW_CPU_CLOCK = 0"
definition PERF_SAMPLE_RAW :: u64 where "PERF_SAMPLE_RAW = 1024"

definition perf_event_open ::
  "'w libbpf \<Rightarrow> u32 \<Rightarrow> u32 \<Rightarrow> u64 \<Rightarrow> u64 option \<Rightarrow> i32 \<Rightarrow> i32 \<Rightarrow> u32 \<Rightarrow> ('w, i32) sys" where
  "perf_event_open lb ty cfg period frequency pid cpu flags w =
    (let attr = \<lparr>pe_type = ty, pe_config = ucast cfg, pe_sample_type = PERF_SAMPLE_RAW,
       pe_freq = (frequency \<noteq> None), pe_sample = (case frequency of Some f \<Rightarrow> f | None \<Rightarrow> period)\<rparr> in
     case lb_perf_event_open lb attr pid cpu (- 1) flags w of
       (rst, w1) \<Rightarrow> if 0 \<le>s rst then (Ok (ucast rst), w1) else (Err (lb_last_os_error lb w1), w1))"

text \<open>Collecting the results of an iterator, up to the first error.\<close>

primrec collect :: "('x \<Rightarrow> ('s, 'e, 'a) stm) \<Rightarrow> 'x list \<Rightarrow> ('s, 'e, 'a list) stm" where
  "collect f [] = ret []"
| "collect f (x # xs) = try_bind (f x) (\<lambda>a. try_bind (collect f xs) (\<lambda>as. ret (a # as)))"

definition perf_event_per_cpu :: "'w libbpf \<Rightarrow> u32 \<Rightarrow> u32 \<Rightarrow> u64 \<Rightarrow> ('w, i32 list) sys" where
  "perf_event_per_cpu lb ty cfg freq =
    collect (\<lambda>cpu. perf_event_open lb ty cfg 0 (Some freq) (- 1) (word_of_nat cpu) 0) [0..<unat (lb_num_possible_cpus lb)]"

definition attach_perf_event :: "'w libbpf \<Rightarrow> i32 list \<Rightarrow> ('w, unit list) sys" where
  "attach_perf_event lb = collect (lb_attach_perf_event lb)"

text \<open>The steps that open a BPF object, and those that follow its configuration.\<close>

definition open_skel :: "'w libbpf \<Rightarrow> ('w, BpfError, unit) stm" where
  "open_skel lb = map_err (\<lambda>e. LoadError (''failed to open bpf skeleton: '' @ e)) (lb_open lb)"

definition set_ring_size :: "'w libbpf \<Rightarrow> usize \<Rightarrow> ('w, BpfError, unit) stm" where
  "set_ring_size lb ringbuf =
    map_err (\<lambda>e. LoadError (''failed to set ring buffer size: '' @ e)) (lb_set_max_entries lb ''events'' (ucast ringbuf))"

definition load_skel :: "'w libbpf \<Rightarrow> ('w, BpfError, unit) stm" where
  "load_skel lb = map_err (\<lambda>e. LoadError (''failed to load bpf program: '' @ e)) (lb_load lb)"

definition update_filters :: "'w libbpf \<Rightarrow> string \<Rightarrow> i32 list \<Rightarrow> ('w, BpfError, unit) stm" where
  "update_filters lb m = try_each (\<lambda>pid. map_err (\<lambda>e. MapError (''failed to update filter map: '' @ e)) (lb_update lb m pid 1))"

definition attach_skel :: "'w libbpf \<Rightarrow> ('w, BpfError, unit) stm" where
  "attach_skel lb = map_err (\<lambda>e. AttachError (''failed to attach bpf programs: '' @ e)) (lb_attach lb)"

definition add_ring :: "'w libbpf \<Rightarrow> ('w, BpfError, unit) stm" where
  "add_ring lb =
    try_bind (map_err (\<lambda>e. MapError (''failed to add ring buffer: '' @ e)) (lb_ring_add lb)) (\<lambda>_.
    map_err (\<lambda>e. MapError (''failed to build ring buffer: '' @ e)) (lb_ring_build lb))"

text \<open>The callback, over the state of its environment.\<close>

type_synonym 'c callback = "Message \<Rightarrow> 'c \<Rightarrow> i32 \<times> 'c"

definition emit :: "'c callback \<Rightarrow> Message \<Rightarrow> ('c, i32, unit) stm" where
  "emit callback msg c = (case callback msg c of (r, c') \<Rightarrow> (if r \<noteq> 0 then Err r else Ok (), c'))"

text \<open>The status that a handler returns to the ring buffer.\<close>

definition status :: "(i32, unit) result \<times> 's \<Rightarrow> i32 \<times> 's" where
  "status = (\<lambda>(r, s). (case r of Inl e \<Rightarrow> e | Inr _ \<Rightarrow> 0, s))"

text \<open>Formatting a number in decimal.\<close>

fun dec_nat :: "nat \<Rightarrow> string" where
  "dec_nat n = (if n < 10 then [char_of (48 + n)] else dec_nat (n div 10) @ [char_of (48 + n mod 10)])"

declare dec_nat.simps [simp del]

definition dec_i32 :: "i32 \<Rightarrow> string" where
  "dec_i32 x = (if 0 \<le>s x then dec_nat (unat x) else ''-'' @ dec_nat (unat (- x)))"

text \<open>\<open>{:x}\<close> of a number.\<close>

definition hex_digit :: "nat \<Rightarrow> char" where
  "hex_digit n = (if n < 10 then char_of (48 + n) else char_of (87 + n))"

fun hex_nat :: "nat \<Rightarrow> string" where
  "hex_nat n = (if n < 16 then [hex_digit n] else hex_nat (n div 16) @ [hex_digit (n mod 16)])"

declare hex_nat.simps [simp del]

text \<open>Joining strings with a separator.\<close>

definition join :: "string \<Rightarrow> string list \<Rightarrow> string" where
  "join sep xs = (case xs of [] \<Rightarrow> [] | y # ys \<Rightarrow> fold (\<lambda>z acc. acc @ sep @ z) ys y)"

text \<open>A loop whose body ends it with \<open>break\<close>.\<close>

definition until_break :: "('s, 'e, unit) stm \<Rightarrow> ('s, 'f, unit) stm" where
  "until_break m u = (Ok (), snd (m u))"

section \<open>Recording callbacks\<close>

text \<open>
  Callbacks that keep the messages they are given: one that returns statuses of any kind, and one that
  accepts every message, as the callback of the tracing tool does.
\<close>

definition logging :: "(Message \<Rightarrow> Message list \<Rightarrow> i32) \<Rightarrow> Message list callback" where
  "logging f msg sent = (f msg sent, sent @ [msg])"

definition recording :: "Message list callback" where
  "recording msg sent = (0, sent @ [msg])"

lemma emit_recording [simp]: "emit recording msg sent = (Ok (), sent @ [msg])"
  by (simp add: emit_def recording_def)

lemma try_each_recording:
  "(\<And>x sent. x \<in> set xs \<Longrightarrow> f x sent = (Ok (), sent @ g x)) \<Longrightarrow> try_each f xs sent = (Ok (), sent @ concat (map g xs))"
  by (induction xs arbitrary: sent) (simp_all add: try_bind_def)

lemma try_each_keeps:
  "(\<And>x u. x \<in> set xs \<Longrightarrow> P u \<Longrightarrow> fst (f x u) = Ok () \<and> P (snd (f x u))) \<Longrightarrow> P u \<Longrightarrow> fst (try_each f xs u) = Ok () \<and> P (snd (try_each f xs u))"
proof (induction xs arbitrary: u)
  case (Cons x xs)
  obtain r u1 where r: "f x u = (r, u1)" by fastforce
  then have "r = Ok () \<and> P u1" using Cons.prems(1) [of x u] Cons.prems(2) by simp
  then show ?case using Cons r by (simp add: try_bind_Ok)
qed simp

text \<open>Every counter comes after a message that declares its track.\<close>

definition counters_declared :: "Message list \<Rightarrow> bool" where
  "counters_declared sent \<longleftrightarrow> (\<forall>n<length sent. \<forall>c. sent ! n = Message_Event (Event_Counter c) \<longrightarrow>
    (\<exists>t. Message_Event (Event_Track t) \<in> set (take n sent) \<and> to_id (track_type t) = counter_track_id c))"

lemma counters_declared_Nil [simp]: "counters_declared []"
  by (simp add: counters_declared_def)

lemma counters_declared_snoc:
  "counters_declared (sent @ [msg]) \<longleftrightarrow> counters_declared sent \<and> (\<forall>c. msg = Message_Event (Event_Counter c) \<longrightarrow>
    (\<exists>t. Message_Event (Event_Track t) \<in> set sent \<and> to_id (track_type t) = counter_track_id c))"
  by (auto simp: counters_declared_def nth_append less_Suc_eq)

definition declared :: "TrackId \<Rightarrow> Message list \<Rightarrow> bool" where
  "declared i sent \<longleftrightarrow> (\<exists>t. Message_Event (Event_Track t) \<in> set sent \<and> to_id (track_type t) = i)"

lemma declared_snoc: "declared i (sent @ [msg]) \<longleftrightarrow> declared i sent \<or> (\<exists>t. msg = Message_Event (Event_Track t) \<and> to_id (track_type t) = i)"
  by (auto simp: declared_def)

lemma counters_declared_snoc':
  "counters_declared (sent @ [msg]) \<longleftrightarrow> counters_declared sent \<and>
    (\<forall>c. msg = Message_Event (Event_Counter c) \<longrightarrow> declared (counter_track_id c) sent)"
  by (simp add: counters_declared_snoc declared_def)

lemma counters_declared_snoc2:
  "counters_declared (sent @ [a, b]) \<longleftrightarrow> counters_declared sent \<and>
    (\<forall>c. a = Message_Event (Event_Counter c) \<longrightarrow> declared (counter_track_id c) sent) \<and>
    (\<forall>c. b = Message_Event (Event_Counter c) \<longrightarrow> declared (counter_track_id c) (sent @ [a]))"
  using counters_declared_snoc' [of "sent @ [a]" b] by (auto simp: counters_declared_snoc')

lemma declared_snoc2:
  "declared i (sent @ [a, b]) \<longleftrightarrow> declared i (sent @ [a]) \<or> (\<exists>t. b = Message_Event (Event_Track t) \<and> to_id (track_type t) = i)"
  using declared_snoc [of i "sent @ [a]" b] by simp

section \<open>Collecting\<close>

lemma map_err_Ok [simp]: "m s = (Ok a, s') \<Longrightarrow> map_err f m s = (Ok a, s')"
  by (simp add: map_err_def)

lemma map_err_Ok_iff: "map_err f m s = (Ok a, s') \<longleftrightarrow> m s = (Ok a, s')"
  by (auto simp: map_err_def split: prod.splits sum.splits)

lemma collect_Ok_length: "collect f xs s = (Ok as, s') \<Longrightarrow> length as = length xs"
  by (induction xs arbitrary: s as) (auto elim!: try_bind_OkE)

end
