(* ===== verification/Floats.thy ===== *)
theory Floats
  imports Complex_Main Prelude
begin

text \<open>
  The floating point operations of the program, on the bit patterns of \<open>f64\<close>: conversion of a \<open>u64\<close>,
  division and multiplication, rounded to the nearest number and to the even one in the middle.  The
  program uses them for shares, rates and averages, so the operands have no sign and are finite: the
  order of the numbers is then the order of the patterns, which the monotonicity results are about.
\<close>

section \<open>Definitions\<close>

function ilog2 :: "int \<Rightarrow> int" where
  "ilog2 x = (if x \<le> 1 then 0 else 1 + ilog2 (x div 2))"
  by auto
termination by (relation "measure nat") auto

declare ilog2.simps [simp del]

text \<open>The quotient of two integers, rounded to the nearest integer and to the even one in the middle.\<close>

definition round_half_even :: "int \<Rightarrow> int \<Rightarrow> int" where
  "round_half_even p q =
    (let w = p div q; r = p mod q in if 2 * r < q \<or> 2 * r = q \<and> even w then w else w + 1)"

text \<open>\<open>p / q\<close> divided by \<open>2 ^ e\<close>, as a numerator and a denominator.\<close>

definition shift_ratio :: "int \<Rightarrow> int \<Rightarrow> int \<Rightarrow> int \<times> int" where
  "shift_ratio e p q = (if 0 \<le> e then (p, q * 2 ^ nat e) else (p * 2 ^ nat (- e), q))"

text \<open>The exponent that leaves 53 significant bits, or the least one.\<close>

definition f64_exponent :: "int \<Rightarrow> int \<Rightarrow> int" where
  "f64_exponent p q =
    (let k = ilog2 p - ilog2 q; (a, b) = shift_ratio k p q in max (- 1074) ((if b \<le> a then k else k - 1) - 52))"

definition f64_infinity :: int where "f64_infinity = 0x7ff0000000000000"

definition f64_pattern :: "int \<Rightarrow> int \<Rightarrow> int" where
  "f64_pattern p q =
    (if p = 0 then 0
     else let e = f64_exponent p q; (a, b) = shift_ratio e p q in
       min f64_infinity ((e + 1074) * 2 ^ 52 + round_half_even a b))"

definition f64_of_ratio :: "int \<times> int \<Rightarrow> f64" where
  "f64_of_ratio = (\<lambda>(p, q). word_of_int (f64_pattern p q))"

definition f64_ratio :: "f64 \<Rightarrow> int \<times> int" where
  "f64_ratio x =
    (let e = uint x div 2 ^ 52; m = uint x mod 2 ^ 52 in
     if e = 0 then (m, 2 ^ 1074)
     else if 1075 \<le> e then ((2 ^ 52 + m) * 2 ^ nat (e - 1075), 1) else (2 ^ 52 + m, 2 ^ nat (1075 - e)))"

definition f64_of_u64 :: "u64 \<Rightarrow> f64" where
  "f64_of_u64 x = f64_of_ratio (uint x, 1)"

text \<open>Division by zero gives infinity, and zero divided by zero is not a number.\<close>

definition f64_div :: "f64 \<Rightarrow> f64 \<Rightarrow> f64" where
  "f64_div x y =
    (if y = 0 then (if x = 0 then 0x7ff8000000000000 else word_of_int f64_infinity)
     else case f64_ratio x of (a, b) \<Rightarrow> case f64_ratio y of (c, d) \<Rightarrow> f64_of_ratio (a * d, b * c))"

definition f64_mul :: "f64 \<Rightarrow> f64 \<Rightarrow> f64" where
  "f64_mul x y = (case f64_ratio x of (a, b) \<Rightarrow> case f64_ratio y of (c, d) \<Rightarrow> f64_of_ratio (a * c, b * d))"

section \<open>Rounding is monotone\<close>

definition val :: "int \<times> int \<Rightarrow> real" where
  "val = (\<lambda>(p, q). real_of_int p / real_of_int q)"

lemma ilog2_bounds: "1 \<le> x \<Longrightarrow> 0 \<le> ilog2 x \<and> 2 ^ nat (ilog2 x) \<le> x \<and> x < 2 ^ nat (ilog2 x + 1)"
proof (induction x rule: ilog2.induct)
  case (1 x)
  show ?case
  proof (cases "x \<le> 1")
    case True
    then show ?thesis using 1 by (simp add: ilog2.simps)
  next
    case False
    let ?k = "ilog2 (x div 2)"
    have ih: "0 \<le> ?k" "2 ^ nat ?k \<le> x div 2" "x div 2 < 2 ^ nat (?k + 1)" using 1 False by auto
    have e: "ilog2 x = ?k + 1" using False by (subst ilog2.simps) simp
    have "nat (?k + 1) = Suc (nat ?k)" "nat (?k + 1 + 1) = Suc (nat (?k + 1))" using ih(1) by simp_all
    moreover have "2 * (x div 2) \<le> x" "x < 2 * (x div 2) + 2" by simp_all
    ultimately show ?thesis using ih unfolding e by simp
  qed
qed

lemma val_shift: "0 < q \<Longrightarrow> val (shift_ratio e p q) = val (p, q) / 2 powi e"
  by (simp add: val_def shift_ratio_def power_int_def field_simps)

lemma shift_pos: "0 < q \<Longrightarrow> 0 < snd (shift_ratio e p q)"
  by (simp add: shift_ratio_def)

text \<open>Rounding is a function of the quotient that keeps the order.\<close>

definition rnd :: "real \<Rightarrow> int" where
  "rnd x = (if 2 * (x - \<lfloor>x\<rfloor>) < 1 \<or> 2 * (x - \<lfloor>x\<rfloor>) = 1 \<and> even \<lfloor>x\<rfloor> then \<lfloor>x\<rfloor> else \<lfloor>x\<rfloor> + 1)"

lemma round_half_even_val:
  assumes "0 < q"
  shows "round_half_even p q = rnd (val (p, q))"
proof -
  have p: "real_of_int p = of_int (p div q) * of_int q + of_int (p mod q)" by (metis div_mult_mod_eq of_int_add of_int_mult)
  have floor: "\<lfloor>val (p, q)\<rfloor> = p div q" using assms by (simp add: val_def floor_divide_of_int_eq)
  have frac: "val (p, q) - of_int (p div q) = of_int (p mod q) / of_int q"
    using assms by (subst val_def) (simp add: p field_simps)
  have "2 * (of_int (p mod q) / of_int q :: real) < 1 \<longleftrightarrow> 2 * (p mod q) < q" "2 * (of_int (p mod q) / of_int q :: real) = 1 \<longleftrightarrow> 2 * (p mod q) = q"
    using assms by (simp_all add: field_simps) linarith+
  then show ?thesis by (simp add: rnd_def round_half_even_def floor frac Let_def)
qed

lemma rnd_mono: "x \<le> y \<Longrightarrow> rnd x \<le> rnd y"
proof (cases "\<lfloor>x\<rfloor> = \<lfloor>y\<rfloor>")
  case True
  moreover assume "x \<le> y"
  ultimately show ?thesis by (auto simp: rnd_def)
next
  case False
  moreover assume "x \<le> y"
  ultimately have "\<lfloor>x\<rfloor> + 1 \<le> \<lfloor>y\<rfloor>" using floor_mono [of x y] by simp
  then show ?thesis by (auto simp: rnd_def)
qed

lemma rnd_int [simp]: "rnd (of_int k) = k"
  by (simp add: rnd_def)

text \<open>The pattern as a function of the quotient.\<close>

definition pat :: "int \<Rightarrow> real \<Rightarrow> int" where
  "pat e x = (e + 1074) * 2 ^ 52 + rnd (x / 2 powi e)"

definition exponent_of :: "int \<Rightarrow> real \<Rightarrow> bool" where
  "exponent_of e x \<longleftrightarrow> - 1074 \<le> e \<and> x < 2 powi (e + 53) \<and> (- 1074 < e \<longrightarrow> 2 powi (e + 52) \<le> x)"

lemma ilog2_powi:
  assumes "0 < p"
  shows "2 powi ilog2 p \<le> real_of_int p" "real_of_int p < 2 powi (ilog2 p + 1)"
proof -
  have le: "2 ^ nat (ilog2 p) \<le> p" and less: "p < 2 ^ nat (ilog2 p + 1)" and k: "0 \<le> ilog2 p" using ilog2_bounds [of p] assms by auto
  have "real_of_int (2 ^ nat (ilog2 p)) \<le> real_of_int p" using le by (simp only: of_int_le_iff)
  then show "2 powi ilog2 p \<le> real_of_int p" using k by (simp add: power_int_def)
  have "real_of_int p < real_of_int (2 ^ nat (ilog2 p + 1))" using less by (simp only: of_int_less_iff)
  then show "real_of_int p < 2 powi (ilog2 p + 1)" using k by (simp add: power_int_def)
qed

lemma f64_exponent_of:
  assumes "0 < p" "0 < q"
  shows "exponent_of (f64_exponent p q) (val (p, q))"
proof -
  define k where "k = ilog2 p - ilog2 q"
  let ?x = "val (p, q)"
  note p = ilog2_powi [OF assms(1)] and q = ilog2_powi [OF assms(2)]
  have pos: "0 < real_of_int q" using assms by simp
  have "2 powi (k - 1) * real_of_int q \<le> 2 powi (k - 1) * 2 powi (ilog2 q + 1)" using q by (intro mult_left_mono) simp_all
  also have "\<dots> = 2 powi ilog2 p" by (simp add: k_def flip: power_int_add)
  finally have lo: "2 powi (k - 1) \<le> ?x" using p(1) pos by (simp add: val_def field_simps)
  have "2 powi (ilog2 p + 1) = 2 powi (k + 1) * (2 powi ilog2 q :: real)" by (simp add: k_def flip: power_int_add)
  also have "\<dots> \<le> 2 powi (k + 1) * real_of_int q" using q by (intro mult_left_mono) simp_all
  finally have hi: "?x < 2 powi (k + 1)" using p(2) pos by (simp add: val_def field_simps)
  obtain a b where ab: "shift_ratio k p q = (a, b)" by fastforce
  then have b: "0 < b" and v: "val (a, b) = ?x / 2 powi k" using shift_pos [OF assms(2), of k p] val_shift [OF assms(2), of k p] by simp_all
  have "b \<le> a \<longleftrightarrow> 1 \<le> val (a, b)" using b by (simp add: val_def)
  also have "\<dots> \<longleftrightarrow> 2 powi k \<le> ?x" unfolding v by (simp add: pos_le_divide_eq)
  finally have test: "b \<le> a \<longleftrightarrow> 2 powi k \<le> ?x" .
  define j where "j = (if b \<le> a then k else k - 1)"
  have j: "2 powi j \<le> ?x" "?x < 2 powi (j + 1)" using lo hi test by (auto simp: j_def)
  have e: "f64_exponent p q = max (- 1074) (j - 52)" by (simp add: f64_exponent_def k_def [symmetric] ab j_def)
  have "?x < 2 powi (max (- 1074) (j - 52) + 53)" by (rule less_le_trans [OF j(2)]) (intro power_int_increasing, simp_all)
  then show ?thesis unfolding e using j(1) by (auto simp: exponent_of_def max_def)
qed

lemma pat_bounds:
  assumes "exponent_of e x" "0 \<le> x"
  shows "(e + 1074) * 2 ^ 52 \<le> pat e x" "pat e x \<le> (e + 1074) * 2 ^ 52 + 2 ^ 53" "- 1074 < e \<Longrightarrow> (e + 1074) * 2 ^ 52 + 2 ^ 52 \<le> pat e x"
proof -
  have "x \<le> 2 powi (e + 53)" using assms by (simp add: exponent_of_def)
  then have "x / 2 powi e \<le> of_int (2 ^ 53)" by (simp add: power_int_add field_simps)
  from rnd_mono [OF this] show "pat e x \<le> (e + 1074) * 2 ^ 52 + 2 ^ 53" unfolding pat_def rnd_int by linarith
  have "of_int 0 \<le> x / 2 powi e" using assms by simp
  from rnd_mono [OF this] show "(e + 1074) * 2 ^ 52 \<le> pat e x" unfolding pat_def rnd_int by linarith
  assume "- 1074 < e"
  then have "2 powi (e + 52) \<le> x" using assms by (simp add: exponent_of_def)
  then have "of_int (2 ^ 52) \<le> x / 2 powi e" by (simp add: power_int_add field_simps)
  from rnd_mono [OF this] show "(e + 1074) * 2 ^ 52 + 2 ^ 52 \<le> pat e x" unfolding pat_def rnd_int by linarith
qed

lemma pat_mono:
  assumes e: "exponent_of e x" and f: "exponent_of f y" and le: "0 \<le> x" "x \<le> y"
  shows "pat e x \<le> pat f y"
proof (cases e f rule: linorder_cases)
  case less
  then have f': "- 1074 < f" using e by (simp add: exponent_of_def)
  have "pat e x \<le> (e + 1 + 1074) * 2 ^ 52 + 2 ^ 52" using pat_bounds(2) [OF e le(1)] by simp
  also have "\<dots> \<le> (f + 1074) * 2 ^ 52 + 2 ^ 52" using less by simp
  also have "\<dots> \<le> pat f y" using pat_bounds(3) [OF f _ f'] le by simp
  finally show ?thesis .
next
  case equal
  have "x / 2 powi f \<le> y / 2 powi f" using le by (intro divide_right_mono) simp_all
  from rnd_mono [OF this] show ?thesis by (simp add: pat_def equal)
next
  case greater
  then have "2 powi (f + 53) \<le> (2 powi (e + 52) :: real)" by (intro power_int_increasing) simp_all
  then show ?thesis using e f greater le by (auto simp: exponent_of_def)
qed

lemma f64_pattern_val:
  assumes "0 \<le> p" "0 < q"
  shows "f64_pattern p q = (if p = 0 then 0 else min f64_infinity (pat (f64_exponent p q) (val (p, q))))"
proof -
  obtain a b where "shift_ratio (f64_exponent p q) p q = (a, b)" by fastforce
  moreover from this have "0 < b" "val (a, b) = val (p, q) / 2 powi f64_exponent p q"
    using shift_pos [OF assms(2), of "f64_exponent p q" p] val_shift [OF assms(2), of "f64_exponent p q" p] by simp_all
  ultimately show ?thesis by (simp add: f64_pattern_def pat_def round_half_even_val Let_def)
qed

lemma val_nonneg: "0 \<le> p \<Longrightarrow> 0 < q \<Longrightarrow> 0 \<le> val (p, q)"
  by (simp add: val_def)

lemma f64_pattern_mono:
  assumes "0 \<le> p" "0 < q" "0 \<le> r" "0 < s" "val (p, q) \<le> val (r, s)"
  shows "f64_pattern p q \<le> f64_pattern r s"
proof -
  have inf: "0 \<le> f64_infinity" by (simp add: f64_infinity_def)
  show ?thesis
  proof (cases "p = 0")
    case True
    have "0 \<le> pat (f64_exponent r s) (val (r, s))" if "r \<noteq> 0"
    proof -
      have "exponent_of (f64_exponent r s) (val (r, s))" using f64_exponent_of assms that by simp
      moreover from this have "0 \<le> (f64_exponent r s + 1074) * 2 ^ 52" by (simp add: exponent_of_def)
      ultimately show ?thesis using pat_bounds(1) val_nonneg assms(3,4) order_trans by blast
    qed
    then show ?thesis using True inf assms by (simp add: f64_pattern_val)
  next
    case False
    then have "0 < val (p, q)" using assms by (simp add: val_def)
    then have "0 < val (r, s)" using assms(5) by (rule less_le_trans)
    then have "0 < r" using assms(4) by (simp add: val_def zero_less_divide_iff)
    then have "pat (f64_exponent p q) (val (p, q)) \<le> pat (f64_exponent r s) (val (r, s))"
      using False assms by (intro pat_mono f64_exponent_of val_nonneg) simp_all
    then show ?thesis using False \<open>0 < r\<close> assms by (simp add: f64_pattern_val) 
  qed
qed

section \<open>The operations\<close>

lemma f64_pattern_range:
  assumes "0 \<le> p" "0 < q"
  shows "0 \<le> f64_pattern p q" "f64_pattern p q \<le> f64_infinity"
  using f64_pattern_mono [of 0 1 p q] assms val_nonneg [OF assms] f64_pattern_val [OF assms]
  by (auto simp: val_def f64_pattern_def f64_infinity_def)

lemma uint_f64_of_ratio:
  assumes "0 \<le> p" "0 < q"
  shows "uint (f64_of_ratio (p, q)) = f64_pattern p q"
proof -
  have "f64_pattern p q < 2 ^ 64" using f64_pattern_range [OF assms] by (simp add: f64_infinity_def)
  then show ?thesis using f64_pattern_range [OF assms] by (simp add: f64_of_ratio_def uint_word_of_int)
qed

lemma f64_of_ratio_mono:
  "0 \<le> p \<Longrightarrow> 0 < q \<Longrightarrow> 0 \<le> r \<Longrightarrow> 0 < s \<Longrightarrow> val (p, q) \<le> val (r, s) \<Longrightarrow> f64_of_ratio (p, q) \<le> f64_of_ratio (r, s)"
  by (simp add: word_le_def uint_f64_of_ratio f64_pattern_mono)

lemma f64_of_u64_mono: "a \<le> b \<Longrightarrow> f64_of_u64 a \<le> f64_of_u64 b"
  unfolding f64_of_u64_def
  by (intro f64_of_ratio_mono) (simp_all only: val_def prod.case of_int_1 div_by_1 of_int_le_iff word_le_def uint_ge_0 zero_less_one)

definition f64_value :: "f64 \<Rightarrow> real" where
  "f64_value x = val (f64_ratio x)"

lemma f64_ratio_pos: "0 \<le> fst (f64_ratio x)" "0 < snd (f64_ratio x)"
  by (simp_all add: f64_ratio_def Let_def)

lemma f64_value_parts:
  "f64_value x = (let e = uint x div 2 ^ 52; m = uint x mod 2 ^ 52 in
    if e = 0 then of_int m / 2 powi 1074 else (2 ^ 52 + of_int m) * 2 powi (e - 1075))"
  by (auto simp: f64_value_def f64_ratio_def val_def Let_def power_int_def field_simps)

lemma f64_value_mono:
  assumes "x \<le> y"
  shows "f64_value x \<le> f64_value y"
proof -
  define e where "e = uint x div 2 ^ 52" define m where "m = uint x mod 2 ^ 52"
  define f where "f = uint y div 2 ^ 52" define n where "n = uint y mod 2 ^ 52"
  have m: "0 \<le> m" "m < 2 ^ 52" "0 \<le> n" "n < 2 ^ 52" by (simp_all add: m_def n_def)
  have le: "uint x \<le> uint y" using assms by (simp add: word_le_def)
  have ef: "e \<le> f" "0 \<le> e" using zdiv_mono1 [OF le, of "2 ^ 52"] by (simp_all add: e_def f_def pos_imp_zdiv_nonneg_iff)
  have x: "f64_value x = (if e = 0 then of_int m / 2 powi 1074 else (2 ^ 52 + of_int m) * 2 powi (e - 1075))"
    and y: "f64_value y = (if f = 0 then of_int n / 2 powi 1074 else (2 ^ 52 + of_int n) * 2 powi (f - 1075))"
    by (simp_all add: f64_value_parts e_def m_def f_def n_def Let_def)
  show ?thesis
  proof (cases "e = f")
    case True
    have "uint x = e * 2 ^ 52 + m" "uint y = f * 2 ^ 52 + n" by (simp_all add: e_def m_def f_def n_def)
    then have "m \<le> n" using le True by simp
    then show ?thesis unfolding x y True by (auto intro: divide_right_mono mult_right_mono)
  next
    case False
    have "real_of_int m \<le> real_of_int (2 ^ 52)" using m by (simp only: of_int_le_iff less_imp_le)
    then have m': "real_of_int m \<le> 2 ^ 52" by simp
    have "f64_value x \<le> (2 ^ 53) * 2 powi (e - 1075)"
    proof (cases "e = 0")
      case True
      then show ?thesis using m' by (simp add: x power_int_minus field_simps)
    next
      case False
      have "2 ^ 52 + of_int m \<le> (2 ^ 53 :: real)" using m' by simp
      then show ?thesis unfolding x using False by (auto intro: mult_right_mono)
    qed
    also have "\<dots> = 2 ^ 52 * 2 powi (e + 1 - 1075)" by (simp add: power_int_add power_int_diff)
    also have "\<dots> \<le> 2 ^ 52 * 2 powi (f - 1075)" using False ef by (intro mult_left_mono power_int_increasing) simp_all
    also have "\<dots> \<le> f64_value y" unfolding y using False ef m by (auto intro: mult_right_mono)
    finally show ?thesis .
  qed
qed

lemma f64_value_nonneg: "0 \<le> f64_value x"
  using f64_ratio_pos [of x] by (simp add: f64_value_def val_def case_prod_beta)

lemma f64_value_0_iff: "f64_value x = 0 \<longleftrightarrow> x = 0"
proof -
  define e where "e = uint x div 2 ^ 52" define m where "m = uint x mod 2 ^ 52"
  have u: "uint x = e * 2 ^ 52 + m" and m: "0 \<le> m" by (simp_all add: e_def m_def)
  have "f64_value x = (if e = 0 then of_int m / 2 powi 1074 else (2 ^ 52 + of_int m) * 2 powi (e - 1075))"
    by (simp add: f64_value_parts e_def m_def Let_def)
  moreover have "2 ^ 52 + real_of_int m \<noteq> 0" using m by (intro add_pos_nonneg [THEN less_imp_neq [symmetric]]) simp_all
  ultimately have "f64_value x = 0 \<longleftrightarrow> e = 0 \<and> m = 0" by simp
  also have "\<dots> \<longleftrightarrow> uint x = 0" using u by (auto simp: e_def m_def)
  finally show ?thesis by (simp add: uint_0_iff)
qed

lemma val_times: "val (a * c, b * d) = val (a, b) * val (c, d)"
  by (simp add: val_def)

lemma val_over: "val (a * d, b * c) = val (a, b) / val (c, d)"
  by (simp add: val_def)

lemma f64_div_mono:
  assumes "x \<le> x'" "y \<noteq> 0"
  shows "f64_div x y \<le> f64_div x' y"
proof -
  obtain a b where x: "f64_ratio x = (a, b)" "0 \<le> a" "0 < b" using f64_ratio_pos [of x] by (cases "f64_ratio x") auto
  obtain a' b' where x': "f64_ratio x' = (a', b')" "0 \<le> a'" "0 < b'" using f64_ratio_pos [of x'] by (cases "f64_ratio x'") auto
  obtain c d where y: "f64_ratio y = (c, d)" "0 \<le> c" "0 < d" using f64_ratio_pos [of y] by (cases "f64_ratio y") auto
  have "val (c, d) \<noteq> 0" using f64_value_0_iff [of y] assms(2) by (simp add: f64_value_def y)
  then have c: "0 < c" using y by (simp add: val_def)
  have "val (a, b) \<le> val (a', b')" using f64_value_mono [OF assms(1)] by (simp add: f64_value_def x x')
  then have "f64_of_ratio (a * d, b * c) \<le> f64_of_ratio (a' * d, b' * c)"
    using x x' y c by (intro f64_of_ratio_mono) (auto simp: val_over val_nonneg divide_right_mono)
  then show ?thesis using assms(2) by (simp add: f64_div_def x x' y)
qed

lemma f64_mul_mono:
  assumes "x \<le> x'"
  shows "f64_mul x y \<le> f64_mul x' y"
proof -
  obtain a b where x: "f64_ratio x = (a, b)" "0 \<le> a" "0 < b" using f64_ratio_pos [of x] by (cases "f64_ratio x") auto
  obtain a' b' where x': "f64_ratio x' = (a', b')" "0 \<le> a'" "0 < b'" using f64_ratio_pos [of x'] by (cases "f64_ratio x'") auto
  obtain c d where y: "f64_ratio y = (c, d)" "0 \<le> c" "0 < d" using f64_ratio_pos [of y] by (cases "f64_ratio y") auto
  have "val (a, b) \<le> val (a', b')" using f64_value_mono [OF assms] by (simp add: f64_value_def x x')
  then have "f64_of_ratio (a * c, b * d) \<le> f64_of_ratio (a' * c, b' * d)"
    using x x' y by (intro f64_of_ratio_mono) (auto simp: val_times val_nonneg mult_right_mono)
  then show ?thesis by (simp add: f64_mul_def x x' y)
qed

lemma f64_div_self: "y \<noteq> 0 \<Longrightarrow> f64_div y y = 0x3ff0000000000000"
proof -
  assume nz: "y \<noteq> 0"
  obtain c d where y: "f64_ratio y = (c, d)" "0 \<le> c" "0 < d" using f64_ratio_pos [of y] by (cases "f64_ratio y") auto
  have "val (c, d) \<noteq> 0" using f64_value_0_iff [of y] nz by (simp add: f64_value_def y)
  then have c: "0 < c" using y by (simp add: val_def)
  have "f64_of_ratio (c * d, d * c) = f64_of_ratio (1, 1)"
    using y c by (intro antisym f64_of_ratio_mono) (simp_all add: val_def)
  moreover have "f64_of_ratio (1, 1) = 0x3ff0000000000000" by code_simp
  ultimately show ?thesis using nz by (simp add: f64_div_def y)
qed

text \<open>A part of a whole is at most one.\<close>

lemma f64_share_le_one: "x \<le> y \<Longrightarrow> y \<noteq> 0 \<Longrightarrow> f64_div x y \<le> 0x3ff0000000000000"
  using f64_div_mono [of x y y] by (simp add: f64_div_self)

text \<open>Integers of up to 53 bits are represented exactly.\<close>

lemma f64_of_u64_exact:
  assumes "uint n < 2 ^ 53"
  shows "f64_value (f64_of_u64 n) = of_int (uint n)"
proof (cases "uint n = 0")
  case True
  then have "n = 0" by (simp add: word_eq_iff_unsigned unsigned_eq_0_iff)
  moreover have "f64_of_u64 0 = 0" by code_simp
  ultimately show ?thesis using f64_value_0_iff [of 0] by simp
next
  case False
  define p where "p = uint n"
  have p: "0 < p" "p < 2 ^ 53" using False assms uint_ge_0 [of n] by (simp_all add: p_def le_less)
  define e where "e = f64_exponent p 1"
  have ex: "exponent_of e (of_int p)" using f64_exponent_of [of p 1] p by (simp add: e_def val_def)
  have "(1 :: real) \<le> of_int p" using p by simp
  then have "2 powi 0 < (2 powi (e + 53) :: real)" using ex by (simp add: exponent_of_def)
  then have lo: "- 53 < e" using power_int_increasing [of "e + 53" 0 "2 :: real"] by (cases "e + 53 \<le> 0") auto
  have hi: "e \<le> 0"
  proof (rule ccontr)
    assume "\<not> e \<le> 0"
    then have "2 powi 53 \<le> (2 powi (e + 52) :: real)" by (intro power_int_increasing) simp_all
    also have "\<dots> \<le> of_int p" using ex lo by (simp add: exponent_of_def)
    finally have "real_of_int (2 ^ 53) \<le> of_int p" by simp
    then show False using p by (simp only: of_int_le_iff)
  qed
  define M where "M = p * 2 ^ nat (- e)"
  have M: "of_int p / 2 powi e = real_of_int M" using hi by (simp add: M_def power_int_def field_simps)
  have "2 powi (e + 52) \<le> real_of_int p" "real_of_int p < 2 powi (e + 53)" using ex lo by (simp_all add: exponent_of_def)
  then have "2 ^ 52 \<le> of_int p / (2 powi e :: real)" "of_int p / (2 powi e :: real) < 2 ^ 53"
    by (simp_all add: power_int_add field_simps)
  then have "real_of_int (2 ^ 52) \<le> real_of_int M" "real_of_int M < real_of_int (2 ^ 53)" unfolding M by simp_all
  then have Mb: "2 ^ 52 \<le> M" "M < 2 ^ 53" by (simp_all only: of_int_le_iff of_int_less_iff)
  have "pat e (of_int p) = (e + 1074) * 2 ^ 52 + M" unfolding pat_def M rnd_int ..
  moreover have "(e + 1074) * 2 ^ 52 + M \<le> f64_infinity" using hi Mb by (simp add: f64_infinity_def)
  ultimately have "f64_pattern p 1 = (e + 1074) * 2 ^ 52 + M" using p f64_pattern_val [of p 1] by (simp add: val_def e_def)
  then have u: "uint (f64_of_u64 n) = (e + 1074) * 2 ^ 52 + M"
    using uint_f64_of_ratio [of p 1] p by (simp add: f64_of_u64_def p_def)
  define r where "r = M - 2 ^ 52"
  have r: "0 \<le> r" "r < 2 ^ 52" "uint (f64_of_u64 n) = (e + 1075) * 2 ^ 52 + r" "M = r + 2 ^ 52"
    using Mb u by (simp_all add: r_def)
  have parts: "(a * k + c) div k = a" "(a * k + c) mod k = c" if "0 \<le> c" "c < k" for a c k :: int using that by simp_all
  have "uint (f64_of_u64 n) div 2 ^ 52 = e + 1075" "uint (f64_of_u64 n) mod 2 ^ 52 = r"
    unfolding r(3) by (rule parts [OF r(1,2)])+
  then have "f64_value (f64_of_u64 n) = real_of_int M * 2 powi e" using lo by (simp add: f64_value_parts r(4))
  also have "\<dots> = of_int p" unfolding M [symmetric] by simp
  finally show ?thesis by (simp add: p_def)
qed

end
