(* ===== verification/CpuUtil.thy ===== *)
theory CpuUtil
  imports BpfCommon Floats "HOL-Library.Sublist"
begin

text \<open>
  CPU utilisation: the BPF programs that measure the time slices of threads (bpf/src/bpf/cpuutil.bpf.c)
  and the user space half that turns them into counters (bpf/src/cpuutil.rs).

  The state of a CPU is an element of a per-CPU array with a single entry, whose lookup cannot fail.
  The clock, whether the ring buffer has room and the result of the tracked process lookup are
  arguments, and \<open>rng\<close> stands for the random numbers drawn one after the other.
\<close>

section \<open>Definitions\<close>

subsection \<open>The BPF programs\<close>

record cpu_state =
  st_tid :: u32
  st_tgid :: u32
  st_start_time :: u64
  st_kernel_start_time :: u64
  st_kernel_time_acc :: u64
  st_in_kernel :: u32

record CpuEvent =
  ce_tid :: u32
  ce_tgid :: u32
  ce_end_time :: u64
  ce_kernel_time_ns :: u64
  ce_start_time :: u64
  ce_cpu :: u32
  ce_boundary :: bool

text \<open>The surroundings of one program run: the clock, the processor, the room in the ring buffer and the filter.\<close>

record kenv =
  k_now :: u64
  k_cpu :: u32
  k_reserve :: bool
  k_filter_enabled :: bool
  k_tracked :: "u32 \<Rightarrow> bool"

definition should_track_tgid :: "kenv \<Rightarrow> u32 \<Rightarrow> bool" where
  "should_track_tgid k tgid = (if \<not> k_filter_enabled k then True else if tgid = 0 then True else k_tracked k tgid)"

definition submit_cpu_event :: "kenv \<Rightarrow> cpu_state \<Rightarrow> u64 \<Rightarrow> bool \<Rightarrow> CpuEvent list" where
  "submit_cpu_event k st end_time bnd =
    (if \<not> k_reserve k then []
     else
       let kernel_time = (if st_in_kernel st \<noteq> 0 \<and> st_kernel_start_time st > 0
         then st_kernel_time_acc st + (end_time - st_kernel_start_time st) else st_kernel_time_acc st) in
       [\<lparr>ce_tid = st_tid st, ce_tgid = st_tgid st, ce_end_time = end_time, ce_kernel_time_ns = kernel_time,
         ce_start_time = st_start_time st, ce_cpu = k_cpu k, ce_boundary = bnd\<rparr>])"

definition handle_sched_switch :: "kenv \<Rightarrow> u32 \<Rightarrow> u32 \<Rightarrow> u32 \<Rightarrow> cpu_state \<Rightarrow> CpuEvent list \<times> cpu_state" where
  "handle_sched_switch k prev_pid prev_tgid next_pid st =
    (let now = k_now k;
         out = (if st_tid st = prev_pid \<and> st_tid st \<noteq> 0 \<and> should_track_tgid k prev_tgid
           then submit_cpu_event k (st\<lparr>st_tgid := prev_tgid\<rparr>) now False else []) in
     (out, \<lparr>st_tid = next_pid, st_tgid = 0, st_start_time = now, st_kernel_start_time = 0,
        st_kernel_time_acc = 0, st_in_kernel = 0\<rparr>))"

definition handle_sys_enter :: "kenv \<Rightarrow> u32 \<Rightarrow> cpu_state \<Rightarrow> cpu_state" where
  "handle_sys_enter k tid st =
    (if st_tid st \<noteq> tid then st
     else if st_in_kernel st = 0 then st\<lparr>st_in_kernel := 1, st_kernel_start_time := k_now k\<rparr>
     else st)"

definition handle_sys_exit :: "kenv \<Rightarrow> u32 \<Rightarrow> cpu_state \<Rightarrow> cpu_state" where
  "handle_sys_exit k tid st =
    (if st_tid st \<noteq> tid then st
     else
       (if st_in_kernel st \<noteq> 0 \<and> st_kernel_start_time st > 0
        then st\<lparr>st_kernel_time_acc := st_kernel_time_acc st + (k_now k - st_kernel_start_time st), st_kernel_start_time := 0\<rparr>
        else st)\<lparr>st_in_kernel := 0\<rparr>)"

definition handle_boundary_event :: "kenv \<Rightarrow> u32 \<Rightarrow> cpu_state \<Rightarrow> CpuEvent list \<times> cpu_state" where
  "handle_boundary_event k tgid st =
    (let st1 = (if should_track_tgid k tgid then st\<lparr>st_tgid := tgid\<rparr> else st);
         now = k_now k;
         out = submit_cpu_event k st1 now True;
         st2 = st1\<lparr>st_start_time := now\<rparr>;
         st3 = (if st_in_kernel st2 \<noteq> 0 then st2\<lparr>st_kernel_start_time := now\<rparr> else st2) in
     (out, st3\<lparr>st_kernel_time_acc := 0\<rparr>))"

subsection \<open>The user space half\<close>

record CpuUtilConfig =
  cpu_frequency :: u64
  cpu_pid_filters :: "i32 list"
  cpu_filter_process :: "string list"
  cpu_ringbuf :: usize

definition cpu_default_frequency :: u64 where "cpu_default_frequency = 9"
definition cpu_default_ringbuf :: usize where "cpu_default_ringbuf = 1024 * 1024"

record ThreadStats =
  cpu_time_ns :: u64
  kernel_time_ns :: u64
  min_timestamp :: u64

definition ThreadStats_default :: ThreadStats where
  "ThreadStats_default = \<lparr>cpu_time_ns = 0, kernel_time_ns = 0, min_timestamp = - 1\<rparr>"

text \<open>The variables captured by the ring buffer callback, with the environment of the user callback.\<close>

record 'c cpuutil =
  thread_stats :: "((i32 \<times> i32) \<times> ThreadStats) list"
  submitted_tracks :: "TrackId list"
  track_id_mapping :: "((i32 \<times> i32) \<times> u64 \<times> u64) list"
  drawn :: nat
  boundaries_reported :: usize
  max_timestamp :: u64
  cb_state :: 'c

definition cpuutil_init :: "'c \<Rightarrow> 'c cpuutil" where
  "cpuutil_init c = \<lparr>thread_stats = [], submitted_tracks = [], track_id_mapping = [], drawn = 0,
    boundaries_reported = 0, max_timestamp = 0, cb_state = c\<rparr>"

definition cpu_emit :: "'c callback \<Rightarrow> Message \<Rightarrow> ('c cpuutil, i32, unit) stm" where
  "cpu_emit callback msg = on_field cb_state (\<lambda>c u. u\<lparr>cb_state := c\<rparr>) (emit callback msg)"

text \<open>The ids of the two counters of a thread.\<close>

definition counter_ids :: "(nat \<Rightarrow> u64) \<Rightarrow> i32 \<times> i32 \<Rightarrow> ('c cpuutil, i32, u64 \<times> u64) stm" where
  "counter_ids rng key u =
    (case hm_get (track_id_mapping u) key of
       Some ids \<Rightarrow> (Ok ids, u)
     | None \<Rightarrow>
         let ids = (rng (drawn u), rng (drawn u + 1)) in
         (Ok ids, u\<lparr>drawn := drawn u + 2, track_id_mapping := hm_insert key ids (track_id_mapping u)\<rparr>))"

text \<open>One counter: its track, once, and its value.\<close>

definition report_counter ::
  "'c callback \<Rightarrow> string \<Rightarrow> i32 \<times> i32 \<Rightarrow> u64 \<Rightarrow> f64 \<Rightarrow> u64 \<Rightarrow> ('c cpuutil, i32, unit) stm" where
  "report_counter callback name = (\<lambda>(pid, tid) i value timestamp.
    try_bind
      (try_bind (gets submitted_tracks) (\<lambda>known.
       if TrackId_Counter i \<in> set known then ret ()
       else
         try_bind (cpu_emit callback (Message_Event (Event_Track \<lparr>track_name = name,
             track_type = TrackType_Counter i (Some ''%''), track_parent = Some (TrackType_Thread tid pid)\<rparr>))) (\<lambda>_.
         modify (\<lambda>u. u\<lparr>submitted_tracks := TrackId_Counter i # submitted_tracks u\<rparr>))))
      (\<lambda>_. cpu_emit callback (Message_Event (Event_Counter \<lparr>counter_name = name, counter_value = value,
        counter_timestamp = timestamp, counter_track_id = TrackId_Counter i, counter_labels = Labels_new,
        counter_unit = Some ''%''\<rparr>))))"

text \<open>The expression \<open>(a as f64 / b as f64) * 100.0\<close>.\<close>

definition percent :: "u64 \<Rightarrow> u64 \<Rightarrow> f64" where
  "percent a b = f64_mul (f64_div (f64_of_u64 a) (f64_of_u64 b)) 0x4059000000000000"

definition report_thread ::
  "(nat \<Rightarrow> u64) \<Rightarrow> 'c callback \<Rightarrow> i32 \<times> i32 \<Rightarrow> ('c cpuutil, i32, unit) stm" where
  "report_thread rng callback key u =
    (case hm_get (thread_stats u) key of
       None \<Rightarrow> (Ok (), u)
     | Some st \<Rightarrow>
         (let elapsed_ns = max_timestamp u - min_timestamp st in
          try_bind (counter_ids rng key) (\<lambda>(cpu_time_id, kernel_time_id).
          try_bind (report_counter callback ''cpu_time'' key cpu_time_id (percent (cpu_time_ns st) elapsed_ns) (min_timestamp st)) (\<lambda>_.
          try_bind (report_counter callback ''kernel_time'' key kernel_time_id (percent (kernel_time_ns st) elapsed_ns) (min_timestamp st)) (\<lambda>_.
          modify (\<lambda>u. u\<lparr>thread_stats := hm_insert key
            \<lparr>cpu_time_ns = 0, kernel_time_ns = 0, min_timestamp = max_timestamp u\<rparr> (thread_stats u)\<rparr>))))) u)"

definition account :: "CpuEvent \<Rightarrow> 'c cpuutil \<Rightarrow> 'c cpuutil" where
  "account e u =
    (let u1 = (if ce_tgid e \<noteq> 0 \<and> ce_tid e \<noteq> 0 \<and> ce_start_time e \<noteq> 0 then
          let key = (ce_tgid e, ce_tid e);
              entry = (case hm_get (thread_stats u) key of Some s \<Rightarrow> s | None \<Rightarrow> ThreadStats_default) in
          u\<lparr>thread_stats := hm_insert key
            \<lparr>cpu_time_ns = cpu_time_ns entry + (ce_end_time e - ce_start_time e),
             kernel_time_ns = kernel_time_ns entry + ce_kernel_time_ns e,
             min_timestamp = min (min_timestamp entry) (ce_start_time e)\<rparr> (thread_stats u)\<rparr>
        else u) in
     u1\<lparr>max_timestamp := max (max_timestamp u1) (ce_end_time e)\<rparr>)"

definition on_cpu_event ::
  "(nat \<Rightarrow> u64) \<Rightarrow> 'c callback \<Rightarrow> usize \<Rightarrow> CpuEvent \<Rightarrow> 'c cpuutil \<Rightarrow> i32 \<times> 'c cpuutil" where
  "on_cpu_event rng callback nprocs e u =
    (let u1 = account e u in
     if ce_boundary e then
       let u2 = u1\<lparr>boundaries_reported := boundaries_reported u1 + 1\<rparr> in
       if boundaries_reported u2 = nprocs then
         status (try_each (report_thread rng callback) (map fst (thread_stats u2)) (u2\<lparr>boundaries_reported := 0\<rparr>))
       else (0, u2)
     else (0, u1))"

definition cpu_perf_links :: "'w libbpf \<Rightarrow> u64 \<Rightarrow> ('w, BpfError, unit list) stm" where
  "cpu_perf_links lb freq =
    try_bind (map_err (\<lambda>e. LoadError (''failed to open perf events: '' @ e))
      (perf_event_per_cpu lb PERF_TYPE_SOFTWARE PERF_COUNT_SW_CPU_CLOCK freq)) (\<lambda>perf_fds.
    map_err (\<lambda>e. AttachError (''failed to attach perf events: '' @ e)) (attach_perf_event lb perf_fds))"

definition CpuUtil_new :: "'w libbpf \<Rightarrow> CpuUtilConfig \<Rightarrow> ('w, BpfError, unit list) stm" where
  "CpuUtil_new lb cfg =
    try_bind (open_skel lb) (\<lambda>_.
    try_bind (set_ring_size lb (cpu_ringbuf cfg)) (\<lambda>_.
    try_bind (modify (lb_rodata lb ''filter_enabled'' (if cpu_pid_filters cfg \<noteq> [] \<or> cpu_filter_process cfg \<noteq> [] then 1 else 0))) (\<lambda>_.
    try_bind (load_skel lb) (\<lambda>_.
    try_bind (update_filters lb ''tracked_tgids'' (cpu_pid_filters cfg)) (\<lambda>_.
    try_bind (attach_skel lb) (\<lambda>_.
    try_bind (add_ring lb) (\<lambda>_.
    cpu_perf_links lb (cpu_frequency cfg))))))))"

definition cpu_add_pid_filter :: "'w libbpf \<Rightarrow> u32 \<Rightarrow> ('w, BpfError, unit) stm" where
  "cpu_add_pid_filter lb pid = map_err (\<lambda>e. MapError (''failed to add PID filter: '' @ e)) (lb_update lb ''tracked_tgids'' pid 1)"

section \<open>Time slices of one CPU\<close>

datatype kevent = K_Switch u32 u32 u32 | K_Enter u32 | K_Exit u32 | K_Boundary u32

definition cpu_step :: "kenv \<times> kevent \<Rightarrow> cpu_state \<Rightarrow> CpuEvent list \<times> cpu_state" where
  "cpu_step = (\<lambda>(k, ev) st. case ev of
      K_Switch prev_pid prev_tgid next_pid \<Rightarrow> handle_sched_switch k prev_pid prev_tgid next_pid st
    | K_Enter tid \<Rightarrow> ([], handle_sys_enter k tid st)
    | K_Exit tid \<Rightarrow> ([], handle_sys_exit k tid st)
    | K_Boundary tgid \<Rightarrow> handle_boundary_event k tgid st)"

primrec cpu_run :: "(kenv \<times> kevent) list \<Rightarrow> cpu_state \<Rightarrow> CpuEvent list" where
  "cpu_run [] st = []"
| "cpu_run (x # xs) st = (case cpu_step x st of (out, st') \<Rightarrow> out @ cpu_run xs st')"

definition zero_state :: cpu_state where
  "zero_state = \<lparr>st_tid = 0, st_tgid = 0, st_start_time = 0, st_kernel_start_time = 0, st_kernel_time_acc = 0, st_in_kernel = 0\<rparr>"

text \<open>Kernel time that has not been added up yet at time \<open>t\<close>, and the accounting invariant.\<close>

definition pending :: "u64 \<Rightarrow> cpu_state \<Rightarrow> nat" where
  "pending t st = (if st_in_kernel st \<noteq> 0 \<and> st_kernel_start_time st > 0 then unat t - unat (st_kernel_start_time st) else 0)"

definition slice_inv :: "u64 \<Rightarrow> cpu_state \<Rightarrow> bool" where
  "slice_inv t st \<longleftrightarrow> st_start_time st \<le> t \<and> st_kernel_start_time st \<le> t \<and>
    unat (st_kernel_time_acc st) + pending t st \<le> unat t - unat (st_start_time st)"

definition slice_ok :: "CpuEvent \<Rightarrow> bool" where
  "slice_ok e \<longleftrightarrow> ce_start_time e \<le> ce_end_time e \<and>
    unat (ce_kernel_time_ns e) \<le> unat (ce_end_time e) - unat (ce_start_time e)"

lemma slice_inv_later: "slice_inv t st \<Longrightarrow> t \<le> t' \<Longrightarrow> slice_inv t' st"
  by (auto simp: slice_inv_def pending_def word_le_nat_alt split: if_splits)

lemma unat_add_diff:
  "unat (a :: u64) + (unat t - unat k) \<le> unat t - unat s \<Longrightarrow> k \<le> t \<Longrightarrow> unat (a + (t - k)) = unat a + (unat t - unat k)"
proof -
  assume a: "unat a + (unat t - unat k) \<le> unat t - unat s" and k: "k \<le> t"
  have "unat (t - k) = unat t - unat k" using k by (simp add: unat_sub)
  moreover have "unat a + unat (t - k) < 2 ^ LENGTH(64)"
    using a calculation unat_lt [of t] by simp
  ultimately show ?thesis by (simp add: unat_word_ariths)
qed

lemma submit_slice:
  assumes "slice_inv t st" "k_now k = t"
  shows "\<forall>e\<in>set (submit_cpu_event k (st\<lparr>st_tgid := g\<rparr>) t b). slice_ok e \<and> ce_start_time e = st_start_time st \<and> ce_end_time e = t"
  using assms unat_add_diff [of "st_kernel_time_acc st" t "st_kernel_start_time st" "st_start_time st"]
  by (auto simp: submit_cpu_event_def slice_ok_def slice_inv_def pending_def Let_def split: if_splits)

lemma cpu_step_inv:
  assumes inv: "slice_inv t st" and t: "t \<le> k_now k" and step: "cpu_step (k, ev) st = (out, st')"
  shows "slice_inv (k_now k) st' \<and> (\<forall>e\<in>set out. slice_ok e \<and> ce_start_time e = st_start_time st \<and> ce_end_time e = st_start_time st') \<and>
    st_start_time st \<le> st_start_time st' \<and> length out \<le> 1"
proof -
  note now = slice_inv_later [OF inv t]
  have start: "st_start_time st \<le> k_now k" using now by (simp add: slice_inv_def)
  show ?thesis
  proof (cases ev)
    case (K_Switch p g n)
    then show ?thesis
      using step submit_slice [OF now refl, of g False] start
      by (auto simp: cpu_step_def handle_sched_switch_def Let_def slice_inv_def pending_def submit_cpu_event_def)
  next
    case (K_Enter tid)
    then show ?thesis
      using step now by (auto simp: cpu_step_def handle_sys_enter_def slice_inv_def pending_def)
  next
    case (K_Exit tid)
    then show ?thesis
      using step now unat_add_diff [of "st_kernel_time_acc st" "k_now k" "st_kernel_start_time st" "st_start_time st"]
      by (auto simp: cpu_step_def handle_sys_exit_def slice_inv_def pending_def split: if_splits)
  next
    case (K_Boundary g)
    have same: "st\<lparr>st_tgid := st_tgid st\<rparr> = st" by simp
    show ?thesis
      using K_Boundary step start submit_slice [OF now refl, of g True] submit_slice [OF now refl, of "st_tgid st" True, unfolded same]
        now
      by (auto simp: cpu_step_def handle_boundary_event_def Let_def slice_inv_def pending_def submit_cpu_event_def split: if_splits)
  qed
qed

lemma cpu_run_inv:
  "slice_inv t st \<Longrightarrow> sorted (t # map (k_now \<circ> fst) xs) \<Longrightarrow>
    list_all slice_ok (cpu_run xs st) \<and> sorted_wrt (\<lambda>a b. ce_end_time a \<le> ce_start_time b) (cpu_run xs st) \<and>
    (\<forall>e\<in>set (cpu_run xs st). st_start_time st \<le> ce_start_time e)"
proof (induction xs arbitrary: t st)
  case (Cons x xs)
  obtain k ev where x: "x = (k, ev)" by fastforce
  obtain out st' where step: "cpu_step (k, ev) st = (out, st')" by fastforce
  have s: "slice_inv (k_now k) st' \<and> (\<forall>e\<in>set out. slice_ok e \<and> ce_start_time e = st_start_time st \<and> ce_end_time e = st_start_time st') \<and>
    st_start_time st \<le> st_start_time st' \<and> length out \<le> 1"
    using Cons.prems x by (intro cpu_step_inv [OF Cons.prems(1) _ step]) simp
  have ih: "list_all slice_ok (cpu_run xs st') \<and> sorted_wrt (\<lambda>a b. ce_end_time a \<le> ce_start_time b) (cpu_run xs st') \<and>
    (\<forall>e\<in>set (cpu_run xs st'). st_start_time st' \<le> ce_start_time e)"
    using s Cons.prems(2) x by (intro Cons.IH [of "k_now k"]) simp_all
  have "out = [] \<or> (\<exists>e. out = [e])" using s by (cases out) auto
  then show ?case using s ih step x by (auto simp: list_all_iff intro: order_trans)
qed simp

section \<open>Accounting in user space\<close>

text \<open>The slices of a thread among the events, as start, end and kernel time.\<close>

definition counted :: "CpuEvent \<Rightarrow> bool" where
  "counted e \<longleftrightarrow> ce_tgid e \<noteq> 0 \<and> ce_tid e \<noteq> 0 \<and> ce_start_time e \<noteq> 0"

definition slices :: "i32 \<times> i32 \<Rightarrow> CpuEvent list \<Rightarrow> CpuEvent list" where
  "slices key evs = filter (\<lambda>e. counted e \<and> (ce_tgid e, ce_tid e) = key) evs"

definition disjoint_slices :: "CpuEvent \<Rightarrow> CpuEvent \<Rightarrow> bool" where
  "disjoint_slices a b \<longleftrightarrow> ce_end_time a \<le> ce_start_time b \<or> ce_end_time b \<le> ce_start_time a"

definition span_of :: "CpuEvent \<Rightarrow> nat" where
  "span_of e = unat (ce_end_time e) - unat (ce_start_time e)"

lemma disjoint_sum:
  assumes "sorted_wrt disjoint_slices es" "list_all slice_ok es"
  shows "sum_list (map span_of es) = card (\<Union>e\<in>set es. {unat (ce_start_time e)..<unat (ce_end_time e)})"
  using assms
proof (induction es)
  case (Cons e es)
  let ?I = "\<lambda>e. {unat (ce_start_time e)..<unat (ce_end_time e)}"
  have "?I e \<inter> \<Union> (?I ` set es) = {}"
    using Cons.prems(1) by (fastforce simp: disjoint_slices_def word_le_nat_alt)
  then have "card (?I e \<union> \<Union> (?I ` set es)) = span_of e + card (\<Union> (?I ` set es))"
    by (subst card_Un_disjoint) (auto simp: span_of_def)
  then show ?case using Cons by simp
qed simp

lemma disjoint_sum_le:
  assumes "sorted_wrt disjoint_slices es" "list_all slice_ok es"
    and "\<forall>e\<in>set es. a \<le> ce_start_time e \<and> ce_end_time e \<le> b"
  shows "sum_list (map span_of es) \<le> unat b - unat a"
proof -
  have "(\<Union>e\<in>set es. {unat (ce_start_time e)..<unat (ce_end_time e)}) \<subseteq> {unat a..<unat b}"
    using assms(3) by (fastforce simp: word_le_nat_alt)
  then have "card (\<Union>e\<in>set es. {unat (ce_start_time e)..<unat (ce_end_time e)}) \<le> card {unat a..<unat b}"
    by (intro card_mono) simp_all
  then show ?thesis using disjoint_sum [OF assms(1,2)] by simp
qed

text \<open>
  The statistics of every thread are the sums over some of its slices, all between the two time stamps.
\<close>

definition stats_inv :: "CpuEvent list \<Rightarrow> ((i32 \<times> i32) \<times> ThreadStats) list \<Rightarrow> u64 \<Rightarrow> bool" where
  "stats_inv evs ts mx \<longleftrightarrow>
    (\<forall>key st. hm_get ts key = Some st \<longrightarrow>
      (\<exists>I. subseq I (slices key evs) \<and> (\<forall>e\<in>set I. min_timestamp st \<le> ce_start_time e \<and> ce_end_time e \<le> mx) \<and> min_timestamp st \<le> mx \<and>
        cpu_time_ns st = word_of_nat (sum_list (map span_of I)) \<and>
        kernel_time_ns st = word_of_nat (sum_list (map (unat \<circ> ce_kernel_time_ns) I))))"

lemma slices_snoc [simp]:
  "slices key (evs @ [e]) = slices key evs @ (if counted e \<and> (ce_tgid e, ce_tid e) = key then [e] else [])"
  by (simp add: slices_def)

lemma word_of_span: "slice_ok e \<Longrightarrow> word_of_nat (span_of e) = ce_end_time e - ce_start_time e"
  by (simp add: span_of_def slice_ok_def flip: unat_sub)

lemma stats_inv_weaken:
  assumes "stats_inv evs ts mx" "mx \<le> mx'"
  shows "stats_inv (evs @ [e]) ts mx'"
  unfolding stats_inv_def
proof (intro allI impI)
  fix key st
  assume "hm_get ts key = Some st"
  then obtain I where "subseq I (slices key evs)" "\<forall>e\<in>set I. min_timestamp st \<le> ce_start_time e \<and> ce_end_time e \<le> mx"
      "min_timestamp st \<le> mx" "cpu_time_ns st = word_of_nat (sum_list (map span_of I))"
      "kernel_time_ns st = word_of_nat (sum_list (map (unat \<circ> ce_kernel_time_ns) I))"
    using assms(1) unfolding stats_inv_def by blast
  with assms(2) show "\<exists>I. subseq I (slices key (evs @ [e])) \<and> (\<forall>e\<in>set I. min_timestamp st \<le> ce_start_time e \<and> ce_end_time e \<le> mx') \<and>
      min_timestamp st \<le> mx' \<and> cpu_time_ns st = word_of_nat (sum_list (map span_of I)) \<and>
      kernel_time_ns st = word_of_nat (sum_list (map (unat \<circ> ce_kernel_time_ns) I))"
    by (intro exI [of _ I]) (fastforce intro: order_trans)
qed

lemma stats_inv_insert:
  "stats_inv evs ts mx \<Longrightarrow>
    (\<exists>I. subseq I (slices key evs) \<and> (\<forall>e\<in>set I. min_timestamp st \<le> ce_start_time e \<and> ce_end_time e \<le> mx) \<and> min_timestamp st \<le> mx \<and>
        cpu_time_ns st = word_of_nat (sum_list (map span_of I)) \<and>
        kernel_time_ns st = word_of_nat (sum_list (map (unat \<circ> ce_kernel_time_ns) I))) \<Longrightarrow>
    stats_inv evs (hm_insert key st ts) mx"
  by (simp add: stats_inv_def)

lemma account_inv:
  assumes inv: "stats_inv evs (thread_stats u) (max_timestamp u)" and ok: "slice_ok e"
  shows "stats_inv (evs @ [e]) (thread_stats (account e u)) (max_timestamp (account e u))"
proof (cases "counted e")
  case False
  then show ?thesis using stats_inv_weaken [OF inv, of "max (max_timestamp u) (ce_end_time e)" e]
    by (auto simp: account_def counted_def Let_def)
next
  case True
  let ?key = "(ce_tgid e, ce_tid e)" and ?mx = "max (max_timestamp u) (ce_end_time e)"
  define entry where "entry = (case hm_get (thread_stats u) ?key of Some s \<Rightarrow> s | None \<Rightarrow> ThreadStats_default)"
  have "\<exists>I. subseq I (slices ?key evs) \<and> (\<forall>e\<in>set I. min_timestamp entry \<le> ce_start_time e \<and> ce_end_time e \<le> max_timestamp u) \<and>
      cpu_time_ns entry = word_of_nat (sum_list (map span_of I)) \<and>
      kernel_time_ns entry = word_of_nat (sum_list (map (unat \<circ> ce_kernel_time_ns) I))"
  proof (cases "hm_get (thread_stats u) ?key")
    case None
    then show ?thesis by (intro exI [of _ "[]"]) (simp add: entry_def ThreadStats_default_def)
  next
    case (Some st)
    with inv obtain I where "subseq I (slices ?key evs)"
        "\<forall>e\<in>set I. min_timestamp st \<le> ce_start_time e \<and> ce_end_time e \<le> max_timestamp u"
        "cpu_time_ns st = word_of_nat (sum_list (map span_of I))"
        "kernel_time_ns st = word_of_nat (sum_list (map (unat \<circ> ce_kernel_time_ns) I))"
      unfolding stats_inv_def by blast
    then show ?thesis using Some by (intro exI [of _ I]) (simp add: entry_def)
  qed
  then obtain I where I: "subseq I (slices ?key evs)"
      "\<forall>e\<in>set I. min_timestamp entry \<le> ce_start_time e \<and> ce_end_time e \<le> max_timestamp u"
      "cpu_time_ns entry = word_of_nat (sum_list (map span_of I))"
      "kernel_time_ns entry = word_of_nat (sum_list (map (unat \<circ> ce_kernel_time_ns) I))"
    by blast
  have se: "ce_start_time e \<le> ce_end_time e" using ok by (simp add: slice_ok_def)
  have "stats_inv (evs @ [e]) (hm_insert ?key \<lparr>cpu_time_ns = cpu_time_ns entry + (ce_end_time e - ce_start_time e),
      kernel_time_ns = kernel_time_ns entry + ce_kernel_time_ns e, min_timestamp = min (min_timestamp entry) (ce_start_time e)\<rparr>
      (thread_stats u)) ?mx"
    using True I se
    by (intro stats_inv_insert stats_inv_weaken [OF inv] exI [of _ "I @ [e]"])
      (auto simp: list_emb_append_mono word_of_span [OF ok] min_le_iff_disj le_max_iff_disj)
  then show ?thesis using True by (simp add: account_def counted_def Let_def entry_def)
qed

section \<open>The messages\<close>

text \<open>
  The log: the value of every counter is a share \<open>percent part whole\<close> with \<open>part\<close> at most \<open>whole\<close>, and the track
  of every counter was declared before it as a counter track of a thread.
\<close>

definition track_declared :: "TrackId \<Rightarrow> Message list \<Rightarrow> bool" where
  "track_declared i sent \<longleftrightarrow> (\<exists>t tid pid. Message_Event (Event_Track t) \<in> set sent \<and> to_id (track_type t) = i \<and>
    track_parent t = Some (TrackType_Thread tid pid))"

definition counter_ok :: "Message list \<Rightarrow> Message \<Rightarrow> bool" where
  "counter_ok before msg \<longleftrightarrow> (\<forall>c. msg = Message_Event (Event_Counter c) \<longrightarrow>
    (\<exists>part whole. counter_value c = percent part whole \<and> part \<le> whole) \<and> track_declared (counter_track_id c) before)"

definition log_ok :: "Message list \<Rightarrow> bool" where
  "log_ok sent \<longleftrightarrow> (\<forall>n<length sent. counter_ok (take n sent) (sent ! n))"

lemma log_ok_snoc: "log_ok (sent @ [msg]) \<longleftrightarrow> log_ok sent \<and> counter_ok sent msg"
  by (auto simp: log_ok_def nth_append less_Suc_eq)

lemma log_ok_snoc2: "log_ok (sent @ [a, b]) \<longleftrightarrow> log_ok sent \<and> counter_ok sent a \<and> counter_ok (sent @ [a]) b"
  using log_ok_snoc [of "sent @ [a]" b] by (simp add: log_ok_snoc)

lemma track_declared_append: "track_declared i sent \<or> track_declared i sent' \<Longrightarrow> track_declared i (sent @ sent')"
  by (auto simp: track_declared_def)

text \<open>The state with the log, apart from the statistics.\<close>

definition msgs_inv :: "Message list cpuutil \<Rightarrow> bool" where
  "msgs_inv u \<longleftrightarrow> log_ok (cb_state u) \<and> (\<forall>i\<in>set (submitted_tracks u). track_declared i (cb_state u))"

definition cpu_inv :: "CpuEvent list \<Rightarrow> Message list cpuutil \<Rightarrow> bool" where
  "cpu_inv evs u \<longleftrightarrow> msgs_inv u \<and> stats_inv evs (thread_stats u) (max_timestamp u)"

definition framed :: "((i32 \<times> i32) \<times> ThreadStats) list \<Rightarrow> u64 \<Rightarrow> Message list cpuutil \<Rightarrow> bool" where
  "framed ts mx u \<longleftrightarrow> msgs_inv u \<and> thread_stats u = ts \<and> max_timestamp u = mx"

lemma report_counter_inv:
  assumes "part \<le> whole"
  shows "triple (framed ts mx) (report_counter (logging f) name key i (percent part whole) t) (\<lambda>_. framed ts mx)"
proof (rule tripleI)
  fix u r u'
  assume inv: "framed ts mx u" and run: "report_counter (logging f) name key i (percent part whole) t u = (r, u')"
  obtain pid tid where key: "key = (pid, tid)" by fastforce
  have ok: "counter_ok sent (Message_Event (Event_Counter \<lparr>counter_name = name, counter_value = percent part whole,
      counter_timestamp = t, counter_track_id = TrackId_Counter i, counter_labels = Labels_new, counter_unit = Some ''%''\<rparr>))"
    if "track_declared (TrackId_Counter i) sent" for sent
    using that assms by (auto simp: counter_ok_def)
  have tr: "track_declared (TrackId_Counter i) (sent @ Message_Event (Event_Track \<lparr>track_name = name,
      track_type = TrackType_Counter i (Some ''%''), track_parent = Some (TrackType_Thread tid pid)\<rparr>) # sent')" for sent sent'
    by (auto simp: track_declared_def intro!: exI [of _ "\<lparr>track_name = name,
      track_type = TrackType_Counter i (Some ''%''), track_parent = Some (TrackType_Thread tid pid)\<rparr>"])
  have nt: "counter_ok sent (Message_Event (Event_Track x))" for sent x by (simp add: counter_ok_def)
  show "framed ts mx u'"
    using inv run
    by (auto simp: report_counter_def key framed_def msgs_inv_def cpu_emit_def on_field_def emit_def logging_def try_bind_def
        log_ok_snoc log_ok_snoc2 ok tr nt track_declared_append split: if_splits)
qed

lemma counter_ids_inv: "triple (framed ts mx) (counter_ids rng key) (\<lambda>_. framed ts mx)"
  by (rule tripleI) (auto simp: counter_ids_def framed_def msgs_inv_def Let_def split: option.splits)

lemma subseq_subset: "subseq xs ys \<Longrightarrow> set xs \<subseteq> set ys"
  by (induction rule: list_emb.induct) auto

lemma subseq_sorted_wrt: "subseq xs ys \<Longrightarrow> sorted_wrt P ys \<Longrightarrow> sorted_wrt P xs"
proof (induction rule: list_emb.induct)
  case (list_emb_Cons2 x y xs ys)
  then show ?case using subseq_subset [OF list_emb_Cons2.hyps(2)] by auto
qed simp_all

text \<open>The times of a thread with disjoint slices fit into the reported interval.\<close>

lemma stats_bounds:
  assumes inv: "stats_inv evs ts mx" and get: "hm_get ts key = Some st"
    and ok: "list_all slice_ok evs" and disj: "sorted_wrt disjoint_slices (slices key evs)"
  shows "cpu_time_ns st \<le> mx - min_timestamp st \<and> kernel_time_ns st \<le> cpu_time_ns st"
proof -
  obtain I where I: "subseq I (slices key evs)" "\<forall>e\<in>set I. min_timestamp st \<le> ce_start_time e \<and> ce_end_time e \<le> mx"
      "min_timestamp st \<le> mx" "cpu_time_ns st = word_of_nat (sum_list (map span_of I))"
      "kernel_time_ns st = word_of_nat (sum_list (map (unat \<circ> ce_kernel_time_ns) I))"
    using inv get unfolding stats_inv_def by blast
  have sub: "set I \<subseteq> set evs" using subseq_subset [OF I(1)] by (auto simp: slices_def)
  have okI: "list_all slice_ok I" using ok sub by (auto simp: list_all_iff)
  have "sorted_wrt disjoint_slices I" by (rule subseq_sorted_wrt [OF I(1) disj])
  from disjoint_sum_le [OF this okI I(2)] have c: "sum_list (map span_of I) \<le> unat mx - unat (min_timestamp st)" .
  have k: "sum_list (map (unat \<circ> ce_kernel_time_ns) I) \<le> sum_list (map span_of I)"
    using okI by (intro sum_list_mono) (auto simp: list_all_iff slice_ok_def span_of_def)
  have lt: "sum_list (map span_of I) < 2 ^ 64" using c unat_lt [of mx] by simp
  show ?thesis
    using c k lt I(3) by (simp add: I(4,5) word_le_nat_alt unat_sub unat_of_nat)
qed

lemma report_thread_inv:
  assumes ok: "list_all slice_ok evs" and disj: "sorted_wrt disjoint_slices (slices key evs)"
  shows "triple (cpu_inv evs) (report_thread rng (logging f) key) (\<lambda>_. cpu_inv evs)"
proof (rule tripleI)
  fix u r u'
  assume inv: "cpu_inv evs u" and run: "report_thread rng (logging f) key u = (r, u')"
  show "cpu_inv evs u'"
  proof (cases "hm_get (thread_stats u) key")
    case None
    then show ?thesis using inv run by (simp add: report_thread_def)
  next
    case (Some st)
    let ?e = "max_timestamp u - min_timestamp st" and ?F = "framed (thread_stats u) (max_timestamp u)"
    have st: "stats_inv evs (thread_stats u) (max_timestamp u)" using inv by (simp add: cpu_inv_def)
    note b = stats_bounds [OF st Some ok disj]
    have "stats_inv evs (hm_insert key \<lparr>cpu_time_ns = 0, kernel_time_ns = 0, min_timestamp = max_timestamp u\<rparr> (thread_stats u)) (max_timestamp u)"
      by (intro stats_inv_insert st exI [of _ "[]"]) simp
    then have t: "triple ?F
       (try_bind (counter_ids rng key) (\<lambda>(cpu_time_id, kernel_time_id).
        try_bind (report_counter (logging f) ''cpu_time'' key cpu_time_id (percent (cpu_time_ns st) ?e) (min_timestamp st)) (\<lambda>_.
        try_bind (report_counter (logging f) ''kernel_time'' key kernel_time_id (percent (kernel_time_ns st) ?e) (min_timestamp st)) (\<lambda>_.
        modify (\<lambda>u. u\<lparr>thread_stats := hm_insert key
            \<lparr>cpu_time_ns = 0, kernel_time_ns = 0, min_timestamp = max_timestamp u\<rparr> (thread_stats u)\<rparr>))))) (\<lambda>_. cpu_inv evs)"
      using b st
      by (intro triple_bind [OF counter_ids_inv] triple_bind [OF report_counter_inv] triple_modify)
        (auto simp: cpu_inv_def framed_def msgs_inv_def intro!: triple_bind [OF report_counter_inv] triple_modify)
    have F: "?F u" using inv by (simp add: framed_def cpu_inv_def)
    show ?thesis
      using tripleD [OF t F, of r u'] run Some by (simp add: report_thread_def Let_def)
  qed
qed

lemma on_cpu_event_inv:
  assumes inv: "cpu_inv evs u" and ok: "list_all slice_ok (evs @ [e])"
    and disj: "\<And>key. sorted_wrt disjoint_slices (slices key (evs @ [e]))"
  shows "cpu_inv (evs @ [e]) (snd (on_cpu_event rng (logging f) nprocs e u))"
proof -
  let ?u1 = "account e u"
  have "msgs_inv ?u1" using inv by (simp add: cpu_inv_def msgs_inv_def account_def Let_def)
  moreover have "stats_inv (evs @ [e]) (thread_stats ?u1) (max_timestamp ?u1)"
    using inv ok by (intro account_inv) (simp_all add: cpu_inv_def)
  ultimately have u1: "cpu_inv (evs @ [e]) (?u1\<lparr>boundaries_reported := b\<rparr>)" for b
    by (simp add: cpu_inv_def msgs_inv_def)
  have "?u1\<lparr>boundaries_reported := boundaries_reported ?u1\<rparr> = ?u1" by simp
  then have "cpu_inv (evs @ [e]) ?u1" using u1 [of "boundaries_reported ?u1"] by simp
  moreover have "cpu_inv (evs @ [e]) (snd (try_each (report_thread rng (logging f)) keys (?u1\<lparr>boundaries_reported := 0\<rparr>)))" for keys
    by (rule triple_snd [where P = "cpu_inv (evs @ [e])"], rule triple_each, rule report_thread_inv [OF ok disj], rule u1)
  ultimately show ?thesis
    using u1 by (simp add: on_cpu_event_def Let_def status_def case_prod_beta)
qed

lemma cpu_events_inv:
  assumes "list_all slice_ok evs" "\<And>key. sorted_wrt disjoint_slices (slices key evs)"
  shows "cpu_inv evs (fold (\<lambda>e u. snd (on_cpu_event rng (logging f) nprocs e u)) evs (cpuutil_init []))"
  using assms
proof (induction evs rule: rev_induct)
  case Nil
  show ?case by (simp add: cpu_inv_def msgs_inv_def stats_inv_def cpuutil_init_def log_ok_def hm_get_def)
next
  case (snoc e evs)
  have "sorted_wrt disjoint_slices (slices key evs)" for key
    using snoc.prems(2) [of key] by (auto simp: sorted_wrt_append split: if_splits)
  with snoc show ?case by (simp add: on_cpu_event_inv)
qed

section \<open>Properties\<close>

text \<open>
  C24: The time slices that the BPF programs report of one CPU are well formed: with a clock that does not
  go back, every event ends no earlier than it starts, its kernel time is at most its length, and it
  starts no earlier than the event before it ends, for every sequence of context switches, system
  calls, boundary events, filters and full ring buffers.
\<close>

theorem cpu_slices_well_formed:
  assumes "sorted (map (k_now \<circ> fst) xs)"
  shows "list_all slice_ok (cpu_run xs zero_state) \<and>
    sorted_wrt (\<lambda>a b. ce_end_time a \<le> ce_start_time b) (cpu_run xs zero_state)"
proof -
  have "slice_inv 0 zero_state" by (simp add: slice_inv_def zero_state_def pending_def)
  from cpu_run_inv [OF this] assms show ?thesis by simp
qed

definition example_kenv :: "u64 \<Rightarrow> kenv" where
  "example_kenv t = \<lparr>k_now = t, k_cpu = 0, k_reserve = True, k_filter_enabled = False, k_tracked = \<lambda>_. False\<rparr>"

definition example_trace :: "(kenv \<times> kevent) list" where
  "example_trace = [(example_kenv 10, K_Switch 0 0 5), (example_kenv 12, K_Enter 5), (example_kenv 15, K_Exit 5),
    (example_kenv 20, K_Boundary 4), (example_kenv 26, K_Switch 5 4 0)]"

theorem cpu_slices_well_formed_witness:
  "length (cpu_run example_trace zero_state) = 2 \<and> list_all slice_ok (cpu_run example_trace zero_state)"
proof -
  have "length (cpu_run example_trace zero_state) = 2" by code_simp
  moreover have "sorted (map (k_now \<circ> fst) example_trace)" by (simp add: example_trace_def example_kenv_def)
  ultimately show ?thesis using cpu_slices_well_formed [of example_trace] by simp
qed

text \<open>
  A share is at most 100 percent; over no time at all it is not a number.
\<close>

lemma percent_le:
  assumes "part \<le> whole" "whole \<noteq> 0"
  shows "percent part whole \<le> 0x4059000000000000"
proof -
  have "f64_value (f64_of_u64 1) = of_int (uint (1 :: u64))" by (rule f64_of_u64_exact) simp
  then have "f64_of_u64 1 \<noteq> 0" using f64_value_0_iff [where x = "f64_of_u64 1"] by auto
  moreover have "f64_of_u64 1 \<le> f64_of_u64 whole" using assms(2) by (intro f64_of_u64_mono) (simp add: word_le_nat_alt unat_gt_0 Suc_leI)
  ultimately have "f64_of_u64 whole \<noteq> 0" by auto
  with f64_of_u64_mono [OF assms(1)] have "f64_div (f64_of_u64 part) (f64_of_u64 whole) \<le> 0x3ff0000000000000"
    by (rule f64_share_le_one)
  from f64_mul_mono [OF this, where y = "0x4059000000000000"]
  have "percent part whole \<le> f64_mul 0x3ff0000000000000 0x4059000000000000" by (simp add: percent_def)
  also have "f64_mul 0x3ff0000000000000 0x4059000000000000 = 0x4059000000000000" by code_simp
  finally show ?thesis .
qed



end
