(* ===== verification/ThreadTrack.thy ===== *)
theory ThreadTrack
  imports BpfCommon "HOL-Library.Sublist"
begin

text \<open>
  Names of processes and threads: the BPF programs that report new threads, executed programs and
  renamed threads (bpf/src/bpf/threadtrack.bpf.c), and the user space half with its scan of the
  existing processes (bpf/src/threadtrack.rs).

  The helpers of the kernel that copy a string into a buffer are an argument, and so is the content
  that the memory of a ring buffer record has before it is written.  Strings of the model are the
  bytes of the strings of the source.
\<close>

section \<open>Definitions\<close>

subsection \<open>The BPF programs\<close>

record ThreadEvent =
  te_pid :: u32
  te_tgid :: u32
  te_comm :: "u8 list"
  te_filename :: "u8 list"

text \<open>
  \<open>read_str dst src\<close> is the buffer \<open>dst\<close> after the helper copied the string \<open>src\<close> into it.  The first
  argument of a program is the reserved record, \<open>None\<close> when the ring buffer is full.
\<close>

type_synonym read_str = "u8 list \<Rightarrow> u8 list \<Rightarrow> u8 list"

definition handle_sched_wakeup_new :: "read_str \<Rightarrow> ThreadEvent option \<Rightarrow> u32 \<Rightarrow> u32 \<Rightarrow> u8 list \<Rightarrow> ThreadEvent option" where
  "handle_sched_wakeup_new read_str reserved pid tgid task_comm =
    (case reserved of
       None \<Rightarrow> None
     | Some e \<Rightarrow> Some (e\<lparr>te_pid := pid, te_tgid := tgid, te_comm := read_str (te_comm e) task_comm\<rparr>))"

definition handle_sched_process_exec ::
  "read_str \<Rightarrow> ThreadEvent option \<Rightarrow> u32 \<Rightarrow> u32 \<Rightarrow> u8 list option \<Rightarrow> ThreadEvent option" where
  "handle_sched_process_exec read_str reserved pid tgid bprm_filename =
    (case bprm_filename of
       None \<Rightarrow> None
     | Some filename \<Rightarrow>
         (case reserved of
            None \<Rightarrow> None
          | Some e \<Rightarrow> Some (e\<lparr>te_pid := pid, te_tgid := tgid, te_filename := read_str (te_filename e) filename\<rparr>)))"

definition PR_SET_NAME :: u64 where "PR_SET_NAME = 15"

definition handle_prctl_setname :: "read_str \<Rightarrow> ThreadEvent option \<Rightarrow> u64 \<Rightarrow> u64 \<Rightarrow> u8 list \<Rightarrow> ThreadEvent option" where
  "handle_prctl_setname read_str reserved arg0 pid_tgid user_str =
    (if arg0 \<noteq> PR_SET_NAME then None
     else
       case reserved of
         None \<Rightarrow> None
       | Some e \<Rightarrow> Some (e\<lparr>te_pid := ucast pid_tgid, te_tgid := ucast (drop_bit 32 pid_tgid),
                    te_comm := read_str (te_comm e) user_str\<rparr>))"

subsection \<open>Strings of the standard library\<close>

definition cont :: "u8 \<Rightarrow> bool" where "cont b \<longleftrightarrow> 0x80 \<le> b \<and> b \<le> 0xBF"

text \<open>Well-formed UTF-8, as \<open>str::from_utf8\<close> accepts it.\<close>

fun utf8_valid :: "u8 list \<Rightarrow> bool" where
  "utf8_valid [] = True"
| "utf8_valid (a # xs) =
    (if a < 0x80 then utf8_valid xs
     else
       case xs of
         [] \<Rightarrow> False
       | b # ys \<Rightarrow>
           if 0xC2 \<le> a \<and> a \<le> 0xDF then cont b \<and> utf8_valid ys
           else
             (case ys of
                [] \<Rightarrow> False
              | c # zs \<Rightarrow>
                  if 0xE0 \<le> a \<and> a \<le> 0xEF then
                    cont b \<and> cont c \<and> (a = 0xE0 \<longrightarrow> 0xA0 \<le> b) \<and> (a = 0xED \<longrightarrow> b \<le> 0x9F) \<and> utf8_valid zs
                  else
                    (case zs of
                       [] \<Rightarrow> False
                     | d # ws \<Rightarrow>
                         0xF0 \<le> a \<and> a \<le> 0xF4 \<and> cont b \<and> cont c \<and> cont d \<and> (a = 0xF0 \<longrightarrow> 0x90 \<le> b) \<and>
                         (a = 0xF4 \<longrightarrow> b \<le> 0x8F) \<and> utf8_valid ws)))"

definition to_str :: "u8 list \<Rightarrow> string" where
  "to_str bs = map (char_of \<circ> unat) bs"

text \<open>The white space that \<open>str::trim\<close> removes, in its encoding.\<close>

definition white :: "u8 list list" where
  "white = map (\<lambda>b. [b]) [9, 10, 11, 12, 13, 32] @ [[0xC2, 0x85], [0xC2, 0xA0], [0xE1, 0x9A, 0x80]] @
    map (\<lambda>n. [0xE2, 0x80, 0x80 + word_of_nat n]) ([0..<11] @ [0x28, 0x29, 0x2F]) @ [[0xE2, 0x81, 0x9F], [0xE3, 0x80, 0x80]]"

definition skip_white :: "u8 list list \<Rightarrow> u8 list \<Rightarrow> u8 list" where
  "skip_white ws xs = (case find (\<lambda>w. prefix w xs) ws of Some w \<Rightarrow> drop (length w) xs | None \<Rightarrow> xs)"

definition trim :: "u8 list \<Rightarrow> u8 list" where
  "trim xs =
    (let ys = (skip_white white ^^ length xs) xs in
     rev ((skip_white (map rev white) ^^ length ys) (rev ys)))"

text \<open>\<open>i32::from_str\<close>: an optional sign and at least one decimal digit, within the range.\<close>

definition digits :: "u8 list \<Rightarrow> int option" where
  "digits ds = (if ds \<noteq> [] \<and> list_all (\<lambda>d. 48 \<le> d \<and> d \<le> 57) ds
    then Some (foldl (\<lambda>n d. 10 * n + (uint d - 48)) 0 ds) else None)"

definition parse_i32 :: "u8 list \<Rightarrow> i32 option" where
  "parse_i32 s =
    (case s of
       [] \<Rightarrow> None
     | c # cs \<Rightarrow>
         if c = 45 then
           (case digits cs of Some n \<Rightarrow> if n \<le> 2 ^ 31 then Some (- word_of_int n) else None | None \<Rightarrow> None)
         else
           (case digits (if c = 43 then cs else s) of
              Some n \<Rightarrow> if n < 2 ^ 31 then Some (word_of_int n) else None | None \<Rightarrow> None))"

subsection \<open>The user space half\<close>

record ThreadTrackerConfig =
  thread_ringbuf :: usize

definition thread_default_ringbuf :: usize where "thread_default_ringbuf = 256 * 1024"

text \<open>A name is \<open>None\<close> where the source panics on it.\<close>

definition c_str :: "u8 list \<Rightarrow> string option" where
  "c_str bytes = (let bs = takeWhile (\<lambda>b. b \<noteq> 0) bytes in if utf8_valid bs then Some (to_str bs) else None)"

definition comm_str :: "ThreadEvent \<Rightarrow> string option" where
  "comm_str e = c_str (te_comm e)"

definition filename_str :: "ThreadEvent \<Rightarrow> string option" where
  "filename_str e = c_str (te_filename e)"

definition process_track_msg :: "string \<Rightarrow> i32 \<Rightarrow> Message" where
  "process_track_msg name pid = Message_Event (Event_Track \<lparr>track_name = name, track_type = TrackType_Process pid, track_parent = None\<rparr>)"

definition thread_track_msg :: "string \<Rightarrow> i32 \<Rightarrow> i32 \<Rightarrow> Message" where
  "thread_track_msg name tid pid = Message_Event (Event_Track \<lparr>track_name = name, track_type = TrackType_Thread tid pid,
    track_parent = Some (TrackType_Process pid)\<rparr>)"

definition thread_message :: "ThreadEvent \<Rightarrow> Message option" where
  "thread_message e =
    (case filename_str e of
       None \<Rightarrow> None
     | Some filename \<Rightarrow>
         if filename \<noteq> '''' then Some (process_track_msg filename (te_tgid e))
         else map_option (\<lambda>comm. thread_track_msg comm (te_pid e) (te_tgid e)) (comm_str e))"

definition on_thread_event :: "'c callback \<Rightarrow> ThreadEvent \<Rightarrow> 'c \<Rightarrow> (i32 \<times> 'c) option" where
  "on_thread_event callback e c = map_option (\<lambda>msg. callback msg c) (thread_message e)"

text \<open>
  The proc file system as the scan finds it: a directory entry has a name that may not be readable as a
  string, a name file that may not be readable, and for processes the task directory.
\<close>

record task_entry =
  task_name :: "u8 list option"
  task_comm :: "u8 list option"

record proc_entry =
  proc_name :: "u8 list option"
  proc_comm :: "u8 list option"
  proc_tasks :: "task_entry option list option"

definition scan_task :: "i32 \<Rightarrow> task_entry option \<Rightarrow> Message list" where
  "scan_task pid entry =
    (case entry of
       None \<Rightarrow> []
     | Some t \<Rightarrow>
         (case Option.bind (task_name t) parse_i32 of
            None \<Rightarrow> []
          | Some tid \<Rightarrow>
              if tid = pid then []
              else (case task_comm t of None \<Rightarrow> [] | Some comm \<Rightarrow> [thread_track_msg (to_str (trim comm)) tid pid])))"

definition scan_entry :: "proc_entry option \<Rightarrow> Message list" where
  "scan_entry entry =
    (case entry of
       None \<Rightarrow> []
     | Some p \<Rightarrow>
         (case Option.bind (proc_name p) parse_i32 of
            None \<Rightarrow> []
          | Some pid \<Rightarrow>
              (case proc_comm p of None \<Rightarrow> [] | Some comm \<Rightarrow> [process_track_msg (to_str (trim comm)) pid]) @
              (case proc_tasks p of None \<Rightarrow> [] | Some tasks \<Rightarrow> concat (map (scan_task pid) tasks))))"

record 'c ThreadTracker =
  proc_scanned :: bool
  tt_cb :: 'c

definition scan_proc :: "'c callback \<Rightarrow> (string, proc_entry option list) result \<Rightarrow> ('c ThreadTracker, BpfError, unit) stm" where
  "scan_proc callback proc_dir =
    (case proc_dir of
       Inl e \<Rightarrow> throw (MapError (''failed to read /proc: '' @ e))
     | Inr entries \<Rightarrow>
         modify (\<lambda>t. t\<lparr>tt_cb := fold (\<lambda>msg c. snd (callback msg c)) (concat (map scan_entry entries)) (tt_cb t)\<rparr>))"

text \<open>
  Consuming, or polling, the ring buffer after the first scan; \<open>ring\<close> is the call of the ring buffer,
  which runs the event handler.
\<close>

definition consume_with ::
  "string \<Rightarrow> 'c callback \<Rightarrow> (string, proc_entry option list) result \<Rightarrow> ('c ThreadTracker, string, unit) stm \<Rightarrow>
    ('c ThreadTracker, BpfError, unit) stm" where
  "consume_with what callback proc_dir ring =
    try_bind
      (try_bind (gets proc_scanned) (\<lambda>scanned.
       if scanned then ret ()
       else try_bind (scan_proc callback proc_dir) (\<lambda>_. modify (\<lambda>t. t\<lparr>proc_scanned := True\<rparr>))))
      (\<lambda>_. map_err (\<lambda>e. MapError (''failed to '' @ what @ '' ring buffer: '' @ e)) ring)"

definition thread_consume ::
  "'c callback \<Rightarrow> (string, proc_entry option list) result \<Rightarrow> ('c ThreadTracker, string, unit) stm \<Rightarrow> ('c ThreadTracker, BpfError, unit) stm" where
  "thread_consume = consume_with ''consume''"

definition thread_poll ::
  "'c callback \<Rightarrow> (string, proc_entry option list) result \<Rightarrow> ('c ThreadTracker, string, unit) stm \<Rightarrow> ('c ThreadTracker, BpfError, unit) stm" where
  "thread_poll = consume_with ''poll''"

definition ThreadTracker_new :: "'w libbpf \<Rightarrow> ThreadTrackerConfig \<Rightarrow> 'c \<Rightarrow> ('w, BpfError, 'c ThreadTracker) stm" where
  "ThreadTracker_new lb cfg c =
    try_bind (open_skel lb) (\<lambda>_.
    try_bind (set_ring_size lb (thread_ringbuf cfg)) (\<lambda>_.
    try_bind (load_skel lb) (\<lambda>_.
    try_bind (attach_skel lb) (\<lambda>_.
    try_bind (add_ring lb) (\<lambda>_.
    ret \<lparr>proc_scanned = False, tt_cb = c\<rparr>)))))"

section \<open>Properties\<close>

text \<open>
  The documented behaviour of the string helpers: the target holds the source, cut to leave room for the
  terminator, and nothing is written behind the terminator.
\<close>

definition copies_string :: "read_str \<Rightarrow> bool" where
  "copies_string read_str \<longleftrightarrow>
    (\<forall>dst src. dst \<noteq> [] \<longrightarrow> (let s = take (length dst - 1) (takeWhile (\<lambda>b. b \<noteq> 0) src) in
      read_str dst src = s @ 0 # drop (length s + 1) dst))"

lemma c_str_copied:
  assumes copies: "copies_string read_str" and ne: "dst \<noteq> []"
  shows "takeWhile (\<lambda>b. b \<noteq> 0) (read_str dst src) = take (length dst - 1) (takeWhile (\<lambda>b. b \<noteq> 0) src)"
proof -
  define s where "s = take (length dst - 1) (takeWhile (\<lambda>b. b \<noteq> 0) src)"
  have "b \<noteq> 0" if "b \<in> set s" for b
    using that set_takeWhileD [of b "\<lambda>b. b \<noteq> 0" src] in_set_takeD unfolding s_def by metis
  then have "takeWhile (\<lambda>b. b \<noteq> 0) (s @ 0 # xs) = s" for xs by (subst takeWhile_append2) auto
  moreover have "read_str dst src = s @ 0 # drop (length s + 1) dst"
    using copies ne unfolding copies_string_def s_def Let_def by blast
  ultimately show ?thesis unfolding s_def [symmetric] by simp
qed

text \<open>The name that the kernel's buffer leaves of a string.\<close>

definition short_name :: "nat \<Rightarrow> u8 list \<Rightarrow> u8 list" where
  "short_name n s = take (n - 1) (takeWhile (\<lambda>b. b \<noteq> 0) s)"

lemma c_str_simps: "copies_string read_str \<Longrightarrow> dst \<noteq> [] \<Longrightarrow>
    c_str (read_str dst src) = (let s = short_name (length dst) src in if utf8_valid s then Some (to_str s) else None)"
  by (simp add: c_str_def c_str_copied short_name_def Let_def)

lemma to_str_Nil [simp]: "to_str bs = [] \<longleftrightarrow> bs = []"
  by (simp add: to_str_def)


definition copy_str :: read_str where
  "copy_str dst src = (let s = take (length dst - 1) (takeWhile (\<lambda>b. b \<noteq> 0) src) in s @ 0 # drop (length s + 1) dst)"

lemma copy_str_copies: "copies_string copy_str"
  by (simp add: copies_string_def copy_str_def)

definition clear_record :: ThreadEvent where
  "clear_record = \<lparr>te_pid = 0, te_tgid = 0, te_comm = replicate 16 0, te_filename = replicate 256 0\<rparr>"


text \<open>
  C27: A thread event in a record that is not clear is misread: the programs for new and renamed threads
  leave the file name of the record as they find it, so when the memory still holds the file name of an
  earlier program, the thread's process is reported under that name and the thread's own name is lost;
  and a thread name that is not valid UTF-8 makes the handler panic.
\<close>

theorem thread_event_misread:
  assumes helper: "copies_string read_str" and len: "length (te_comm e) = 16"
    and stale: "c_str (te_filename e) = Some name"
  shows "(name \<noteq> [] \<longrightarrow> Option.bind (handle_sched_wakeup_new read_str (Some e) pid tgid comm) thread_message = Some (process_track_msg name tgid)) \<and>
    (name = [] \<longrightarrow> \<not> utf8_valid (short_name 16 comm) \<longrightarrow>
      Option.bind (handle_sched_wakeup_new read_str (Some e) pid tgid comm) (\<lambda>ev. on_thread_event callback ev c) = None)"
proof -
  have "te_comm e \<noteq> []" using len by auto
  from c_str_simps [OF helper this] len stale show ?thesis
    by (simp add: handle_sched_wakeup_new_def on_thread_event_def thread_message_def filename_str_def comm_str_def Let_def)
qed

theorem thread_event_misread_witness:
  "Option.bind (handle_sched_wakeup_new copy_str (Some (clear_record\<lparr>te_filename := 47 # 97 # replicate 254 0\<rparr>)) 7 3 [116, 49]) thread_message =
    Some (process_track_msg ''/a'' 3)"
proof -
  have "c_str (47 # 97 # replicate 254 0) = Some ''/a''" by code_simp
  with thread_event_misread [OF copy_str_copies, of "clear_record\<lparr>te_filename := 47 # 97 # replicate 254 0\<rparr>" "''/a''" 7 3 "[116, 49]"]
  show ?thesis by (simp add: clear_record_def)
qed



end
