(* ===== verification/SchedTrace.thy ===== *)
theory SchedTrace
  imports BpfCommon
begin

text \<open>
  Scheduler spans: the BPF programs that follow every task through running, blocked and runnable
  (bpf/src/bpf/schedtrace.bpf.c) and the user space half that turns the intervals into spans
  (bpf/src/schedtrace.rs).

  The table of task states evicts entries by itself when it is full: eviction is an event of its own.
  The clock, the processor, the room in the ring buffer, the filter lookup, the captured stack and
  whether an insertion succeeds are arguments; so are the kernel symboliser and the random numbers.
\<close>

section \<open>Definitions\<close>

subsection \<open>The BPF programs\<close>

datatype sched_event_type = SCHED_EVENT_RUNNING | SCHED_EVENT_BLOCKED | SCHED_EVENT_RUNNABLE

datatype tracked_task_state = TRACKED_TASK_UNKNOWN | TRACKED_TASK_RUNNING | TRACKED_TASK_BLOCKED | TRACKED_TASK_RUNNABLE

datatype runnable_reason = RUNNABLE_REASON_NONE | RUNNABLE_REASON_PREEMPTED | RUNNABLE_REASON_STILL_RUNNING | RUNNABLE_REASON_WAKEUP

record SchedSpanEvent =
  ss_pid :: u32
  ss_tid :: u32
  ss_start_time :: u64
  ss_end_time :: u64
  ss_cpu :: u32
  ss_event_type :: sched_event_type
  ss_frame :: u64
  ss_reason :: runnable_reason
  ss_task_state :: u32

record task_state =
  state_timestamp :: u64
  ts_frame :: u64
  ts_tgid :: u32
  ts_cpu :: u32
  ts_state :: tracked_task_state
  ts_reason :: runnable_reason
  ts_task_state :: u32
  ts_exiting :: bool

record senv =
  s_now :: u64
  s_cpu :: u32
  s_reserve :: bool
  s_filter_enabled :: bool
  s_tracked :: "u32 \<Rightarrow> bool"
  s_stack :: "i64 \<times> u64"
  s_update :: bool

type_synonym task_states = "u32 \<rightharpoonup> task_state"

text \<open>A task is its pid and tgid; a null pointer is \<open>None\<close>.\<close>

type_synonym task = "(u32 \<times> u32) option"

definition sched_should_track :: "senv \<Rightarrow> u32 \<Rightarrow> bool" where
  "sched_should_track k tgid = (if \<not> s_filter_enabled k then True else if tgid = 0 then False else s_tracked k tgid)"

definition emit_span ::
  "senv \<Rightarrow> u32 \<Rightarrow> u32 \<Rightarrow> u64 \<Rightarrow> u64 \<Rightarrow> u32 \<Rightarrow> sched_event_type \<Rightarrow> u64 \<Rightarrow> runnable_reason \<Rightarrow> u32 \<Rightarrow> SchedSpanEvent list" where
  "emit_span k tgid tid start_time end_time cpu event_type frame reason task_state =
    (if start_time = 0 \<or> start_time \<ge> end_time then []
     else if \<not> s_reserve k then []
     else [\<lparr>ss_pid = tgid, ss_tid = tid, ss_start_time = start_time, ss_end_time = end_time, ss_cpu = cpu,
       ss_event_type = event_type, ss_frame = frame, ss_reason = reason, ss_task_state = task_state\<rparr>])"

definition capture_blocking_frame :: "senv \<Rightarrow> u64" where
  "capture_blocking_frame k = (case s_stack k of (n, frame) \<Rightarrow> if n = 8 then frame else 0)"

definition map_update :: "senv \<Rightarrow> u32 \<Rightarrow> task_state \<Rightarrow> task_states \<Rightarrow> task_states" where
  "map_update k tid st m = (if s_update k then m(tid \<mapsto> st) else m)"

definition handle_task_off_cpu ::
  "senv \<Rightarrow> task \<Rightarrow> u64 \<Rightarrow> bool \<Rightarrow> u32 \<Rightarrow> task_states \<Rightarrow> SchedSpanEvent list \<times> task_states" where
  "handle_task_off_cpu k task now preempt prev_state m =
    (case task of
       None \<Rightarrow> ([], m)
     | Some (tid, tgid) \<Rightarrow>
         if tid = 0 \<or> \<not> sched_should_track k tgid then ([], m)
         else
           let out = (case m tid of
                 Some st \<Rightarrow>
                   if ts_state st = TRACKED_TASK_RUNNING
                   then emit_span k tgid tid (state_timestamp st) now (ts_cpu st) SCHED_EVENT_RUNNING 0 RUNNABLE_REASON_NONE 0
                   else []
               | None \<Rightarrow> []);
               runnable = (preempt \<or> prev_state = 0);
               new_state = \<lparr>state_timestamp = now, ts_frame = (if runnable then 0 else capture_blocking_frame k), ts_tgid = tgid,
                 ts_cpu = s_cpu k, ts_state = (if runnable then TRACKED_TASK_RUNNABLE else TRACKED_TASK_BLOCKED),
                 ts_reason = (if runnable then (if preempt then RUNNABLE_REASON_PREEMPTED else RUNNABLE_REASON_STILL_RUNNING)
                   else RUNNABLE_REASON_NONE),
                 ts_task_state = (if runnable then 0 else prev_state), ts_exiting = False\<rparr> in
           case m tid of
             Some st \<Rightarrow> if ts_exiting st then (out, m(tid := None)) else (out, m(tid \<mapsto> new_state))
           | None \<Rightarrow> (out, map_update k tid new_state m))"

definition running_state :: "senv \<Rightarrow> u64 \<Rightarrow> u32 \<Rightarrow> bool \<Rightarrow> task_state" where
  "running_state k now tgid exiting = \<lparr>state_timestamp = now, ts_frame = 0, ts_tgid = tgid, ts_cpu = s_cpu k,
    ts_state = TRACKED_TASK_RUNNING, ts_reason = RUNNABLE_REASON_NONE, ts_task_state = 0, ts_exiting = exiting\<rparr>"

definition handle_task_on_cpu :: "senv \<Rightarrow> task \<Rightarrow> u64 \<Rightarrow> task_states \<Rightarrow> SchedSpanEvent list \<times> task_states" where
  "handle_task_on_cpu k task now m =
    (case task of
       None \<Rightarrow> ([], m)
     | Some (tid, tgid) \<Rightarrow>
         if tid = 0 \<or> \<not> sched_should_track k tgid then ([], m)
         else
           case m tid of
             Some st \<Rightarrow>
               (if ts_state st = TRACKED_TASK_RUNNABLE
                then emit_span k tgid tid (state_timestamp st) now (s_cpu k) SCHED_EVENT_RUNNABLE 0 (ts_reason st) 0
                else if ts_state st = TRACKED_TASK_BLOCKED
                then emit_span k tgid tid (state_timestamp st) now (ts_cpu st) SCHED_EVENT_BLOCKED (ts_frame st) RUNNABLE_REASON_NONE (ts_task_state st)
                else [],
                m(tid \<mapsto> running_state k now tgid False))
           | None \<Rightarrow> ([], map_update k tid (running_state k now tgid False) m))"

definition handle_task_wakeup :: "senv \<Rightarrow> task \<Rightarrow> u64 \<Rightarrow> task_states \<Rightarrow> SchedSpanEvent list \<times> task_states" where
  "handle_task_wakeup k task now m =
    (case task of
       None \<Rightarrow> ([], m)
     | Some (tid, tgid) \<Rightarrow>
         if tid = 0 \<or> \<not> sched_should_track k tgid then ([], m)
         else
           case m tid of
             Some st \<Rightarrow>
               if ts_state st \<noteq> TRACKED_TASK_BLOCKED then ([], m)
               else
                 (emit_span k tgid tid (state_timestamp st) now (ts_cpu st) SCHED_EVENT_BLOCKED (ts_frame st) RUNNABLE_REASON_NONE (ts_task_state st),
                  m(tid \<mapsto> st\<lparr>state_timestamp := now, ts_frame := 0, ts_state := TRACKED_TASK_RUNNABLE,
                      ts_reason := RUNNABLE_REASON_WAKEUP, ts_task_state := 0\<rparr>))
           | None \<Rightarrow> ([], map_update k tid \<lparr>state_timestamp = now, ts_frame = 0, ts_tgid = tgid, ts_cpu = s_cpu k,
               ts_state = TRACKED_TASK_RUNNABLE, ts_reason = RUNNABLE_REASON_WAKEUP, ts_task_state = 0, ts_exiting = False\<rparr> m))"

definition sched_switch :: "senv \<Rightarrow> bool \<Rightarrow> task \<Rightarrow> task \<Rightarrow> u32 \<Rightarrow> task_states \<Rightarrow> SchedSpanEvent list \<times> task_states" where
  "sched_switch k preempt prev nxt prev_state m =
    (let now = s_now k;
         (out1, m1) = handle_task_off_cpu k prev now preempt prev_state m;
         (out2, m2) = handle_task_on_cpu k nxt now m1 in
     (out1 @ out2, m2))"

definition sched_wakeup :: "senv \<Rightarrow> task \<Rightarrow> task_states \<Rightarrow> SchedSpanEvent list \<times> task_states" where
  "sched_wakeup k task m = handle_task_wakeup k task (s_now k) m"

definition sched_process_exit :: "senv \<Rightarrow> task \<Rightarrow> task_states \<Rightarrow> SchedSpanEvent list \<times> task_states" where
  "sched_process_exit k task m =
    (case task of
       None \<Rightarrow> ([], m)
     | Some (tid, tgid) \<Rightarrow>
         if tid = 0 \<or> \<not> sched_should_track k tgid then ([], m)
         else
           case m tid of
             Some st \<Rightarrow> ([], m(tid \<mapsto> st\<lparr>ts_exiting := True\<rparr>))
           | None \<Rightarrow> ([], map_update k tid (running_state k (s_now k) tgid True) m))"

subsection \<open>The user space half\<close>

record SchedTraceConfig =
  sched_pid_filters :: "i32 list"
  sched_filter_process :: "string list"
  sched_ringbuf :: usize

definition sched_default_ringbuf :: usize where "sched_default_ringbuf = 2 * 1024 * 1024"

definition reason_label :: "runnable_reason \<Rightarrow> string option" where
  "reason_label reason =
    (case reason of
       RUNNABLE_REASON_PREEMPTED \<Rightarrow> Some ''preempted''
     | RUNNABLE_REASON_STILL_RUNNING \<Rightarrow> Some ''still_running''
     | RUNNABLE_REASON_WAKEUP \<Rightarrow> Some ''wakeup''
     | RUNNABLE_REASON_NONE \<Rightarrow> None)"

text \<open>The symboliser returns a list of results, in which an unknown address is \<open>None\<close>.\<close>

definition resolve_kernel_symbol :: "(u64 \<Rightarrow> (string, string option list) result) \<Rightarrow> u64 \<Rightarrow> string option" where
  "resolve_kernel_symbol symbolizer addr =
    (case symbolizer addr of
       Inr results \<Rightarrow> (case filter (\<lambda>r. r \<noteq> None) results of [] \<Rightarrow> None | r # _ \<Rightarrow> r)
     | Inl e \<Rightarrow> None)"

definition span_name_of :: "(u64 \<Rightarrow> (string, string option list) result) \<Rightarrow> SchedSpanEvent \<Rightarrow> string" where
  "span_name_of symbolizer e =
    (case ss_event_type e of
       SCHED_EVENT_BLOCKED \<Rightarrow>
         if ss_frame e \<noteq> 0 then
           (case resolve_kernel_symbol symbolizer (ss_frame e) of
              Some name \<Rightarrow> ''blocked ['' @ name @ '']''
            | None \<Rightarrow> ''blocked [0x'' @ hex_nat (unat (ss_frame e)) @ '']'')
         else ''blocked''
     | SCHED_EVENT_RUNNABLE \<Rightarrow> ''runnable''
     | SCHED_EVENT_RUNNING \<Rightarrow> ''running'')"

definition sched_labels :: "SchedSpanEvent \<Rightarrow> Labels" where
  "sched_labels e =
    (let l1 = Labels_new\<lparr>ints := hm_insert ''cpu'' (ucast (ss_cpu e)) (ints Labels_new)\<rparr>;
         l2 = (if ss_event_type e = SCHED_EVENT_BLOCKED then l1\<lparr>ints := hm_insert ''task_state'' (ucast (ss_task_state e)) (ints l1)\<rparr> else l1) in
     case reason_label (ss_reason e) of
       Some reason \<Rightarrow> l2\<lparr>strings := hm_insert ''reason'' reason (strings l2)\<rparr>
     | None \<Rightarrow> l2)"

record 'c schedtrace =
  thread_track_ids :: "((i32 \<times> i32) \<times> u64) list"
  sched_drawn :: nat
  sched_cb :: 'c

definition scheduler_track :: "u64 \<Rightarrow> i32 \<Rightarrow> i32 \<Rightarrow> Message" where
  "scheduler_track i tid pid = Message_Event (Event_Track \<lparr>track_name = ''scheduler'', track_type = TrackType_Custom i,
    track_parent = Some (TrackType_Thread tid pid)\<rparr>)"

definition on_sched_event ::
  "(u64 \<Rightarrow> (string, string option list) result) \<Rightarrow> (nat \<Rightarrow> u64) \<Rightarrow> 'c callback \<Rightarrow> SchedSpanEvent \<Rightarrow> 'c schedtrace \<Rightarrow> i32 \<times> 'c schedtrace" where
  "on_sched_event symbolizer rng callback e s =
    (let key = (ss_pid e, ss_tid e);
         (i, s1) = (case hm_get (thread_track_ids s) key of
             Some i \<Rightarrow> (i, s)
           | None \<Rightarrow>
               let i = rng (sched_drawn s) in
               (i, s\<lparr>thread_track_ids := hm_insert key i (thread_track_ids s), sched_drawn := sched_drawn s + 1,
                     sched_cb := snd (callback (scheduler_track i (ss_tid e) (ss_pid e)) (sched_cb s))\<rparr>));
         span = \<lparr>span_name = span_name_of symbolizer e, span_id = ss_start_time e, start_timestamp = ss_start_time e,
           end_timestamp = ss_end_time e, span_track_id = TrackId_Custom i, span_labels = sched_labels e\<rparr>;
         (result, c) = callback (Message_Event (Event_Span span)) (sched_cb s1) in
     (result, s1\<lparr>sched_cb := c\<rparr>))"

definition SchedTrace_new :: "'w libbpf \<Rightarrow> SchedTraceConfig \<Rightarrow> ('w, BpfError, unit) stm" where
  "SchedTrace_new lb cfg =
    try_bind (open_skel lb) (\<lambda>_.
    try_bind (set_ring_size lb (sched_ringbuf cfg)) (\<lambda>_.
    try_bind (modify (lb_rodata lb ''filter_enabled'' (if sched_pid_filters cfg \<noteq> [] \<or> sched_filter_process cfg \<noteq> [] then 1 else 0))) (\<lambda>_.
    try_bind (load_skel lb) (\<lambda>_.
    try_bind (update_filters lb ''tracked_tgids'' (sched_pid_filters cfg)) (\<lambda>_.
    try_bind (attach_skel lb) (\<lambda>_.
    add_ring lb))))))"

definition sched_add_pid_filter :: "'w libbpf \<Rightarrow> u32 \<Rightarrow> ('w, BpfError, unit) stm" where
  "sched_add_pid_filter lb pid = map_err (\<lambda>e. MapError (''failed to add PID filter: '' @ e)) (lb_update lb ''tracked_tgids'' pid 1)"

section \<open>Runs of the programs\<close>

datatype sevent = S_Switch bool task task u32 | S_Wakeup task | S_Exit task | S_Evict u32

definition sched_step :: "senv \<times> sevent \<Rightarrow> task_states \<Rightarrow> SchedSpanEvent list \<times> task_states" where
  "sched_step = (\<lambda>(k, ev) m. case ev of
      S_Switch preempt prev nxt prev_state \<Rightarrow> sched_switch k preempt prev nxt prev_state m
    | S_Wakeup task \<Rightarrow> sched_wakeup k task m
    | S_Exit task \<Rightarrow> sched_process_exit k task m
    | S_Evict tid \<Rightarrow> ([], m(tid := None)))"

primrec sched_run :: "(senv \<times> sevent) list \<Rightarrow> task_states \<Rightarrow> SchedSpanEvent list" where
  "sched_run [] m = []"
| "sched_run (x # xs) m = (case sched_step x m of (out, m') \<Rightarrow> out @ sched_run xs m')"

section \<open>The spans of a task\<close>

text \<open>
  \<open>lst\<close> holds the end of the last span of every task.  A list of spans is good after it when every span has
  positive length and starts no earlier than the one of the same task before it ended.
\<close>

definition upd_last :: "SchedSpanEvent list \<Rightarrow> (u32 \<Rightarrow> u64) \<Rightarrow> u32 \<Rightarrow> u64" where
  "upd_last es lst = fold (\<lambda>e l. l(ss_tid e := ss_end_time e)) es lst"

primrec good :: "(u32 \<Rightarrow> u64) \<Rightarrow> SchedSpanEvent list \<Rightarrow> bool" where
  "good lst [] = True"
| "good lst (e # es) \<longleftrightarrow> ss_start_time e < ss_end_time e \<and> lst (ss_tid e) \<le> ss_start_time e \<and> good (lst(ss_tid e := ss_end_time e)) es"

lemma good_append: "good lst (xs @ ys) \<longleftrightarrow> good lst xs \<and> good (upd_last xs lst) ys"
  by (induction xs arbitrary: lst) (simp_all add: upd_last_def)

lemma upd_last_append: "upd_last (xs @ ys) lst = upd_last ys (upd_last xs lst)"
  by (simp add: upd_last_def)

lemma good_ordered:
  "good lst es \<Longrightarrow> sorted_wrt (\<lambda>a b. ss_tid a = ss_tid b \<longrightarrow> ss_end_time a \<le> ss_start_time b) es \<and>
    (\<forall>e\<in>set es. ss_start_time e < ss_end_time e \<and> lst (ss_tid e) \<le> ss_start_time e)"
proof (induction es arbitrary: lst)
  case (Cons e es)
  have g: "good (lst(ss_tid e := ss_end_time e)) es" using Cons.prems by simp
  have ih: "sorted_wrt (\<lambda>a b. ss_tid a = ss_tid b \<longrightarrow> ss_end_time a \<le> ss_start_time b) es"
      "\<forall>x\<in>set es. ss_start_time x < ss_end_time x \<and> (lst(ss_tid e := ss_end_time e)) (ss_tid x) \<le> ss_start_time x"
    using Cons.IH [OF g] by blast+
  then have "\<forall>x\<in>set es. ss_tid e = ss_tid x \<longrightarrow> ss_end_time e \<le> ss_start_time x" by auto
  moreover have "lst (ss_tid x) \<le> ss_start_time x" if "x \<in> set es" for x
  proof (cases "ss_tid x = ss_tid e")
    case True
    then have "ss_end_time e \<le> ss_start_time x" using ih(2) that by auto
    then show ?thesis using Cons.prems True by (auto intro: order_trans less_imp_le)
  next
    case False
    then show ?thesis using ih(2) that by auto
  qed
  ultimately show ?case using ih Cons.prems by auto
qed simp

definition task_inv :: "u64 \<Rightarrow> (u32 \<Rightarrow> u64) \<Rightarrow> task_states \<Rightarrow> bool" where
  "task_inv t lst m \<longleftrightarrow> (\<forall>tid. lst tid \<le> t) \<and>
    (\<forall>tid st. m tid = Some st \<longrightarrow> state_timestamp st \<le> t \<and> lst tid \<le> state_timestamp st)"

lemma task_inv_later: "task_inv t lst m \<Longrightarrow> t \<le> t' \<Longrightarrow> task_inv t' lst m"
  unfolding task_inv_def by (meson order_trans)

lemma task_inv_set:
  "task_inv t lst m \<Longrightarrow> state_timestamp st = t \<Longrightarrow> task_inv t lst (m(tid \<mapsto> st))"
  by (simp add: task_inv_def)

lemma task_inv_del: "task_inv t lst m \<Longrightarrow> task_inv t lst (m(tid := None))"
  by (simp add: task_inv_def)

lemma task_inv_update: "task_inv t lst m \<Longrightarrow> state_timestamp st = t \<Longrightarrow> task_inv t lst (map_update k tid st m)"
  by (simp add: map_update_def task_inv_set)

text \<open>A span of a task from its last transition to now, after which the task has no older transition.\<close>

lemma emit_span_good:
  assumes inv: "task_inv now lst m" and st: "m tid = Some st"
    and out: "out = emit_span k tgid tid (state_timestamp st) now cpu ty fr re ts"
  shows "good lst out" "state_timestamp st' = now \<Longrightarrow> task_inv now (upd_last out lst) (m(tid \<mapsto> st'))"
    "task_inv now (upd_last out lst) (m(tid := None))"
proof -
  have b: "\<And>i. lst i \<le> now" "lst tid \<le> state_timestamp st"
    "\<And>i s. m i = Some s \<Longrightarrow> state_timestamp s \<le> now \<and> lst i \<le> state_timestamp s"
    using inv st by (auto simp: task_inv_def)
  show "good lst out" using b by (auto simp: out emit_span_def)
  show "state_timestamp st' = now \<Longrightarrow> task_inv now (upd_last out lst) (m(tid \<mapsto> st'))" "task_inv now (upd_last out lst) (m(tid := None))"
    using b by (auto simp: out emit_span_def upd_last_def task_inv_def)
qed

lemma off_cpu_inv:
  assumes inv: "task_inv now lst m" and run: "handle_task_off_cpu k task now preempt ps m = (out, m')"
  shows "good lst out \<and> task_inv now (upd_last out lst) m'"
proof (cases "\<exists>tid tgid. task = Some (tid, tgid) \<and> tid \<noteq> 0 \<and> sched_should_track k tgid")
  case False
  then show ?thesis using inv run by (auto simp: handle_task_off_cpu_def upd_last_def split: option.splits prod.splits if_splits)
next
  case True
  then obtain tid tgid where task: "task = Some (tid, tgid)" "tid \<noteq> 0" "sched_should_track k tgid" by blast
  show ?thesis
  proof (cases "m tid")
    case None
    then show ?thesis using inv run task
      by (auto simp: handle_task_off_cpu_def Let_def upd_last_def intro: task_inv_update)
  next
    case (Some st)
    show ?thesis
    proof (cases "ts_state st = TRACKED_TASK_RUNNING")
      case True
      from run task Some True have "out = emit_span k tgid tid (state_timestamp st) now (ts_cpu st) SCHED_EVENT_RUNNING 0 RUNNABLE_REASON_NONE 0"
        by (auto simp: handle_task_off_cpu_def Let_def split: if_splits)
      note g = emit_span_good [OF inv Some this]
      show ?thesis using run task Some True g by (auto simp: handle_task_off_cpu_def Let_def split: if_splits)
    next
      case False
      then show ?thesis using inv run task Some
        by (auto simp: handle_task_off_cpu_def Let_def upd_last_def intro: task_inv_set task_inv_del split: if_splits)
    qed
  qed
qed

lemma on_cpu_inv:
  assumes inv: "task_inv now lst m" and run: "handle_task_on_cpu k task now m = (out, m')"
  shows "good lst out \<and> task_inv now (upd_last out lst) m'"
proof (cases "\<exists>tid tgid. task = Some (tid, tgid) \<and> tid \<noteq> 0 \<and> sched_should_track k tgid")
  case False
  then show ?thesis using inv run by (auto simp: handle_task_on_cpu_def upd_last_def split: option.splits prod.splits if_splits)
next
  case True
  then obtain tid tgid where task: "task = Some (tid, tgid)" "tid \<noteq> 0" "sched_should_track k tgid" by blast
  show ?thesis
  proof (cases "m tid")
    case None
    then show ?thesis using inv run task
      by (auto simp: handle_task_on_cpu_def upd_last_def running_state_def intro: task_inv_update)
  next
    case (Some st)
    note g = emit_span_good [OF inv Some refl]
    have "state_timestamp (running_state k now tgid False) = now" by (simp add: running_state_def)
    then show ?thesis using run task Some g inv
      by (auto simp: handle_task_on_cpu_def upd_last_def intro: task_inv_set split: if_splits)
  qed
qed

lemma wakeup_inv:
  assumes inv: "task_inv now lst m" and run: "handle_task_wakeup k task now m = (out, m')"
  shows "good lst out \<and> task_inv now (upd_last out lst) m'"
proof (cases "\<exists>tid tgid. task = Some (tid, tgid) \<and> tid \<noteq> 0 \<and> sched_should_track k tgid")
  case False
  then show ?thesis using inv run by (auto simp: handle_task_wakeup_def upd_last_def split: option.splits prod.splits if_splits)
next
  case True
  then obtain tid tgid where task: "task = Some (tid, tgid)" "tid \<noteq> 0" "sched_should_track k tgid" by blast
  show ?thesis
  proof (cases "m tid")
    case None
    then show ?thesis using inv run task by (auto simp: handle_task_wakeup_def upd_last_def intro: task_inv_update)
  next
    case (Some st)
    note g = emit_span_good [OF inv Some refl]
    show ?thesis using run task Some g inv by (auto simp: handle_task_wakeup_def upd_last_def split: if_splits)
  qed
qed

lemma exit_inv:
  assumes inv: "task_inv (s_now k) lst m" and run: "sched_process_exit k task m = (out, m')"
  shows "good lst out \<and> task_inv (s_now k) (upd_last out lst) m'"
  using inv run
  by (auto simp: sched_process_exit_def upd_last_def running_state_def task_inv_def map_update_def split: option.splits prod.splits if_splits)

lemma sched_step_inv:
  assumes inv: "task_inv t lst m" and t: "t \<le> s_now k" and step: "sched_step (k, ev) m = (out, m')"
  shows "good lst out \<and> task_inv (s_now k) (upd_last out lst) m'"
proof -
  note now = task_inv_later [OF inv t]
  show ?thesis
  proof (cases ev)
    case (S_Switch preempt prev nxt ps)
    obtain out1 m1 where off: "handle_task_off_cpu k prev (s_now k) preempt ps m = (out1, m1)" by fastforce
    obtain out2 m2 where on: "handle_task_on_cpu k nxt (s_now k) m1 = (out2, m2)" by fastforce
    note a = off_cpu_inv [OF now off]
    note b = on_cpu_inv [OF conjunct2 [OF a] on]
    show ?thesis using S_Switch step off on a b by (auto simp: sched_step_def sched_switch_def good_append upd_last_append)
  next
    case (S_Wakeup task)
    then show ?thesis using step wakeup_inv [OF now] by (simp add: sched_step_def sched_wakeup_def)
  next
    case (S_Exit task)
    then show ?thesis using step exit_inv [OF now] by (simp add: sched_step_def)
  next
    case (S_Evict tid)
    then show ?thesis using step task_inv_del [OF now] by (auto simp: sched_step_def upd_last_def)
  qed
qed

lemma sched_run_good:
  "task_inv t lst m \<Longrightarrow> sorted (t # map (s_now \<circ> fst) xs) \<Longrightarrow> good lst (sched_run xs m)"
proof (induction xs arbitrary: t lst m)
  case (Cons x xs)
  obtain k ev where x: "x = (k, ev)" by fastforce
  obtain out m' where step: "sched_step (k, ev) m = (out, m')" by fastforce
  have "good lst out \<and> task_inv (s_now k) (upd_last out lst) m'"
    using Cons.prems x by (intro sched_step_inv [OF Cons.prems(1) _ step]) simp
  then show ?case using Cons.IH [of "s_now k" "upd_last out lst" m'] Cons.prems(2) x step by (simp add: good_append)
qed simp

section \<open>The messages\<close>

text \<open>
  Every span in the log is on a custom track declared before it as the scheduler track of a thread, the
  one recorded for the thread in the table.
\<close>

definition sched_log_inv :: "Message list schedtrace \<Rightarrow> bool" where
  "sched_log_inv s \<longleftrightarrow>
    (\<forall>pid tid i. hm_get (thread_track_ids s) (pid, tid) = Some i \<longrightarrow> scheduler_track i tid pid \<in> set (sched_cb s)) \<and>
    (\<forall>n<length (sched_cb s). \<forall>sp. sched_cb s ! n = Message_Event (Event_Span sp) \<longrightarrow>
      (\<exists>i tid pid. span_track_id sp = TrackId_Custom i \<and> scheduler_track i tid pid \<in> set (take n (sched_cb s))))"

lemma on_sched_event_inv:
  assumes inv: "sched_log_inv s"
  shows "sched_log_inv (snd (on_sched_event symbolizer rng (\<lambda>msg log. (f msg log, log @ [msg])) e s))"
proof -
  define P where "P before msg \<longleftrightarrow> (\<forall>sp. msg = Message_Event (Event_Span sp) \<longrightarrow>
      (\<exists>i tid pid. span_track_id sp = TrackId_Custom i \<and> scheduler_track i tid pid \<in> set before))" for before msg
  have P: "sched_log_inv s' \<longleftrightarrow>
      (\<forall>pid tid i. hm_get (thread_track_ids s') (pid, tid) = Some i \<longrightarrow> scheduler_track i tid pid \<in> set (sched_cb s')) \<and>
      (\<forall>n<length (sched_cb s'). P (take n (sched_cb s')) (sched_cb s' ! n))" for s'
    by (simp add: sched_log_inv_def P_def)
  let ?key = "(ss_pid e, ss_tid e)"
  have step: "sched_log_inv (s'\<lparr>sched_cb := sched_cb s' @ [msg]\<rparr>)" if "sched_log_inv s'" "P (sched_cb s') msg" for s' msg
    using that unfolding P schedtrace.simps by (auto simp: nth_append less_Suc_eq)
  have track: "P log (scheduler_track i tid pid)" for log i tid pid by (simp add: P_def scheduler_track_def)
  define s1 where "s1 = (case hm_get (thread_track_ids s) ?key of Some i \<Rightarrow> s
    | None \<Rightarrow> s\<lparr>thread_track_ids := hm_insert ?key (rng (sched_drawn s)) (thread_track_ids s), sched_drawn := sched_drawn s + 1,
        sched_cb := sched_cb s @ [scheduler_track (rng (sched_drawn s)) (ss_tid e) (ss_pid e)]\<rparr>)"
  have s1: "sched_log_inv s1"
  proof (cases "hm_get (thread_track_ids s) ?key")
    case None
    have "sched_log_inv (s\<lparr>sched_cb := sched_cb s @ [scheduler_track (rng (sched_drawn s)) (ss_tid e) (ss_pid e)]\<rparr>)"
      by (rule step [OF inv track])
    then show ?thesis using None by (auto simp: s1_def sched_log_inv_def)
  qed (simp add: s1_def inv)
  obtain i where i: "hm_get (thread_track_ids s1) ?key = Some i"
    by (cases "hm_get (thread_track_ids s) ?key") (auto simp: s1_def)
  then have "scheduler_track i (ss_tid e) (ss_pid e) \<in> set (sched_cb s1)" using s1 by (simp add: sched_log_inv_def)
  then have sp: "P (sched_cb s1) (Message_Event (Event_Span \<lparr>span_name = a, span_id = b, start_timestamp = c, end_timestamp = d,
      span_track_id = TrackId_Custom i, span_labels = l\<rparr>))" for a b c d l
    by (auto simp: P_def)
  have "snd (on_sched_event symbolizer rng (\<lambda>msg log. (f msg log, log @ [msg])) e s) = s1\<lparr>sched_cb := sched_cb s1 @
      [Message_Event (Event_Span \<lparr>span_name = span_name_of symbolizer e, span_id = ss_start_time e, start_timestamp = ss_start_time e,
        end_timestamp = ss_end_time e, span_track_id = TrackId_Custom i, span_labels = sched_labels e\<rparr>)]\<rparr>"
    using i by (auto simp: on_sched_event_def Let_def s1_def split: option.splits)
  then show ?thesis using step [OF s1 sp] by simp
qed

lemma sched_events_inv:
  "sched_log_inv s \<Longrightarrow> sched_log_inv (fold (\<lambda>e s. snd (on_sched_event symbolizer rng (\<lambda>msg log. (f msg log, log @ [msg])) e s)) es s)"
  by (induction es arbitrary: s) (simp_all add: on_sched_event_inv)

section \<open>Properties\<close>

text \<open>
  C29: The intervals reported of a task never overlap: for every sequence of switches, wakeups, exits and
  evictions with a clock that does not go back, whatever is filtered and whichever reports are lost
  for lack of room, every interval has positive length and the intervals of one task follow one another
  in time.
\<close>

theorem sched_spans_ordered:
  assumes "sorted (map (s_now \<circ> fst) xs)"
  shows "(\<forall>e\<in>set (sched_run xs Map.empty). ss_start_time e < ss_end_time e) \<and>
    sorted_wrt (\<lambda>a b. ss_tid a = ss_tid b \<longrightarrow> ss_end_time a \<le> ss_start_time b) (sched_run xs Map.empty)"
proof -
  have "task_inv 0 (\<lambda>_. 0) Map.empty" by (simp add: task_inv_def)
  from sched_run_good [OF this, of xs] assms have "good (\<lambda>_. 0) (sched_run xs Map.empty)" by simp
  from good_ordered [OF this] show ?thesis by blast
qed

definition example_senv :: "u64 \<Rightarrow> senv" where
  "example_senv t = \<lparr>s_now = t, s_cpu = 0, s_reserve = True, s_filter_enabled = False, s_tracked = \<lambda>_. False,
    s_stack = (8, 0xabc), s_update = True\<rparr>"

definition example_sched :: "(senv \<times> sevent) list" where
  "example_sched = [(example_senv 10, S_Switch False None (Some (5, 4)) 0), (example_senv 20, S_Switch False (Some (5, 4)) None 1),
    (example_senv 25, S_Wakeup (Some (5, 4))), (example_senv 27, S_Switch False None (Some (5, 4)) 0)]"

theorem sched_spans_ordered_witness:
  "map (\<lambda>e. (ss_start_time e, ss_end_time e)) (sched_run example_sched Map.empty) = [(10, 20), (20, 25), (25, 27)] \<and>
   sorted_wrt (\<lambda>a b. ss_tid a = ss_tid b \<longrightarrow> ss_end_time a \<le> ss_start_time b) (sched_run example_sched Map.empty)"
proof -
  have "sorted (map (s_now \<circ> fst) example_sched)" by (simp add: example_sched_def example_senv_def)
  from sched_spans_ordered [OF this] show ?thesis
    by (simp add: example_sched_def example_senv_def sched_step_def sched_switch_def sched_wakeup_def handle_task_off_cpu_def
        handle_task_on_cpu_def handle_task_wakeup_def sched_should_track_def map_update_def running_state_def emit_span_def Let_def)
qed

text \<open>
  Every scheduler span is on a declared track: whatever status the callback returns, the span of an
  interval is sent after the message that declares its custom track, named \<open>scheduler\<close>, below a thread.
\<close>

theorem sched_spans_declared:
  assumes "log = sched_cb (fold (\<lambda>e s. snd (on_sched_event symbolizer rng (\<lambda>msg log. (f msg log, log @ [msg])) e s)) es
      \<lparr>thread_track_ids = [], sched_drawn = 0, sched_cb = []\<rparr>)"
    and "n < length log" "log ! n = Message_Event (Event_Span sp)"
  shows "\<exists>i tid pid. span_track_id sp = TrackId_Custom i \<and> scheduler_track i tid pid \<in> set (take n log)"
proof -
  have "sched_log_inv \<lparr>thread_track_ids = [], sched_drawn = 0, sched_cb = []\<rparr>" by (simp add: sched_log_inv_def hm_get_def)
  from sched_events_inv [OF this, of symbolizer rng f es] assms show ?thesis by (simp add: sched_log_inv_def)
qed

theorem sched_spans_declared_witness:
  "\<exists>log sp. log = sched_cb (fold (\<lambda>e s. snd (on_sched_event (\<lambda>_. Ok []) (\<lambda>_. 42) (\<lambda>msg log. (0, log @ [msg])) e s))
      (sched_run example_sched Map.empty) \<lparr>thread_track_ids = [], sched_drawn = 0, sched_cb = []\<rparr>) \<and>
    log ! 2 = Message_Event (Event_Span sp) \<and> span_name sp = ''blocked [0xabc]'' \<and>
    (\<exists>i tid pid. span_track_id sp = TrackId_Custom i \<and> scheduler_track i tid pid \<in> set (take 2 log))"
proof -
  let ?log = "sched_cb (fold (\<lambda>e s. snd (on_sched_event (\<lambda>_. Ok []) (\<lambda>_. 42) (\<lambda>msg log. (0, log @ [msg])) e s))
      (sched_run example_sched Map.empty) \<lparr>thread_track_ids = [], sched_drawn = 0, sched_cb = []\<rparr>)"
  let ?sp = "\<lparr>span_name = ''blocked [0xabc]'', span_id = 20, start_timestamp = 20, end_timestamp = 25,
    span_track_id = TrackId_Custom 42, span_labels = \<lparr>strings = [], ints = [(''cpu'', 0), (''task_state'', 1)], bools = [], floats = []\<rparr>\<rparr>"
  have "2 < length ?log" "?log ! 2 = Message_Event (Event_Span ?sp)" by code_simp+
  with sched_spans_declared [OF refl, where symbolizer = "\<lambda>_. Ok []" and rng = "\<lambda>_. 42" and f = "\<lambda>_ _. 0"
      and es = "sched_run example_sched Map.empty" and n = 2 and sp = ?sp]
  show ?thesis by (intro exI [of _ ?log] exI [of _ ?sp]) simp
qed

end
