(* ===== verification/Profiler.thy ===== *)
theory Profiler
  imports BpfCommon InternedSymbolizer
begin

text \<open>
  The sampling profiler: the BPF program that runs at every tick of the CPU clock
  (bpf/src/bpf/profiler.bpf.c) and the user space half that turns the recorded stack ids into interned
  call stacks and samples (bpf/src/profiler.rs).

  The helpers of the kernel are the record \<open>penv\<close>; the table of stacks is the lookup function an event
  is handled with, since the kernel reuses its entries.  The blazesym symboliser and the hash function
  are arguments as in the interning of call stacks.
\<close>

section \<open>Definitions\<close>

subsection \<open>The BPF program\<close>

record PerfEvent =
  pf_timestamp :: u64
  pf_tgid :: u32
  pf_pid :: u32
  pf_cpu_id :: u32
  ustack_id :: i32
  kstack_id :: i32

record profiler_cfg =
  cfg_filter_tgid :: bool
  collect_ustack :: bool
  collect_kstack :: bool

record penv =
  pid_tgid :: u64
  pf_now :: u64
  pf_cpu :: u32
  pf_reserve :: bool
  pf_filter :: "u32 \<Rightarrow> bool"
  get_ustackid :: i32
  get_kstackid :: i32

definition apply_tgid_filter :: "profiler_cfg \<Rightarrow> penv \<Rightarrow> u32 \<Rightarrow> i32" where
  "apply_tgid_filter cfg k tgid = (if \<not> cfg_filter_tgid cfg then 0 else if pf_filter k tgid then 0 else 1)"

definition profiler_perf_event :: "profiler_cfg \<Rightarrow> penv \<Rightarrow> PerfEvent option" where
  "profiler_perf_event cfg k =
    (let tgid = ucast (drop_bit 32 (pid_tgid k)); pid = ucast (pid_tgid k) in
     if pid = 0 then None
     else if 0 <s apply_tgid_filter cfg k tgid then None
     else if \<not> pf_reserve k then None
     else Some \<lparr>pf_timestamp = pf_now k, pf_tgid = tgid, pf_pid = pid, pf_cpu_id = pf_cpu k,
       ustack_id = (if collect_ustack cfg then get_ustackid k else - 1),
       kstack_id = (if collect_kstack cfg then get_kstackid k else - 1)\<rparr>)"

subsection \<open>User space\<close>

record ProfilerConfig =
  prof_frequency :: u64
  kernel_samples :: bool
  user_samples :: bool
  prof_pid_filters :: "i32 list"
  prof_filter_process :: "string list"
  prof_debug_syms :: bool
  prof_perf_map :: bool
  prof_map_files :: bool
  prof_ringbuf :: usize

definition prof_default_frequency :: u64 where "prof_default_frequency = 99"
definition default_user_samples :: bool where "default_user_samples = True"
definition default_debug_syms :: bool where "default_debug_syms = True"
definition default_map_files :: bool where "default_map_files = True"
definition prof_default_ringbuf :: usize where "prof_default_ringbuf = 256 * 1024"

text \<open>
  The lookup fills a buffer of 127 addresses.  It is cut behind the last address that is not zero; a
  stack of zeros only keeps one address.
\<close>

type_synonym stackmap = "i32 \<Rightarrow> u64 list option"

definition rposition :: "('a \<Rightarrow> bool) \<Rightarrow> 'a list \<Rightarrow> nat option" where
  "rposition p xs = (case dropWhile (\<lambda>x. \<not> p x) (rev xs) of [] \<Rightarrow> None | _ # before \<Rightarrow> Some (length before))"

definition get_stack_frames_by_fd :: "stackmap \<Rightarrow> i32 \<Rightarrow> u64 list" where
  "get_stack_frames_by_fd stackmap stack_id =
    (case stackmap stack_id of
       Some fs \<Rightarrow>
         (let last_non_zero = (case rposition (\<lambda>x. x \<noteq> 0) fs of Some i \<Rightarrow> i | None \<Rightarrow> 0) in
          take (last_non_zero + 1) fs)
     | None \<Rightarrow> [])"

definition create_sample :: "PerfEvent \<Rightarrow> u64 \<Rightarrow> Sample" where
  "create_sample e iid = \<lparr>sample_cpu = pf_cpu_id e, sample_track_id = TrackId_Thread (pf_pid e) (pf_tgid e),
    sample_timestamp = pf_timestamp e, sample_callstack_iid = iid, sample_cpu_mode = CpuMode_Unknown\<rparr>"

text \<open>The frames of the two stacks of an event.\<close>

definition user_frames :: "stackmap \<Rightarrow> PerfEvent \<Rightarrow> u64 list" where
  "user_frames sm e = (if 0 \<le>s ustack_id e then get_stack_frames_by_fd sm (ustack_id e) else [])"

definition kernel_frames :: "stackmap \<Rightarrow> PerfEvent \<Rightarrow> u64 list" where
  "kernel_frames sm e = (if 0 \<le>s kstack_id e then get_stack_frames_by_fd sm (kstack_id e) else [])"

type_synonym blazesym = "sym_source \<Rightarrow> u64 list \<Rightarrow> (string, string option list) result"

definition send_sample :: "'c callback \<Rightarrow> StreamId \<Rightarrow> PerfEvent \<Rightarrow> u64 \<times> InternedData option \<Rightarrow> ('c, i32, unit) stm" where
  "send_sample callback sid e = (\<lambda>(iid, data).
    try_bind (case data of Some d \<Rightarrow> emit callback (Message_Stream sid (Event_InternedData d)) | None \<Rightarrow> ret ()) (\<lambda>_.
    emit callback (Message_Stream sid (Event_Sample (create_sample e iid)))))"

definition on_perf_event ::
  "blazesym \<Rightarrow> (u64 list \<Rightarrow> u64) \<Rightarrow> StreamId \<Rightarrow> 'c callback \<Rightarrow> stackmap \<times> PerfEvent \<Rightarrow> Symbolizer \<times> 'c \<Rightarrow> i32 \<times> Symbolizer \<times> 'c" where
  "on_perf_event blaze hash sid callback = (\<lambda>(sm, e) (sz, c).
    let us = user_frames sm e; ks = kernel_frames sm e in
    if us = [] \<and> ks = [] then (0, sz, c)
    else
      case symbolize blaze (sym_cfg sz) (pf_tgid e) us ks of
        Inl err \<Rightarrow> (0, sz, c)
      | Inr r \<Rightarrow>
          (case Interned_data hash r (sym_cache sz) of (out, cache) \<Rightarrow>
             (case status (send_sample callback sid e out c) of (st, c') \<Rightarrow> (st, sz\<lparr>sym_cache := cache\<rparr>, c'))))"

definition process_config :: "ProfilerConfig \<Rightarrow> ProcessConfig" where
  "process_config cfg = \<lparr>debug_syms = prof_debug_syms cfg, perf_map = prof_perf_map cfg, map_files = prof_map_files cfg\<rparr>"

definition Profiler_new :: "'w libbpf \<Rightarrow> ProfilerConfig \<Rightarrow> ('w, BpfError, Symbolizer \<times> unit list) stm" where
  "Profiler_new lb cfg =
    try_bind (open_skel lb) (\<lambda>_.
    try_bind (set_ring_size lb (prof_ringbuf cfg)) (\<lambda>_.
    try_bind (modify (lb_rodata lb ''filter_tgid'' (if prof_pid_filters cfg \<noteq> [] \<or> prof_filter_process cfg \<noteq> [] then 1 else 0))) (\<lambda>_.
    try_bind (modify (lb_rodata lb ''collect_kstack'' (if kernel_samples cfg then 1 else 0))) (\<lambda>_.
    try_bind (modify (lb_rodata lb ''collect_ustack'' (if user_samples cfg then 1 else 0))) (\<lambda>_.
    try_bind (load_skel lb) (\<lambda>_.
    try_bind (update_filters lb ''filter_tgid'' (prof_pid_filters cfg)) (\<lambda>_.
    try_bind (map_err (\<lambda>e. AttachError (''failed to create perf events: '' @ e))
      (perf_event_per_cpu lb PERF_TYPE_SOFTWARE PERF_COUNT_SW_CPU_CLOCK (prof_frequency cfg))) (\<lambda>pefds.
    try_bind (map_err (\<lambda>e. AttachError (''failed to attach perf event: '' @ e)) (attach_perf_event lb pefds)) (\<lambda>links.
    try_bind (map_err (\<lambda>e. LoadError (''failed to add ring buffer: '' @ e)) (lb_ring_add lb)) (\<lambda>_.
    try_bind (map_err (\<lambda>e. LoadError (''failed to build ring buffer: '' @ e)) (lb_ring_build lb)) (\<lambda>_.
    ret (Symbolizer_new (process_config cfg), links))))))))))))"

definition prof_filter :: "'w libbpf \<Rightarrow> i32 \<Rightarrow> ('w, BpfError, unit) stm" where
  "prof_filter lb pid = map_err (\<lambda>e. MapError (''failed to update filter map: '' @ e)) (lb_update lb ''filter_tgid'' pid 1)"

section \<open>The messages of a run\<close>

text \<open>The request an event leads to, when it has frames and they can be symbolised.\<close>

definition request_of :: "blazesym \<Rightarrow> ProcessConfig \<Rightarrow> stackmap \<times> PerfEvent \<Rightarrow> (PerfEvent \<times> Interned) option" where
  "request_of blaze cfg = (\<lambda>(sm, e).
    if user_frames sm e = [] \<and> kernel_frames sm e = [] then None
    else case symbolize blaze cfg (pf_tgid e) (user_frames sm e) (kernel_frames sm e) of Inl _ \<Rightarrow> None | Inr r \<Rightarrow> Some (e, r))"

definition messages_of :: "StreamId \<Rightarrow> PerfEvent \<Rightarrow> u64 \<times> InternedData option \<Rightarrow> Message list" where
  "messages_of sid e = (\<lambda>(iid, data).
    (case data of Some d \<Rightarrow> [Message_Stream sid (Event_InternedData d)] | None \<Rightarrow> []) @
    [Message_Stream sid (Event_Sample (create_sample e iid))])"

definition profile_run ::
  "blazesym \<Rightarrow> (u64 list \<Rightarrow> u64) \<Rightarrow> StreamId \<Rightarrow> (stackmap \<times> PerfEvent) list \<Rightarrow> Symbolizer \<times> Message list \<Rightarrow> Symbolizer \<times> Message list" where
  "profile_run blaze hash sid = fold (\<lambda>x s. snd (on_perf_event blaze hash sid recording x s))"

lemma send_sample_recording: "send_sample recording sid e out log = (Ok (), log @ messages_of sid e out)"
  by (auto simp: send_sample_def messages_of_def try_bind_def split: prod.splits option.splits)

lemma on_perf_event_recording:
  "snd (on_perf_event blaze hash sid recording x (sz, log)) =
    (case request_of blaze (sym_cfg sz) x of None \<Rightarrow> (sz, log)
     | Some (e, r) \<Rightarrow> (case Interned_data hash r (sym_cache sz) of (out, cache) \<Rightarrow>
         (sz\<lparr>sym_cache := cache\<rparr>, log @ messages_of sid e out)))"
  by (auto simp: on_perf_event_def request_of_def send_sample_recording status_def Let_def
      split: prod.splits sum.splits)

lemma profile_run_messages:
  "reqs = List.map_filter (request_of blaze (sym_cfg sz)) xs \<Longrightarrow>
    snd (profile_run blaze hash sid xs (sz, log)) =
      log @ concat (map2 (messages_of sid) (map fst reqs) (run_data hash (map snd reqs) (sym_cache sz)))"
proof (induction xs arbitrary: sz log reqs)
  case Nil
  then show ?case by (simp add: profile_run_def)
next
  case (Cons x xs)
  show ?case
  proof (cases "request_of blaze (sym_cfg sz) x")
    case None
    then show ?thesis using Cons.IH [OF refl, of sz log] Cons.prems
      by (simp add: profile_run_def on_perf_event_recording List.map_filter_simps)
  next
    case (Some er)
    obtain e r where er: "er = (e, r)" by fastforce
    obtain out cache where run: "Interned_data hash r (sym_cache sz) = (out, cache)" by fastforce
    show ?thesis using Cons.IH [OF refl, of "sz\<lparr>sym_cache := cache\<rparr>" "log @ messages_of sid e out"] Cons.prems Some er run
      by (simp add: profile_run_def on_perf_event_recording List.map_filter_simps)
  qed
qed

lemma length_run_data [simp]: "length (run_data hash rs c) = length rs"
  by (induction rs arbitrary: c) (auto split: prod.splits)

text \<open>What a reader knows of a stream after some messages, and the samples among them.\<close>

definition read_message :: "StreamId \<Rightarrow> Message \<Rightarrow> dict \<Rightarrow> dict" where
  "read_message sid msg d =
    (case msg of Message_Stream i (Event_InternedData x) \<Rightarrow> if i = sid then absorb x d else d | _ \<Rightarrow> d)"

definition read_log :: "StreamId \<Rightarrow> Message list \<Rightarrow> dict" where
  "read_log sid log = fold (read_message sid) log empty_dict"

definition samples :: "Message list \<Rightarrow> Sample list" where
  "samples = List.map_filter (\<lambda>msg. case msg of Message_Stream _ (Event_Sample x) \<Rightarrow> Some x | _ \<Rightarrow> None)"

lemma samples_append [simp]: "samples (xs @ ys) = samples xs @ samples ys"
  by (simp add: samples_def List.map_filter_def)

lemma samples_simps [simp]:
  "samples [] = []" "samples (Message_Stream i (Event_Sample x) # ms) = x # samples ms"
  "samples (Message_Stream i (Event_InternedData y) # ms) = samples ms"
  by (simp_all add: samples_def List.map_filter_simps)

lemma samples_messages_of: "samples (messages_of sid e out) = [create_sample e (fst out)]"
  by (auto simp: messages_of_def split: prod.splits option.splits)

lemma samples_run:
  "length es = length outs \<Longrightarrow> samples (concat (map2 (messages_of sid) es outs)) = map2 create_sample es (map fst outs)"
  by (induction es outs rule: list_induct2) (simp_all add: samples_messages_of)

lemma read_messages_of: "fold (read_message sid) (messages_of sid e out) d = absorb_opt (snd out) d"
  by (auto simp: messages_of_def read_message_def absorb_opt_def split: prod.splits option.splits)

lemma read_messages_run:
  "length es = length outs \<Longrightarrow> fold (read_message sid) (concat (map2 (messages_of sid) es outs)) d = read_all outs d"
  by (induction es outs arbitrary: d rule: list_induct2) (simp_all add: read_messages_of read_all_def)

text \<open>The messages of the run up to the sample of one request.\<close>

lemma messages_split:
  assumes "length es = length outs" "k < length outs"
  obtains pre post where
    "concat (map2 (messages_of sid) es outs) = pre @ Message_Stream sid (Event_Sample (create_sample (es ! k) (fst (outs ! k)))) # post"
    "length (samples pre) = k" "fold (read_message sid) pre d = read_all (take (Suc k) outs) d"
proof -
  define data where "data = (case snd (outs ! k) of Some x \<Rightarrow> [Message_Stream sid (Event_InternedData x)] | None \<Rightarrow> [])"
  have data: "messages_of sid (es ! k) (outs ! k) = data @ [Message_Stream sid (Event_Sample (create_sample (es ! k) (fst (outs ! k))))]"
      "samples data = []" "\<And>d. fold (read_message sid) data d = absorb_opt (snd (outs ! k)) d"
    by (auto simp: data_def messages_of_def read_message_def absorb_opt_def split: prod.splits option.splits)
  let ?m = "\<lambda>es outs. concat (map2 (messages_of sid) es outs)"
  let ?pre = "?m (take k es) (take k outs) @ data" and ?post = "?m (drop (Suc k) es) (drop (Suc k) outs)"
  have es: "es = take k es @ es ! k # drop (Suc k) es" and outs: "outs = take k outs @ outs ! k # drop (Suc k) outs"
    using assms by (simp_all add: id_take_nth_drop)
  have len: "length (take k es) = length (take k outs)" using assms by simp
  have "?m es outs = ?pre @ Message_Stream sid (Event_Sample (create_sample (es ! k) (fst (outs ! k)))) # ?post"
    by (subst es, subst outs) (simp add: zip_append [OF len] data(1) del: append_take_drop_id)
  moreover have "length (samples ?pre) = k" using assms by (simp add: samples_run [OF len] data(2))
  moreover have "fold (read_message sid) ?pre d = read_all (take (Suc k) outs) d"
    using assms by (simp add: read_messages_run [OF len] data(3) take_Suc_conv_app_nth read_all_def)
  ultimately show thesis by (rule that)
qed

lemma request_of_frames:
  assumes req: "request_of blaze cfg (sm, e) = Some (e', r)"
    and len: "\<And>src as ss. blaze src as = Ok ss \<Longrightarrow> length ss = length as"
  shows "e' = e" "map (snd \<circ> fst) (stack_items r) = rev (user_frames sm e) @ kernel_frames sm e"
proof -
  show "e' = e" using req by (auto simp: request_of_def split: if_splits sum.splits)
  have ok: "symbolize blaze cfg (pf_tgid e) (user_frames sm e) (kernel_frames sm e) = Ok r"
    using req by (auto simp: request_of_def split: if_splits sum.splits)
  from arg_cong [where f = "map snd", OF symbolize_keys [OF len ok]]
  show "map (snd \<circ> fst) (stack_items r) = rev (user_frames sm e) @ kernel_frames sm e" by (simp add: comp_def)
qed

section \<open>Properties\<close>


definition example_stackmap :: stackmap where
  "example_stackmap i = (if i = 3 then Some [0x10, 0x20, 0, 0] else if i = 4 then Some [0x30, 0] else None)"

definition example_event :: PerfEvent where
  "example_event = \<lparr>pf_timestamp = 5, pf_tgid = 7, pf_pid = 8, pf_cpu_id = 1, ustack_id = 3, kstack_id = 4\<rparr>"

definition example_events :: "(stackmap \<times> PerfEvent) list" where
  "example_events = map (Pair example_stackmap)
    [example_event, example_event\<lparr>pf_timestamp := 6, ustack_id := - 14, kstack_id := - 1\<rparr>,
     example_event\<lparr>pf_timestamp := 9, kstack_id := - 1\<rparr>]"

definition example_blaze :: blazesym where
  "example_blaze src as = Ok (map (\<lambda>_. Some ''f'') as)"


text \<open>
  What the program records is what the table of stacks holds for it: nothing of the idle task, nothing
  of a filtered process, no stack of a kind that is not collected, and a recorded stack is read back
  without its padding.
\<close>

lemma rposition_Some: "p x \<Longrightarrow> \<forall>y\<in>set ys. \<not> p y \<Longrightarrow> rposition p (xs @ x # ys) = Some (length xs)"
  by (induction ys rule: rev_induct) (simp_all add: rposition_def)

lemma stack_frames_padding:
  assumes "sm i = Some (xs @ replicate n 0)" "xs \<noteq> []" "last xs \<noteq> 0"
  shows "get_stack_frames_by_fd sm i = xs"
proof -
  have xs: "xs = butlast xs @ [last xs]" using assms(2) by simp
  have "rposition (\<lambda>x. x \<noteq> 0) (xs @ replicate n 0) = Some (length xs - 1)"
    using rposition_Some [of "\<lambda>x. x \<noteq> 0" "last xs" "replicate n 0" "butlast xs"] assms(3) xs by (metis append.assoc append_Cons append_Nil length_butlast in_set_replicate)
  moreover have "Suc (length xs - 1) = length xs" using assms(2) by (simp add: Suc_diff_1)
  ultimately show ?thesis using assms(1) by (simp add: get_stack_frames_by_fd_def)
qed

lemma profiler_perf_event_frames:
  assumes "profiler_perf_event cfg k = Some e"
  shows "pf_pid e \<noteq> 0 \<and> (cfg_filter_tgid cfg \<longrightarrow> pf_filter k (pf_tgid e)) \<and>
    user_frames sm e = (if collect_ustack cfg \<and> 0 \<le>s get_ustackid k then get_stack_frames_by_fd sm (get_ustackid k) else []) \<and>
    kernel_frames sm e = (if collect_kstack cfg \<and> 0 \<le>s get_kstackid k then get_stack_frames_by_fd sm (get_kstackid k) else [])"
  using assms by (auto simp: profiler_perf_event_def apply_tgid_filter_def user_frames_def kernel_frames_def Let_def
      word_sless_alt word_sle_eq split: if_splits)

end
