(* ===== verification/PerfCounter.thy ===== *)
theory PerfCounter
  imports BpfCommon Floats
begin

text \<open>
  Hardware and software performance counters: the BPF program that reads them at every tick of its
  timer (bpf/src/bpf/perfcounter.bpf.c) and the user space half that configures the counters, declares
  their tracks and sends the differences between two readings (bpf/src/perfcounter.rs).

  The reading of a counter, the clock and the room in the ring buffer are arguments, and so are libbpf
  and the system call that enables a counter.
\<close>

section \<open>Definitions\<close>

subsection \<open>The BPF program\<close>

definition MAX_PERF_COUNTERS :: nat where "MAX_PERF_COUNTERS = 8"

record PerfCounterEvent =
  pc_timestamp :: u64
  pc_cpu_id :: u32
  pc_counters :: "u64 list"

record pcenv =
  pc_reserve :: bool
  pc_now :: u64
  pc_cpu :: u32
  read_value :: "i32 \<Rightarrow> u64 option"

definition perfcounter_timer :: "u32 \<Rightarrow> pcenv \<Rightarrow> PerfCounterEvent option" where
  "perfcounter_timer counter_count k =
    (if \<not> pc_reserve k then None
     else
       let n = (if word_of_nat MAX_PERF_COUNTERS < counter_count then word_of_nat MAX_PERF_COUNTERS else counter_count) in
       Some \<lparr>pc_timestamp = pc_now k, pc_cpu_id = pc_cpu k,
         pc_counters = map (\<lambda>i. if word_of_nat i < n then
             (case read_value k (pc_cpu k * n + word_of_nat i) of Some v \<Rightarrow> v | None \<Rightarrow> 0) else 0) [0..<MAX_PERF_COUNTERS]\<rparr>)"

subsection \<open>Configuration\<close>

datatype CounterConfig = CounterConfig_Named string | CounterConfig_Custom string u32 u64

datatype DerivedCounter = Ipc nat nat

definition PERF_TYPE_HARDWARE :: u32 where "PERF_TYPE_HARDWARE = 0"

text \<open>The names of the predefined counters with their type and configuration in the kernel interface.\<close>

definition named_counters :: "(string \<times> u32 \<times> u64) list" where
  "named_counters =
   [(''cpu-cycles'', PERF_TYPE_HARDWARE, 0),
    (''cpu-instructions'', PERF_TYPE_HARDWARE, 1), (''instructions'', PERF_TYPE_HARDWARE, 1),
    (''cache-references'', PERF_TYPE_HARDWARE, 2),
    (''cache-misses'', PERF_TYPE_HARDWARE, 3),
    (''branch-instructions'', PERF_TYPE_HARDWARE, 4), (''branches'', PERF_TYPE_HARDWARE, 4),
    (''branch-misses'', PERF_TYPE_HARDWARE, 5),
    (''stalled-cycles-frontend'', PERF_TYPE_HARDWARE, 7),
    (''stalled-cycles-backend'', PERF_TYPE_HARDWARE, 8),
    (''cpu-clock'', PERF_TYPE_SOFTWARE, 0),
    (''task-clock'', PERF_TYPE_SOFTWARE, 1),
    (''page-faults'', PERF_TYPE_SOFTWARE, 2), (''faults'', PERF_TYPE_SOFTWARE, 2),
    (''context-switches'', PERF_TYPE_SOFTWARE, 3), (''cs'', PERF_TYPE_SOFTWARE, 3),
    (''cpu-migrations'', PERF_TYPE_SOFTWARE, 4), (''migrations'', PERF_TYPE_SOFTWARE, 4),
    (''minor-faults'', PERF_TYPE_SOFTWARE, 5),
    (''major-faults'', PERF_TYPE_SOFTWARE, 6)]"

definition to_perf_config :: "CounterConfig \<Rightarrow> (BpfError, string \<times> u32 \<times> u64) result" where
  "to_perf_config c =
    (case c of
       CounterConfig_Named name \<Rightarrow>
         (case map_of named_counters name of
            Some (ty, config) \<Rightarrow> Ok (name, ty, config)
          | None \<Rightarrow> Err (LoadError (''unknown performance counter: '' @ name)))
     | CounterConfig_Custom name perf_type config \<Rightarrow> Ok (name, perf_type, config))"

record PerfCounterConfig =
  pcc_frequency :: u64
  pcc_counters :: "CounterConfig list"
  pcc_ringbuf :: usize

definition pc_default_frequency :: u64 where "pc_default_frequency = 9"
definition pc_default_ringbuf :: usize where "pc_default_ringbuf = 256 * 1024"

text \<open>The loop of \<open>expand_counters\<close>: the expanded counters, the derived ones, and which are only for them.\<close>

record expansion =
  expanded :: "CounterConfig list"
  derived_counters :: "(string \<times> DerivedCounter) list"
  is_derived_only :: "bool list"
  current_idx :: nat

definition expand_counter :: "CounterConfig \<Rightarrow> expansion \<Rightarrow> expansion" where
  "expand_counter c x =
    (if c = CounterConfig_Named ''ipc'' then
       \<lparr>expanded = expanded x @ [CounterConfig_Named ''cpu-cycles'', CounterConfig_Named ''cpu-instructions''],
        derived_counters = derived_counters x @ [(''ipc'', Ipc (current_idx x) (current_idx x + 1))],
        is_derived_only = is_derived_only x @ [True, True], current_idx = current_idx x + 2\<rparr>
     else
       \<lparr>expanded = expanded x @ [c], derived_counters = derived_counters x,
        is_derived_only = is_derived_only x @ [False], current_idx = current_idx x + 1\<rparr>)"

definition expand_counters :: "CounterConfig list \<Rightarrow> expansion" where
  "expand_counters cs = fold expand_counter cs \<lparr>expanded = [], derived_counters = [], is_derived_only = [], current_idx = 0\<rparr>"

primrec check_all :: "('a \<Rightarrow> ('e, 'b) result) \<Rightarrow> 'a list \<Rightarrow> ('e, unit) result" where
  "check_all f [] = Ok ()"
| "check_all f (x # xs) = (case f x of Inl e \<Rightarrow> Err e | Inr _ \<Rightarrow> check_all f xs)"

definition validate :: "PerfCounterConfig \<Rightarrow> (BpfError, expansion) result" where
  "validate cfg =
    (let x = expand_counters (pcc_counters cfg) in
     if expanded x = [] then Err (LoadError ''no performance counters configured'')
     else if MAX_PERF_COUNTERS < length (expanded x) then
       Err (LoadError (''too many performance counters: '' @ dec_nat (length (expanded x)) @ '' (max: '' @ dec_nat MAX_PERF_COUNTERS @ '')''))
     else case check_all to_perf_config (expanded x) of Inl e \<Rightarrow> Err e | Inr _ \<Rightarrow> Ok x)"

subsection \<open>Events\<close>

type_synonym previous_values = "((u32 \<times> nat) \<times> u64) list"

definition counter_delta :: "previous_values \<Rightarrow> u32 \<times> nat \<Rightarrow> u64 \<Rightarrow> u64" where
  "counter_delta prev key value =
    (case hm_get prev key of Some p \<Rightarrow> (if p \<le> value then value - p else value) | None \<Rightarrow> 0)"

definition counter_track_number :: "u32 \<Rightarrow> nat \<Rightarrow> u64" where
  "counter_track_number cpu i = push_bit 32 (ucast cpu) OR word_of_nat i"

definition counter_message :: "StreamId \<Rightarrow> PerfCounterEvent \<Rightarrow> nat \<Rightarrow> f64 \<Rightarrow> Message" where
  "counter_message sid e i v = Message_Stream sid (Event_Counter \<lparr>counter_name = '''', counter_value = v,
    counter_timestamp = pc_timestamp e, counter_track_id = TrackId_Counter (counter_track_number (pc_cpu_id e) i),
    counter_labels = Labels_new, counter_unit = None\<rparr>)"

text \<open>A refused message ends the loop with status 1.\<close>

definition emit1 :: "'c callback \<Rightarrow> Message \<Rightarrow> ('c, i32, unit) stm" where
  "emit1 callback msg = map_err (\<lambda>_. 1) (emit callback msg)"

definition process_regular_counters ::
  "PerfCounterEvent \<Rightarrow> nat \<Rightarrow> previous_values \<Rightarrow> bool list \<Rightarrow> StreamId \<Rightarrow> 'c callback \<Rightarrow> ('c, i32, unit) stm" where
  "process_regular_counters e counters_len prev derived_only sid callback =
    try_each (\<lambda>(i, value).
      if derived_only ! i then ret ()
      else emit1 callback (counter_message sid e i (f64_of_u64 (counter_delta prev (pc_cpu_id e, i) value))))
      (enumerate 0 (take counters_len (pc_counters e)))"

definition process_derived_counters ::
  "PerfCounterEvent \<Rightarrow> nat \<Rightarrow> (string \<times> DerivedCounter) list \<Rightarrow> previous_values \<Rightarrow> StreamId \<Rightarrow> 'c callback \<Rightarrow> ('c, i32, unit) stm" where
  "process_derived_counters e counters_len derived prev sid callback =
    try_each (\<lambda>(idx, (name, d)).
      case d of Ipc cycles_idx instructions_idx \<Rightarrow>
        (let cycles_delta = counter_delta prev (pc_cpu_id e, cycles_idx) (pc_counters e ! cycles_idx);
             instructions_delta = counter_delta prev (pc_cpu_id e, instructions_idx) (pc_counters e ! instructions_idx);
             ipc = (if 0 < cycles_delta then f64_div (f64_of_u64 instructions_delta) (f64_of_u64 cycles_delta) else 0) in
         emit1 callback (counter_message sid e (counters_len + idx) ipc)))
      (enumerate 0 derived)"

definition update_previous_values :: "PerfCounterEvent \<Rightarrow> nat \<Rightarrow> previous_values \<Rightarrow> previous_values" where
  "update_previous_values e counters_len prev =
    fold (\<lambda>(i, value). hm_insert (pc_cpu_id e, i) value) (enumerate 0 (take counters_len (pc_counters e))) prev"

definition on_counter_event ::
  "expansion \<Rightarrow> StreamId \<Rightarrow> 'c callback \<Rightarrow> PerfCounterEvent \<Rightarrow> previous_values \<times> 'c \<Rightarrow> i32 \<times> previous_values \<times> 'c" where
  "on_counter_event x sid callback e = (\<lambda>(prev, c).
    let n = length (expanded x) in
    case try_bind (process_regular_counters e n prev (is_derived_only x) sid callback) (\<lambda>_.
        process_derived_counters e n (derived_counters x) prev sid callback) c of
      (Inl st, c') \<Rightarrow> (st, prev, c')
    | (Inr _, c') \<Rightarrow> (0, update_previous_values e n prev, c'))"

subsection \<open>Construction\<close>

definition format_track_name :: "string \<Rightarrow> nat \<Rightarrow> nat \<Rightarrow> string" where
  "format_track_name name cpu cpu_count =
    (let cpu_width = length (dec_nat (cpu_count - 1)); d = dec_nat cpu in
     name @ '' #'' @ replicate (cpu_width - length d) (CHR ''0'') @ d)"

definition open_counter_on ::
  "'w libbpf \<Rightarrow> (i32 \<Rightarrow> 'w \<Rightarrow> i32 \<times> 'w) \<Rightarrow> nat \<Rightarrow> nat \<Rightarrow> string \<times> u32 \<times> u64 \<Rightarrow> nat \<Rightarrow> ('w, BpfError, i32) stm" where
  "open_counter_on lb ioctl_enable len counter_idx = (\<lambda>(name, ty, config) cpu.
    try_bind (map_err (\<lambda>e. AttachError (''failed to open perf event for counter '' @ name @ '' on cpu '' @ dec_nat cpu @ '': '' @ e))
      (perf_event_open lb ty (ucast config) 0 None (- 1) (word_of_nat cpu) 0)) (\<lambda>fd.
    let idx = word_of_nat (cpu * len + counter_idx) in
    try_bind (map_err (\<lambda>e. MapError (''failed to update perf counter map at idx '' @ dec_i32 idx @ '': '' @ e))
      (lb_update lb ''perf_counters'' idx fd)) (\<lambda>_ w.
    case ioctl_enable fd w of
      (r, w') \<Rightarrow> if r <s 0 then (Err (AttachError (''failed to enable perf counter: '' @ lb_last_os_error lb w')), w') else (Ok fd, w'))))"

definition open_counter ::
  "'w libbpf \<Rightarrow> (i32 \<Rightarrow> 'w \<Rightarrow> i32 \<times> 'w) \<Rightarrow> nat \<Rightarrow> nat \<Rightarrow> nat \<times> CounterConfig \<Rightarrow> ('w, BpfError, i32 list) stm" where
  "open_counter lb ioctl_enable nprocs len = (\<lambda>(counter_idx, counter).
    case to_perf_config counter of
      Inl e \<Rightarrow> throw e
    | Inr pc \<Rightarrow> collect (open_counter_on lb ioctl_enable len counter_idx pc) [0..<nprocs])"

primrec counter_name_of :: "CounterConfig \<Rightarrow> string" where
  "counter_name_of (CounterConfig_Named name) = name"
| "counter_name_of (CounterConfig_Custom name ty config) = name"

definition counter_track :: "StreamId \<Rightarrow> nat \<Rightarrow> nat \<Rightarrow> nat \<Rightarrow> string \<Rightarrow> Message" where
  "counter_track sid nprocs cpu i name = Message_Stream sid (Event_Track \<lparr>track_name = format_track_name name cpu nprocs,
    track_type = TrackType_Counter (counter_track_number (word_of_nat cpu) i) None,
    track_parent = Some (TrackType_Cpu (word_of_nat cpu))\<rparr>)"

definition declare_tracks_of :: "expansion \<Rightarrow> StreamId \<Rightarrow> nat \<Rightarrow> 'c callback \<Rightarrow> nat \<Rightarrow> ('c, i32, unit) stm" where
  "declare_tracks_of x sid nprocs callback cpu =
    try_bind (try_each (\<lambda>(i, counter).
        if is_derived_only x ! i then ret () else emit callback (counter_track sid nprocs cpu i (counter_name_of counter)))
      (enumerate 0 (expanded x))) (\<lambda>_.
    try_each (\<lambda>(idx, (name, d)). emit callback (counter_track sid nprocs cpu (length (expanded x) + idx) name))
      (enumerate 0 (derived_counters x)))"

definition PerfCounter_load ::
  "'w libbpf \<Rightarrow> (i32 \<Rightarrow> 'w \<Rightarrow> i32 \<times> 'w) \<Rightarrow> usize \<Rightarrow> PerfCounterConfig \<Rightarrow> expansion \<Rightarrow> ('w, BpfError, i32 list list) stm" where
  "PerfCounter_load lb ioctl_enable nprocs cfg x =
    try_bind (map_err (\<lambda>e. LoadError (''failed to set perf counters map size: '' @ e))
      (lb_set_max_entries lb ''perf_counters'' (ucast (nprocs * word_of_nat (length (expanded x)))))) (\<lambda>_.
    try_bind (modify (lb_rodata lb ''counter_count'' (word_of_nat (length (expanded x))))) (\<lambda>_.
    try_bind (load_skel lb) (\<lambda>_.
    try_bind (map_err (\<lambda>e. AttachError (''failed to create timer perf events: '' @ e))
      (perf_event_per_cpu lb PERF_TYPE_SOFTWARE PERF_COUNT_SW_CPU_CLOCK (pcc_frequency cfg))) (\<lambda>timer_pefds.
    try_bind (map_err (\<lambda>e. AttachError (''failed to attach timer perf event: '' @ e)) (attach_perf_event lb timer_pefds)) (\<lambda>links.
    collect (open_counter lb ioctl_enable (unat nprocs) (length (expanded x))) (enumerate 0 (expanded x)))))))"

text \<open>The state of the construction: the world of libbpf and the state of the callback.\<close>

definition on_world :: "('w, 'e, 'a) stm \<Rightarrow> ('w \<times> 'c, 'e, 'a) stm" where
  "on_world = on_field fst (\<lambda>w s. (w, snd s))"

definition on_callback :: "('c, 'e, 'a) stm \<Rightarrow> ('w \<times> 'c, 'e, 'a) stm" where
  "on_callback = on_field snd (\<lambda>c s. (fst s, c))"

definition PerfCounter_new ::
  "'w libbpf \<Rightarrow> (i32 \<Rightarrow> 'w \<Rightarrow> i32 \<times> 'w) \<Rightarrow> (string, usize) result \<Rightarrow> 'c callback \<Rightarrow> PerfCounterConfig \<Rightarrow> StreamId \<Rightarrow>
    ('w \<times> 'c, BpfError, expansion \<times> previous_values) stm" where
  "PerfCounter_new lb ioctl_enable num_possible_cpus callback cfg sid =
    (case validate cfg of
       Inl e \<Rightarrow> throw e
     | Inr x \<Rightarrow>
         try_bind (on_world (open_skel lb)) (\<lambda>_.
         try_bind (on_world (set_ring_size lb (pcc_ringbuf cfg))) (\<lambda>_.
         case num_possible_cpus of
           Inl e \<Rightarrow> throw (LoadError (''failed to get cpu count: '' @ e))
         | Inr nprocs \<Rightarrow>
             try_bind (on_world (PerfCounter_load lb ioctl_enable nprocs cfg x)) (\<lambda>perf_fds.
             try_bind (on_callback (map_err (\<lambda>_. LoadError ''callback terminated'')
               (try_each (declare_tracks_of x sid (unat nprocs) callback) [0..<unat nprocs]))) (\<lambda>_.
             try_bind (on_world (map_err (\<lambda>e. LoadError (''failed to add ring buffer: '' @ e)) (lb_ring_add lb))) (\<lambda>_.
             try_bind (on_world (map_err (\<lambda>e. LoadError (''failed to build ring buffer: '' @ e)) (lb_ring_build lb))) (\<lambda>_.
             ret (x, []))))))))"

section \<open>Readings of one counter\<close>

text \<open>With a callback that accepts every message, an event sends these messages.\<close>

definition regular_messages :: "expansion \<Rightarrow> StreamId \<Rightarrow> previous_values \<Rightarrow> PerfCounterEvent \<Rightarrow> Message list" where
  "regular_messages x sid prev e =
    map (\<lambda>i. counter_message sid e i (f64_of_u64 (counter_delta prev (pc_cpu_id e, i) (pc_counters e ! i))))
      (filter (\<lambda>i. \<not> is_derived_only x ! i) [0..<length (expanded x)])"

definition derived_value :: "previous_values \<Rightarrow> PerfCounterEvent \<Rightarrow> DerivedCounter \<Rightarrow> f64" where
  "derived_value prev e d =
    (case d of Ipc c i \<Rightarrow>
      let cycles = counter_delta prev (pc_cpu_id e, c) (pc_counters e ! c);
          instructions = counter_delta prev (pc_cpu_id e, i) (pc_counters e ! i) in
      if 0 < cycles then f64_div (f64_of_u64 instructions) (f64_of_u64 cycles) else 0)"

definition derived_messages :: "expansion \<Rightarrow> StreamId \<Rightarrow> previous_values \<Rightarrow> PerfCounterEvent \<Rightarrow> Message list" where
  "derived_messages x sid prev e =
    map (\<lambda>(j, (name, d)). counter_message sid e (length (expanded x) + j) (derived_value prev e d)) (enumerate 0 (derived_counters x))"

lemma emit1_recording [simp]: "emit1 recording msg sent = (Ok (), sent @ [msg])"
  by (simp add: emit1_def)

lemma process_regular_recording:
  assumes "length (expanded x) \<le> length (pc_counters e)"
  shows "process_regular_counters e (length (expanded x)) prev (is_derived_only x) sid recording sent = (Ok (), sent @ regular_messages x sid prev e)"
proof -
  let ?g = "\<lambda>i. if is_derived_only x ! i then [] else
      [counter_message sid e i (f64_of_u64 (counter_delta prev (pc_cpu_id e, i) (pc_counters e ! i)))]"
  have "process_regular_counters e (length (expanded x)) prev (is_derived_only x) sid recording sent =
      (Ok (), sent @ concat (map (\<lambda>(i, v). ?g i) (enumerate 0 (take (length (expanded x)) (pc_counters e)))))"
    unfolding process_regular_counters_def
    by (rule try_each_recording) (auto simp: in_set_enumerate_eq nth_take)
  also have "map (\<lambda>(i, v). ?g i) (enumerate 0 (take (length (expanded x)) (pc_counters e))) = map ?g [0..<length (expanded x)]"
    using assms by (intro nth_equalityI) (simp_all add: nth_enumerate_eq)
  also have "concat (map ?g is) = map (\<lambda>i. counter_message sid e i (f64_of_u64 (counter_delta prev (pc_cpu_id e, i) (pc_counters e ! i))))
      (filter (\<lambda>i. \<not> is_derived_only x ! i) is)" for "is"
    by (induction "is") simp_all
  finally show ?thesis by (simp add: regular_messages_def)
qed

lemma process_derived_recording:
  "process_derived_counters e (length (expanded x)) (derived_counters x) prev sid recording sent = (Ok (), sent @ derived_messages x sid prev e)"
proof -
  have "process_derived_counters e (length (expanded x)) (derived_counters x) prev sid recording sent =
      (Ok (), sent @ concat (map (\<lambda>(j, (name, d)). [counter_message sid e (length (expanded x) + j) (derived_value prev e d)])
        (enumerate 0 (derived_counters x))))"
    unfolding process_derived_counters_def
    by (rule try_each_recording) (auto simp: derived_value_def Let_def split: DerivedCounter.splits)
  also have "concat (map (\<lambda>(j, (name, d)). [counter_message sid e (length (expanded x) + j) (derived_value prev e d)]) ds) =
      map (\<lambda>(j, (name, d)). counter_message sid e (length (expanded x) + j) (derived_value prev e d)) ds" for ds :: "(nat \<times> string \<times> DerivedCounter) list"
    by (induction ds) (simp_all add: case_prod_beta)
  finally show ?thesis by (simp add: derived_messages_def)
qed

lemma on_counter_event_recording:
  assumes "length (expanded x) \<le> length (pc_counters e)"
  shows "on_counter_event x sid recording e (prev, sent) =
    (0, update_previous_values e (length (expanded x)) prev, sent @ regular_messages x sid prev e @ derived_messages x sid prev e)"
  using process_regular_recording [OF assms] process_derived_recording
  by (simp add: on_counter_event_def try_bind_Ok)

definition counter_run ::
  "expansion \<Rightarrow> StreamId \<Rightarrow> PerfCounterEvent list \<Rightarrow> previous_values \<times> Message list \<Rightarrow> previous_values \<times> Message list" where
  "counter_run x sid = fold (\<lambda>e s. snd (on_counter_event x sid recording e s))"

text \<open>The values sent on a counter track, the readings of a counter on a processor, and their differences.\<close>

definition values_on :: "u64 \<Rightarrow> Message list \<Rightarrow> f64 list" where
  "values_on i = List.map_filter (\<lambda>msg. case msg of
      Message_Stream sid (Event_Counter c) \<Rightarrow> if counter_track_id c = TrackId_Counter i then Some (counter_value c) else None
    | _ \<Rightarrow> None)"

definition readings :: "u32 \<Rightarrow> nat \<Rightarrow> PerfCounterEvent list \<Rightarrow> u64 list" where
  "readings cpu i es = map (\<lambda>e. pc_counters e ! i) (filter (\<lambda>e. pc_cpu_id e = cpu) es)"

fun differences :: "u64 option \<Rightarrow> u64 list \<Rightarrow> u64 list" where
  "differences p [] = []"
| "differences None (v # vs) = 0 # differences (Some v) vs"
| "differences (Some p) (v # vs) = (if p \<le> v then v - p else v) # differences (Some v) vs"

lemma values_on_append [simp]: "values_on i (xs @ ys) = values_on i xs @ values_on i ys"
  by (simp add: values_on_def List.map_filter_def)

lemma nat_high_bit: "i < 2 ^ 32 \<Longrightarrow> 32 \<le> n \<Longrightarrow> \<not> bit (i :: nat) n"
  by (metis bit_iff_odd div_less even_zero linorder_not_less order_less_le_trans power_increasing_iff one_less_numeral_iff semiring_norm(76))

lemma counter_track_number_parts:
  assumes "i < 2 ^ 32"
  shows "drop_bit 32 (counter_track_number cpu i) = ucast cpu" "take_bit 32 (counter_track_number cpu i) = word_of_nat i"
proof -
  have high: "n < 32" if "bit cpu n" for n using bit_imp_le_length [OF that] by simp
  show "drop_bit 32 (counter_track_number cpu i) = ucast cpu" "take_bit 32 (counter_track_number cpu i) = word_of_nat i"
    using nat_high_bit [OF assms] high
    by (auto intro!: bit_word_eqI simp: counter_track_number_def bit_simps bit_ucast_iff)
qed

lemma counter_track_number_inj:
  assumes "i < 2 ^ 32" "j < 2 ^ 32"
  shows "counter_track_number cpu i = counter_track_number cpu' j \<longleftrightarrow> cpu = cpu' \<and> i = j"
proof
  assume eq: "counter_track_number cpu i = counter_track_number cpu' j"
  then have "ucast cpu = (ucast cpu' :: u64)" "word_of_nat i = (word_of_nat j :: u64)"
    using counter_track_number_parts assms by metis+
  then have "unat (ucast cpu :: u64) = unat (ucast cpu' :: u64)" "unat (word_of_nat i :: u64) = unat (word_of_nat j :: u64)" by simp_all
  then show "cpu = cpu' \<and> i = j" using assms by (simp add: unat_ucast_u32_u64 unat_of_nat word_unat_eq_iff)
qed simp

lemma values_on_message:
  "i < 2 ^ 32 \<Longrightarrow> j < 2 ^ 32 \<Longrightarrow> values_on (counter_track_number cpu i) [counter_message sid e j v] =
    (if pc_cpu_id e = cpu \<and> i = j then [v] else [])"
  by (auto simp: values_on_def List.map_filter_def counter_message_def counter_track_number_inj)

lemma values_on_messages:
  "i < 2 ^ 32 \<Longrightarrow> (\<forall>j\<in>set js. j < 2 ^ 32) \<Longrightarrow>
    values_on (counter_track_number cpu i) (map (\<lambda>j. counter_message sid e j (v j)) js) =
      (if pc_cpu_id e = cpu then map v (filter (\<lambda>j. j = i) js) else [])"
proof (induction js)
  case (Cons j js)
  let ?m = "\<lambda>j. counter_message sid e j (v j)"
  have "values_on (counter_track_number cpu i) (map ?m (j # js)) =
      values_on (counter_track_number cpu i) [?m j] @ values_on (counter_track_number cpu i) (map ?m js)"
    using values_on_append [of "counter_track_number cpu i" "[?m j]" "map ?m js"] by simp
  then show ?case using Cons by (simp add: values_on_message)
qed (simp add: values_on_def List.map_filter_simps)

definition expansion_ok :: "expansion \<Rightarrow> bool" where
  "expansion_ok x \<longleftrightarrow> length (expanded x) \<le> MAX_PERF_COUNTERS \<and> length (derived_counters x) \<le> length (expanded x) \<and>
    length (is_derived_only x) = length (expanded x)"

lemma expand_counters_lengths:
  "length (is_derived_only (expand_counters cs)) = length (expanded (expand_counters cs)) \<and>
   length (derived_counters (expand_counters cs)) \<le> length (expanded (expand_counters cs))"
  unfolding expand_counters_def by (induction cs rule: rev_induct) (auto simp: expand_counter_def)

lemma validate_ok: "validate cfg = Ok x \<Longrightarrow> expansion_ok x \<and> expanded x \<noteq> []"
  using expand_counters_lengths [of "pcc_counters cfg"]
  by (auto simp: validate_def expansion_ok_def Let_def split: if_splits sum.splits)

lemma update_previous_get:
  assumes "n \<le> length (pc_counters e)"
  shows "hm_get (update_previous_values e n prev) (cpu, i) =
    (if pc_cpu_id e = cpu \<and> i < n then Some (pc_counters e ! i) else hm_get prev (cpu, i))"
  using assms
proof (induction n)
  case 0
  then show ?case by (simp add: update_previous_values_def)
next
  case (Suc n)
  have "update_previous_values e (Suc n) prev = hm_insert (pc_cpu_id e, n) (pc_counters e ! n) (update_previous_values e n prev)"
    using Suc.prems by (simp add: update_previous_values_def take_Suc_conv_app_nth enumerate_append_eq)
  then show ?case using Suc by (auto simp: less_Suc_eq)
qed

lemma values_on_event:
  assumes x: "expansion_ok x" and i: "i < length (expanded x)" "\<not> is_derived_only x ! i"
  shows "values_on (counter_track_number cpu i) (regular_messages x sid prev e @ derived_messages x sid prev e) =
    (if pc_cpu_id e = cpu then [f64_of_u64 (counter_delta prev (cpu, i) (pc_counters e ! i))] else [])"
proof -
  have len: "length (expanded x) \<le> 8" "length (derived_counters x) \<le> 8" using x by (simp_all add: expansion_ok_def MAX_PERF_COUNTERS_def)
  have one: "filter (\<lambda>j. P j \<and> j = i) [0..<n] = (if P i then [i] else [])" if "i < n" for P n
    using that by (induction n) (auto simp: less_Suc_eq filter_empty_conv)
  let ?ds = "enumerate 0 (derived_counters x)"
  define js where "js = map (\<lambda>d. length (expanded x) + fst d) ?ds"
  define v where "v j = derived_value prev e (snd (derived_counters x ! (j - length (expanded x))))" for j
  have d: "derived_messages x sid prev e = map (\<lambda>j. counter_message sid e j (v j)) js"
    by (auto simp: derived_messages_def js_def v_def in_set_enumerate_eq case_prod_beta)
  have js: "\<forall>j\<in>set js. j < 2 ^ 32 \<and> i < j"
    using len i(1) by (auto simp: js_def in_set_enumerate_eq)
  then have "filter (\<lambda>j. j = i) js = []" by (auto simp: filter_empty_conv)
  then have "values_on (counter_track_number cpu i) (derived_messages x sid prev e) = []"
    using i(1) len js by (simp add: d values_on_messages)
  moreover have "values_on (counter_track_number cpu i) (regular_messages x sid prev e) =
      (if pc_cpu_id e = cpu then [f64_of_u64 (counter_delta prev (cpu, i) (pc_counters e ! i))] else [])"
    using i len by (auto simp: regular_messages_def values_on_messages one)
  ultimately show ?thesis by simp
qed

lemma values_on_run:
  assumes x: "expansion_ok x" and i: "i < length (expanded x)" "\<not> is_derived_only x ! i"
  shows "(\<forall>e\<in>set es. length (pc_counters e) = MAX_PERF_COUNTERS) \<Longrightarrow>
    values_on (counter_track_number cpu i) (snd (counter_run x sid es (prev, sent))) =
      values_on (counter_track_number cpu i) sent @ map f64_of_u64 (differences (hm_get prev (cpu, i)) (readings cpu i es))"
proof (induction es arbitrary: prev sent)
  case Nil
  then show ?case by (simp add: counter_run_def readings_def)
next
  case (Cons e es)
  have len: "length (expanded x) \<le> length (pc_counters e)" using x Cons.prems by (simp add: expansion_ok_def)
  let ?prev = "update_previous_values e (length (expanded x)) prev"
  let ?sent = "sent @ regular_messages x sid prev e @ derived_messages x sid prev e"
  have "counter_run x sid (e # es) (prev, sent) = counter_run x sid es (?prev, ?sent)"
    by (simp add: counter_run_def on_counter_event_recording [OF len])
  moreover have "values_on (counter_track_number cpu i) ?sent =
      values_on (counter_track_number cpu i) sent @ (if pc_cpu_id e = cpu then [f64_of_u64 (counter_delta prev (cpu, i) (pc_counters e ! i))] else [])"
    using values_on_event [OF x i] by simp
  moreover have "hm_get ?prev (cpu, i) = (if pc_cpu_id e = cpu then Some (pc_counters e ! i) else hm_get prev (cpu, i))"
    using update_previous_get [OF len] i by simp
  moreover have "differences (hm_get prev (cpu, i)) (v # vs) = counter_delta prev (cpu, i) v # differences (Some v) vs" for v vs
    by (cases "hm_get prev (cpu, i)") (simp_all add: counter_delta_def)
  ultimately show ?case using Cons.IH [of ?prev ?sent] Cons.prems by (simp add: readings_def)
qed

lemma differences_sum:
  "sorted (p # vs) \<Longrightarrow> sum_list (map unat (differences (Some p) vs)) = unat (last (p # vs)) - unat p \<and> unat p \<le> unat (last (p # vs))"
proof (induction vs arbitrary: p)
  case (Cons v vs)
  then have ih: "sum_list (map unat (differences (Some v) vs)) = unat (last (v # vs)) - unat v" "unat v \<le> unat (last (v # vs))" by simp_all
  have "unat p \<le> unat v" "unat (v - p) = unat v - unat p" using Cons.prems by (simp_all add: word_le_nat_alt unat_sub)
  then show ?case using ih Cons.prems by simp
qed simp

section \<open>Tracks\<close>

text \<open>The positions of the tracks of a processor: the counters that are not only for derived ones, and these.\<close>

definition track_positions :: "expansion \<Rightarrow> nat set" where
  "track_positions x = {i. i < length (expanded x) \<and> \<not> is_derived_only x ! i} \<union>
    {length (expanded x)..<length (expanded x) + length (derived_counters x)}"

definition tracks_declared :: "expansion \<Rightarrow> StreamId \<Rightarrow> nat \<Rightarrow> nat \<Rightarrow> Message list \<Rightarrow> bool" where
  "tracks_declared x sid nprocs cpu sent \<longleftrightarrow> (\<forall>i\<in>track_positions x. \<exists>name. counter_track sid nprocs cpu i name \<in> set sent)"

lemma in_concat_map: "x \<in> set xs \<Longrightarrow> y \<in> set (f x) \<Longrightarrow> y \<in> set (concat (map f xs))"
  by auto

lemma declare_tracks_recording:
  "\<exists>ms. declare_tracks_of x sid nprocs recording cpu sent = (Ok (), sent @ ms) \<and> tracks_declared x sid nprocs cpu ms \<and>
    (\<forall>m\<in>set ms. \<exists>t. m = Message_Stream sid (Event_Track t))"
proof -
  let ?f = "\<lambda>(i, counter). if is_derived_only x ! i then [] else [counter_track sid nprocs cpu i (counter_name_of counter)]"
  let ?g = "\<lambda>(idx, (name, d)). [counter_track sid nprocs cpu (length (expanded x) + idx) name]"
  let ?ms = "concat (map ?f (enumerate 0 (expanded x))) @ concat (map ?g (enumerate 0 (derived_counters x)))"
  have "try_each (\<lambda>(i, counter). if is_derived_only x ! i then ret ()
        else emit recording (counter_track sid nprocs cpu i (counter_name_of counter))) (enumerate 0 (expanded x)) sent =
      (Ok (), sent @ concat (map ?f (enumerate 0 (expanded x))))"
    by (rule try_each_recording) (auto split: prod.splits)
  moreover have "try_each (\<lambda>(idx, (name, d)). emit recording (counter_track sid nprocs cpu (length (expanded x) + idx) name))
      (enumerate 0 (derived_counters x)) sent' = (Ok (), sent' @ concat (map ?g (enumerate 0 (derived_counters x))))" for sent'
    by (rule try_each_recording) (auto split: prod.splits)
  ultimately have "declare_tracks_of x sid nprocs recording cpu sent = (Ok (), sent @ ?ms)"
    by (simp add: declare_tracks_of_def try_bind_Ok)
  moreover have "tracks_declared x sid nprocs cpu ?ms"
    unfolding tracks_declared_def
  proof
    fix i assume "i \<in> track_positions x"
    then consider "i < length (expanded x)" "\<not> is_derived_only x ! i"
      | j where "i = length (expanded x) + j" "j < length (derived_counters x)"
      unfolding track_positions_def by (auto simp: le_iff_add)
    then show "\<exists>name. counter_track sid nprocs cpu i name \<in> set ?ms"
    proof cases
      case 1
      then have "(i, expanded x ! i) \<in> set (enumerate 0 (expanded x))" by (simp add: in_set_enumerate_eq)
      then have "counter_track sid nprocs cpu i (counter_name_of (expanded x ! i)) \<in> set (concat (map ?f (enumerate 0 (expanded x))))"
        by (rule in_concat_map) (use 1 in simp)
      then show ?thesis unfolding set_append by blast
    next
      case 2
      then have "(j, derived_counters x ! j) \<in> set (enumerate 0 (derived_counters x))" by (simp add: in_set_enumerate_eq)
      then have "counter_track sid nprocs cpu i (fst (derived_counters x ! j)) \<in> set (concat (map ?g (enumerate 0 (derived_counters x))))"
        by (rule in_concat_map) (use 2 in \<open>simp add: case_prod_beta\<close>)
      then show ?thesis unfolding set_append by blast
    qed
  qed
  moreover have "\<forall>m\<in>set ?ms. \<exists>t. m = Message_Stream sid (Event_Track t)"
    by (auto simp: counter_track_def split: if_splits)
  ultimately show ?thesis by blast
qed

lemma tracks_declared_append:
  "tracks_declared x sid nprocs cpu ms \<or> tracks_declared x sid nprocs cpu ns \<Longrightarrow> tracks_declared x sid nprocs cpu (ms @ ns)"
  unfolding tracks_declared_def by (metis UnI1 UnI2 set_append)

lemma declare_all_recording:
  "\<exists>ms. try_each (declare_tracks_of x sid nprocs recording) cpus sent = (Ok (), sent @ ms) \<and>
    (\<forall>cpu\<in>set cpus. tracks_declared x sid nprocs cpu ms) \<and> (\<forall>m\<in>set ms. \<exists>t. m = Message_Stream sid (Event_Track t))"
proof (induction cpus arbitrary: sent)
  case (Cons cpu cpus)
  obtain ms where ms: "declare_tracks_of x sid nprocs recording cpu sent = (Ok (), sent @ ms)" "tracks_declared x sid nprocs cpu ms"
      "\<forall>m\<in>set ms. \<exists>t. m = Message_Stream sid (Event_Track t)"
    using declare_tracks_recording by blast
  obtain ns where ns: "try_each (declare_tracks_of x sid nprocs recording) cpus (sent @ ms) = (Ok (), (sent @ ms) @ ns)"
      "\<forall>cpu\<in>set cpus. tracks_declared x sid nprocs cpu ns" "\<forall>m\<in>set ns. \<exists>t. m = Message_Stream sid (Event_Track t)"
    using Cons.IH by blast
  show ?case using ms ns by (intro exI [of _ "ms @ ns"]) (auto simp: try_bind_Ok intro: tracks_declared_append)
qed simp

lemma on_world_OkE:
  assumes "try_bind (on_world m) k (w, c) = (Ok b, s)"
  obtains a w' where "k a (w', c) = (Ok b, s)"
  using assms by (auto simp: try_bind_def on_world_def on_field_def split: prod.splits sum.splits)

lemma on_callback_OkE:
  assumes "try_bind (on_callback m) k (w, c) = (Ok b, s)"
  obtains a c' where "m c = (Ok a, c')" "k a (w, c') = (Ok b, s)"
  using assms by (auto simp: try_bind_def on_callback_def on_field_def split: prod.splits sum.splits)

lemma PerfCounter_new_tracks:
  assumes "PerfCounter_new lb ioctl_enable (Ok nprocs) recording cfg sid (w, sent) = (Ok (x, prev), w', sent')"
  shows "validate cfg = Ok x \<and> prev = [] \<and> (\<exists>ms. sent' = sent @ ms \<and> (\<forall>cpu<unat nprocs. tracks_declared x sid (unat nprocs) cpu ms) \<and>
    (\<forall>m\<in>set ms. \<exists>t. m = Message_Stream sid (Event_Track t)))"
proof -
  obtain y where y: "validate cfg = Ok y" using assms by (cases "validate cfg") (auto simp: PerfCounter_new_def)
  obtain ms where ms: "try_each (declare_tracks_of y sid (unat nprocs) recording) [0..<unat nprocs] sent = (Ok (), sent @ ms)"
      "\<forall>cpu\<in>set [0..<unat nprocs]. tracks_declared y sid (unat nprocs) cpu ms" "\<forall>m\<in>set ms. \<exists>t. m = Message_Stream sid (Event_Track t)"
    using declare_all_recording by blast
  have xy: "x = y" "prev = []" and "try_each (declare_tracks_of y sid (unat nprocs) recording) [0..<unat nprocs] sent = (Ok (), sent')"
  proof -
    let ?finish = "\<lambda>_. try_bind (on_world (map_err (\<lambda>e. LoadError (''failed to add ring buffer: '' @ e)) (lb_ring_add lb))) (\<lambda>_.
      try_bind (on_world (map_err (\<lambda>e. LoadError (''failed to build ring buffer: '' @ e)) (lb_ring_build lb))) (\<lambda>_. ret (y, [])))"
    obtain w1 where "try_bind (on_callback (map_err (\<lambda>_. LoadError ''callback terminated'')
        (try_each (declare_tracks_of y sid (unat nprocs) recording) [0..<unat nprocs]))) ?finish (w1, sent) = (Ok (x, prev), w', sent')"
      using assms unfolding PerfCounter_new_def y sum.case by (elim on_world_OkE) blast
    then obtain c' where c: "try_each (declare_tracks_of y sid (unat nprocs) recording) [0..<unat nprocs] sent = (Ok (), c')"
        and fin: "?finish () (w1, c') = (Ok (x, prev), w', sent')"
      by (elim on_callback_OkE) (auto simp: map_err_Ok_iff)
    from fin have "x = y \<and> prev = [] \<and> c' = sent'" by (elim on_world_OkE) simp
    with c show "x = y" "prev = []" "try_each (declare_tracks_of y sid (unat nprocs) recording) [0..<unat nprocs] sent = (Ok (), sent')" by simp_all
  qed
  then show ?thesis using y ms by auto
qed

text \<open>The messages of a run: counters on the tracks of the processors of its events.\<close>

lemma counter_run_messages:
  assumes "expansion_ok x" "\<forall>e\<in>set es. length (pc_counters e) = MAX_PERF_COUNTERS"
  shows "\<exists>ms. snd (counter_run x sid es (prev, sent)) = sent @ ms \<and>
    (\<forall>m\<in>set ms. \<exists>e\<in>set es. \<exists>i\<in>track_positions x. \<exists>v. m = counter_message sid e i v)"
  using assms(2)
proof (induction es arbitrary: prev sent)
  case Nil
  then show ?case by (simp add: counter_run_def)
next
  case (Cons e es)
  have len: "length (expanded x) \<le> length (pc_counters e)" using assms(1) Cons.prems by (simp add: expansion_ok_def)
  let ?prev = "update_previous_values e (length (expanded x)) prev"
  let ?ms = "regular_messages x sid prev e @ derived_messages x sid prev e"
  have "counter_run x sid (e # es) (prev, sent) = counter_run x sid es (?prev, sent @ ?ms)"
    by (simp add: counter_run_def on_counter_event_recording [OF len])
  moreover obtain ns where "snd (counter_run x sid es (?prev, sent @ ?ms)) = (sent @ ?ms) @ ns"
      "\<forall>m\<in>set ns. \<exists>e\<in>set es. \<exists>i\<in>track_positions x. \<exists>v. m = counter_message sid e i v"
    using Cons.IH [of ?prev "sent @ ?ms"] Cons.prems by auto
  moreover have "\<exists>i\<in>track_positions x. \<exists>v. m = counter_message sid e i v" if "m \<in> set ?ms" for m
    using that by (fastforce simp: regular_messages_def derived_messages_def track_positions_def in_set_enumerate_eq)
  ultimately show ?case by (intro exI [of _ "?ms @ ns"]) auto
qed

lemma counter_track_matches:
  "counter_track sid nprocs (unat (pc_cpu_id e)) i name =
    Message_Stream sid (Event_Track \<lparr>track_name = format_track_name name (unat (pc_cpu_id e)) nprocs,
      track_type = TrackType_Counter (counter_track_number (pc_cpu_id e) i) None, track_parent = Some (TrackType_Cpu (pc_cpu_id e))\<rparr>)"
  by (simp add: counter_track_def)

section \<open>Properties\<close>


definition example_counters :: PerfCounterConfig where
  "example_counters = \<lparr>pcc_frequency = 9, pcc_counters = [CounterConfig_Named ''ipc'', CounterConfig_Named ''faults''], pcc_ringbuf = 4096\<rparr>"

definition example_expansion :: expansion where
  "example_expansion = \<lparr>expanded = map CounterConfig_Named [''cpu-cycles'', ''cpu-instructions'', ''faults''],
    derived_counters = [(''ipc'', Ipc 0 1)], is_derived_only = [True, True, False], current_idx = 3\<rparr>"

definition example_reading :: "u32 \<Rightarrow> u64 \<Rightarrow> PerfCounterEvent" where
  "example_reading cpu v = \<lparr>pc_timestamp = v, pc_cpu_id = cpu, pc_counters = [2 * v, v, v, 0, 0, 0, 0, 0]\<rparr>"

lemma validate_example: "validate example_counters = Ok example_expansion"
  by code_simp


text \<open>
  Every counter value is on a declared track: after a successful construction, which declares the
  tracks of all processors, every counter message that events of these processors lead to comes after
  the message that declares its track, below the processor it was read on.
\<close>

theorem counter_tracks_declared:
  assumes "PerfCounter_new lb ioctl_enable (Ok nprocs) recording cfg sid (w, []) = (Ok (x, prev), w', sent0)"
    and "\<forall>e\<in>set es. length (pc_counters e) = MAX_PERF_COUNTERS \<and> unat (pc_cpu_id e) < unat nprocs"
    and "sent = snd (counter_run x sid es (prev, sent0))"
    and "n < length sent" "sent ! n = Message_Stream sid' (Event_Counter c)"
  shows "\<exists>t e. Message_Stream sid (Event_Track t) \<in> set (take n sent) \<and> to_id (track_type t) = counter_track_id c \<and>
    e \<in> set es \<and> track_parent t = Some (TrackType_Cpu (pc_cpu_id e))"
proof -
  have x: "expansion_ok x" using PerfCounter_new_tracks [OF assms(1)] validate_ok by blast
  have decl: "\<forall>cpu<unat nprocs. tracks_declared x sid (unat nprocs) cpu sent0" and
    tracks: "\<forall>m\<in>set sent0. \<exists>t. m = Message_Stream sid (Event_Track t)"
    using PerfCounter_new_tracks [OF assms(1)] by auto
  obtain ms where ms: "sent = sent0 @ ms" "\<forall>m\<in>set ms. \<exists>e\<in>set es. \<exists>i\<in>track_positions x. \<exists>v. m = counter_message sid e i v"
    using counter_run_messages [OF x, of es sid prev sent0] assms(2,3) by auto
  have n: "\<not> n < length sent0"
  proof
    assume "n < length sent0"
    then have "sent ! n \<in> set sent0" by (simp add: ms(1) nth_append)
    then show False using tracks assms(5) by auto
  qed
  then have "sent ! n \<in> set ms" using assms(4) by (simp add: ms(1) nth_append)
  then obtain e i v where e: "e \<in> set es" "i \<in> track_positions x" "sent ! n = counter_message sid e i v" using ms(2) by blast
  then obtain name where "counter_track sid (unat nprocs) (unat (pc_cpu_id e)) i name \<in> set sent0"
    using decl assms(2) unfolding tracks_declared_def by blast
  moreover have "set sent0 \<subseteq> set (take n sent)" using n by (simp add: ms(1))
  ultimately show ?thesis
    using e assms(5) by (fastforce simp: counter_track_matches counter_message_def)
qed

definition example_libbpf :: "unit libbpf" where
  "example_libbpf = \<lparr>lb_open = ret (), lb_set_max_entries = (\<lambda>_ _. ret ()), lb_rodata = (\<lambda>_ _ w. w), lb_load = ret (),
    lb_update = (\<lambda>_ _ _. ret ()), lb_attach = ret (), lb_ring_add = ret (), lb_ring_build = ret (), lb_num_possible_cpus = 2,
    lb_perf_event_open = (\<lambda>_ _ _ _ _ w. (7, w)), lb_last_os_error = (\<lambda>_. ''error''), lb_attach_perf_event = (\<lambda>_. ret ())\<rparr>"

theorem counter_tracks_declared_witness:
  "\<exists>sent n c t. sent ! n = Message_Stream 5 (Event_Counter c) \<and> n < length sent \<and>
    Message_Stream 5 (Event_Track t) \<in> set (take n sent) \<and> to_id (track_type t) = counter_track_id c \<and>
    track_parent t = Some (TrackType_Cpu 1)"
proof -
  define r where "r = PerfCounter_new example_libbpf (\<lambda>_ w. (0, w)) (Ok 2) recording example_counters 5 ((), [])"
  have "fst r = Ok (example_expansion, [])" "length (snd (snd r)) = 4" unfolding r_def by code_simp+
  then have new: "PerfCounter_new example_libbpf (\<lambda>_ w. (0, w)) (Ok 2) recording example_counters 5 ((), []) =
      (Ok (example_expansion, []), (), snd (snd r))" and len: "length (snd (snd r)) = 4"
    unfolding r_def [symmetric] by (simp_all add: prod_eq_iff)
  let ?es = "[example_reading 1 10]"
  define sent where "sent = snd (counter_run example_expansion 5 ?es ([], snd (snd r)))"
  have "\<not> is_derived_only example_expansion ! 2" "[0..<3] = [0, 1, 2 :: nat]" by (simp_all add: example_expansion_def upt_rec)
  then obtain c rest where "sent = snd (snd r) @ Message_Stream 5 (Event_Counter c) # rest"
    by (auto simp: sent_def counter_run_def on_counter_event_recording example_reading_def example_expansion_def
        regular_messages_def counter_message_def)
  then have n: "4 < length sent" "sent ! 4 = Message_Stream 5 (Event_Counter c)" using len by (simp_all add: nth_append)
  have "\<forall>e\<in>set ?es. length (pc_counters e) = MAX_PERF_COUNTERS \<and> unat (pc_cpu_id e) < unat (2 :: usize)"
    by (simp add: example_reading_def MAX_PERF_COUNTERS_def)
  from counter_tracks_declared [OF new this sent_def n] n show ?thesis by (auto simp: example_reading_def)
qed

end
