(* ===== verification/NetKernel.thy ===== *)
theory NetKernel
  imports Prelude
begin

text \<open>
  Network accounting in the kernel (bpf/src/bpf/nettrack.bpf.c): programs at the return of the send and
  receive functions of TCP and UDP add the result to the statistics of the processor, of the process and
  of the peer.

  The socket and the message are records of the fields the programs read; a read of the address of a
  message may fail.  The statistics of the host are per processor, so no other program changes them at
  the same time; the others are changed by atomic additions, which commute, and are modelled one after
  the other.  The tables of processes and peers evict entries by themselves: which ones, and whether an
  insertion succeeds, fails or loses against an insertion on another processor, is part of the
  environment of a call.
\<close>

section \<open>Definitions\<close>

definition AF_INET :: u16 where "AF_INET = 2"
definition AF_INET6 :: u16 where "AF_INET6 = 10"
definition EAGAIN :: i32 where "EAGAIN = 11"
definition MSG_TRUNC :: u32 where "MSG_TRUNC = 0x20"

datatype NetProtocol = Tcp | Udp

record net_stats =
  send_bytes :: u64
  recv_bytes :: u64
  send_operations :: u64
  recv_operations :: u64
  send_errors :: u64
  recv_errors :: u64
  send_would_block :: u64
  recv_would_block :: u64
  tcp_recv_eof :: u64
  udp_recv_truncated :: u64
  first_seen_ns :: u64
  last_seen_ns :: u64

record process_key =
  pk_tgid :: u32
  pk_protocol :: u8

record peer_key =
  pr_tgid :: u32
  pr_protocol :: u8
  pr_family :: u8
  local_port :: u16
  remote_port :: u16
  remote_addr :: "u8 list"

record net_cfg =
  tcp_enabled :: bool
  udp_enabled :: bool
  send_enabled :: bool
  receive_enabled :: bool
  host_enabled :: bool
  process_enabled :: bool
  peer_enabled :: bool
  bytes_enabled :: bool
  operations_enabled :: bool
  errors_enabled :: bool
  net_filter_enabled :: bool

record sock =
  skc_family :: u16
  skc_num :: u16
  skc_dport :: u16
  skc_daddr :: "u8 list"
  skc_v6_daddr :: "u8 list"

text \<open>A message: its flags and what the reads of the family and of the address at its name give.\<close>

record msghdr =
  msg_flags :: u32
  msg_name :: "(u16 option \<times> (u16 \<times> u8 list) option) option"

datatype 'k insertion = Inserted "'k list" | Raced net_stats | Refused

record nenv =
  net_pid_tgid :: u64
  net_now :: u64
  net_cpu :: u32
  net_tracked :: "u32 \<Rightarrow> bool"
  process_insertion :: "process_key insertion"
  peer_insertion :: "peer_key insertion"

record net_maps =
  global_stats :: "u32 \<Rightarrow> NetProtocol \<Rightarrow> net_stats"
  process_stats :: "process_key \<rightharpoonup> net_stats"
  peer_stats :: "peer_key \<rightharpoonup> net_stats"

primrec net_index :: "NetProtocol \<Rightarrow> nat" where
  "net_index Tcp = 0"
| "net_index Udp = 1"

definition net_should_track :: "net_cfg \<Rightarrow> nenv \<Rightarrow> u32 \<Rightarrow> bool" where
  "net_should_track cfg k tgid = (if tgid = 0 then False else if \<not> net_filter_enabled cfg then True else net_tracked k tgid)"

definition zero_stats :: net_stats where
  "zero_stats = \<lparr>send_bytes = 0, recv_bytes = 0, send_operations = 0, recv_operations = 0, send_errors = 0, recv_errors = 0,
    send_would_block = 0, recv_would_block = 0, tcp_recv_eof = 0, udp_recv_truncated = 0, first_seen_ns = 0, last_seen_ns = 0\<rparr>"

definition initialize_stats :: "u64 \<Rightarrow> net_stats" where
  "initialize_stats now = zero_stats\<lparr>first_seen_ns := now, last_seen_ns := now\<rparr>"

definition update_errors :: "bool \<Rightarrow> i32 \<Rightarrow> net_stats \<Rightarrow> net_stats" where
  "update_errors send retval s =
    (if send then
       s\<lparr>send_errors := send_errors s + 1,
         send_would_block := (if retval = - EAGAIN then send_would_block s + 1 else send_would_block s)\<rparr>
     else
       s\<lparr>recv_errors := recv_errors s + 1,
         recv_would_block := (if retval = - EAGAIN then recv_would_block s + 1 else recv_would_block s)\<rparr>)"

definition update_send :: "net_cfg \<Rightarrow> i32 \<Rightarrow> net_stats \<Rightarrow> net_stats" where
  "update_send cfg retval s =
    s\<lparr>send_bytes := (if bytes_enabled cfg \<and> 0 <s retval then send_bytes s + ucast retval else send_bytes s),
      send_operations := (if operations_enabled cfg then send_operations s + 1 else send_operations s)\<rparr>"

definition update_recv :: "net_cfg \<Rightarrow> i32 \<Rightarrow> NetProtocol \<Rightarrow> u32 \<Rightarrow> net_stats \<Rightarrow> net_stats" where
  "update_recv cfg retval protocol flags s =
    (let s1 = s\<lparr>recv_bytes := (if bytes_enabled cfg \<and> 0 <s retval then recv_bytes s + ucast retval else recv_bytes s)\<rparr> in
     if operations_enabled cfg then
       s1\<lparr>recv_operations := recv_operations s1 + 1,
         tcp_recv_eof := (if protocol = Tcp \<and> retval = 0 then tcp_recv_eof s1 + 1 else tcp_recv_eof s1),
         udp_recv_truncated := (if protocol = Udp \<and> flags AND MSG_TRUNC \<noteq> 0 then udp_recv_truncated s1 + 1 else udp_recv_truncated s1)\<rparr>
     else s1)"

definition update_stats :: "net_cfg \<Rightarrow> bool \<Rightarrow> i32 \<Rightarrow> NetProtocol \<Rightarrow> u32 \<Rightarrow> u64 \<Rightarrow> net_stats \<Rightarrow> net_stats" where
  "update_stats cfg send retval protocol flags now s =
    (let s1 = s\<lparr>last_seen_ns := now\<rparr> in
     if retval <s 0 then (if \<not> errors_enabled cfg then s1 else update_errors send retval s1)
     else if send then update_send cfg retval s1
     else update_recv cfg retval protocol flags s1)"

text \<open>Adding to the entry of a key, which is created when it is missing.\<close>

definition update_entry :: "'k insertion \<Rightarrow> 'k \<Rightarrow> (net_stats \<Rightarrow> net_stats) \<Rightarrow> u64 \<Rightarrow> ('k \<rightharpoonup> net_stats) \<Rightarrow> ('k \<rightharpoonup> net_stats)" where
  "update_entry ins key upd now m =
    (case m key of
       Some s \<Rightarrow> m(key \<mapsto> upd s)
     | None \<Rightarrow>
         (case ins of
            Inserted evicted \<Rightarrow> (\<lambda>k. if k \<in> set evicted then None else m k)(key \<mapsto> upd (initialize_stats now))
          | Raced s \<Rightarrow> m(key \<mapsto> upd s)
          | Refused \<Rightarrow> m))"

definition update_process_stats ::
  "net_cfg \<Rightarrow> nenv \<Rightarrow> u32 \<Rightarrow> NetProtocol \<Rightarrow> bool \<Rightarrow> i32 \<Rightarrow> u32 \<Rightarrow> u64 \<Rightarrow> (process_key \<rightharpoonup> net_stats) \<Rightarrow> (process_key \<rightharpoonup> net_stats)" where
  "update_process_stats cfg k tgid protocol send retval flags now =
    update_entry (process_insertion k) \<lparr>pk_tgid = tgid, pk_protocol = word_of_nat (net_index protocol)\<rparr>
      (update_stats cfg send retval protocol flags now) now"

definition bpf_ntohs :: "u16 \<Rightarrow> u16" where
  "bpf_ntohs x = push_bit 8 x OR drop_bit 8 x"

text \<open>The address bytes written over the start of those of the key.\<close>

definition memcpy :: "u8 list \<Rightarrow> u8 list \<Rightarrow> u8 list" where
  "memcpy dst src = src @ drop (length src) dst"

definition peer_from_sock :: "sock \<Rightarrow> peer_key \<Rightarrow> bool \<times> peer_key" where
  "peer_from_sock sk key =
    (let family = skc_family sk;
         key1 = key\<lparr>pr_family := ucast family, local_port := skc_num sk, remote_port := bpf_ntohs (skc_dport sk)\<rparr> in
     if family = AF_INET then
       (list_ex (\<lambda>b. b \<noteq> 0) (skc_daddr sk) \<and> remote_port key1 \<noteq> 0, key1\<lparr>remote_addr := memcpy (remote_addr key1) (skc_daddr sk)\<rparr>)
     else if family = AF_INET6 then
       (remote_port key1 \<noteq> 0, key1\<lparr>remote_addr := memcpy (remote_addr key1) (skc_v6_daddr sk)\<rparr>)
     else (False, key1))"

definition peer_from_message :: "msghdr option \<Rightarrow> peer_key \<Rightarrow> bool \<times> peer_key" where
  "peer_from_message msg key =
    (case msg of
       None \<Rightarrow> (False, key)
     | Some m \<Rightarrow>
         (case msg_name m of
            None \<Rightarrow> (False, key)
          | Some (None, _) \<Rightarrow> (False, key)
          | Some (Some family, address) \<Rightarrow>
              if family = AF_INET \<or> family = AF_INET6 then
                (case address of
                   None \<Rightarrow> (False, key)
                 | Some (port, addr) \<Rightarrow>
                     (bpf_ntohs port \<noteq> 0, key\<lparr>pr_family := ucast family, remote_port := bpf_ntohs port,
                        remote_addr := memcpy (remote_addr key) addr\<rparr>))
              else (False, key)))"

definition update_peer_stats ::
  "net_cfg \<Rightarrow> nenv \<Rightarrow> sock \<Rightarrow> msghdr option \<Rightarrow> u32 \<Rightarrow> NetProtocol \<Rightarrow> bool \<Rightarrow> i32 \<Rightarrow> u32 \<Rightarrow> u64 \<Rightarrow>
    (peer_key \<rightharpoonup> net_stats) \<Rightarrow> (peer_key \<rightharpoonup> net_stats)" where
  "update_peer_stats cfg k sk msg tgid protocol send retval flags now m =
    (let key = \<lparr>pr_tgid = tgid, pr_protocol = word_of_nat (net_index protocol), pr_family = 0, local_port = skc_num sk,
           remote_port = 0, remote_addr = replicate 16 0\<rparr>;
         (found, key1) = (if protocol = Udp then peer_from_message msg key else (False, key));
         (found', key2) = (if \<not> found then peer_from_sock sk key1 else (True, key1)) in
     if \<not> found' then m
     else update_entry (peer_insertion k) key2 (update_stats cfg send retval protocol flags now) now m)"

definition account_socket_io ::
  "net_cfg \<Rightarrow> nenv \<Rightarrow> sock option \<Rightarrow> msghdr option \<Rightarrow> NetProtocol \<Rightarrow> bool \<Rightarrow> i32 \<Rightarrow> net_maps \<Rightarrow> net_maps" where
  "account_socket_io cfg k sk msg protocol send retval m =
    (if send \<and> \<not> send_enabled cfg \<or> \<not> send \<and> \<not> receive_enabled cfg then m
     else
       let tgid = ucast (drop_bit 32 (net_pid_tgid k)) in
       if \<not> net_should_track cfg k tgid then m
       else
         case sk of
           None \<Rightarrow> m
         | Some sk \<Rightarrow>
             if protocol = Tcp \<and> \<not> tcp_enabled cfg \<or> protocol = Udp \<and> \<not> udp_enabled cfg then m
             else
               let now = net_now k;
                   flags = (case msg of Some h \<Rightarrow> msg_flags h | None \<Rightarrow> 0);
                   m1 = (if host_enabled cfg then
                       m\<lparr>global_stats := (global_stats m)(net_cpu k := (global_stats m (net_cpu k))
                         (protocol := update_stats cfg send retval protocol flags now (global_stats m (net_cpu k) protocol)))\<rparr> else m);
                   m2 = (if process_enabled cfg then
                       m1\<lparr>process_stats := update_process_stats cfg k tgid protocol send retval flags now (process_stats m1)\<rparr> else m1) in
               if peer_enabled cfg then
                 m2\<lparr>peer_stats := update_peer_stats cfg k sk msg tgid protocol send retval flags now (peer_stats m2)\<rparr>
               else m2)"

definition trace_tcp_sendmsg :: "net_cfg \<Rightarrow> nenv \<Rightarrow> sock option \<Rightarrow> msghdr option \<Rightarrow> i32 \<Rightarrow> net_maps \<Rightarrow> net_maps" where
  "trace_tcp_sendmsg cfg k sk msg retval = account_socket_io cfg k sk msg Tcp True retval"

definition trace_tcp_recvmsg :: "net_cfg \<Rightarrow> nenv \<Rightarrow> sock option \<Rightarrow> msghdr option \<Rightarrow> i32 \<Rightarrow> net_maps \<Rightarrow> net_maps" where
  "trace_tcp_recvmsg cfg k sk msg retval = account_socket_io cfg k sk msg Tcp False retval"

definition trace_udp_sendmsg :: "net_cfg \<Rightarrow> nenv \<Rightarrow> sock option \<Rightarrow> msghdr option \<Rightarrow> i32 \<Rightarrow> net_maps \<Rightarrow> net_maps" where
  "trace_udp_sendmsg cfg k sk msg retval = account_socket_io cfg k sk msg Udp True retval"

definition trace_udp_recvmsg :: "net_cfg \<Rightarrow> nenv \<Rightarrow> sock option \<Rightarrow> msghdr option \<Rightarrow> i32 \<Rightarrow> net_maps \<Rightarrow> net_maps" where
  "trace_udp_recvmsg cfg k sk msg retval = account_socket_io cfg k sk msg Udp False retval"

section \<open>The bytes of the host\<close>

text \<open>A call of a traced function, and the bytes the host statistics of a protocol and direction get from it.\<close>

record io =
  io_env :: nenv
  io_sock :: "sock option"
  io_msg :: "msghdr option"
  io_protocol :: NetProtocol
  io_send :: bool
  io_ret :: i32

definition net_io :: "net_cfg \<Rightarrow> io \<Rightarrow> net_maps \<Rightarrow> net_maps" where
  "net_io cfg x = account_socket_io cfg (io_env x) (io_sock x) (io_msg x) (io_protocol x) (io_send x) (io_ret x)"

definition counts :: "net_cfg \<Rightarrow> io \<Rightarrow> bool" where
  "counts cfg x \<longleftrightarrow> (if io_send x then send_enabled cfg else receive_enabled cfg) \<and>
    net_should_track cfg (io_env x) (ucast (drop_bit 32 (net_pid_tgid (io_env x)))) \<and> io_sock x \<noteq> None \<and>
    (if io_protocol x = Tcp then tcp_enabled cfg else udp_enabled cfg) \<and> host_enabled cfg \<and> bytes_enabled cfg \<and> 0 <s io_ret x"

definition io_bytes :: "net_cfg \<Rightarrow> NetProtocol \<Rightarrow> bool \<Rightarrow> io \<Rightarrow> nat" where
  "io_bytes cfg p d x = (if io_protocol x = p \<and> io_send x = d \<and> counts cfg x then unat (io_ret x) else 0)"

definition bytes_of :: "bool \<Rightarrow> net_stats \<Rightarrow> u64" where
  "bytes_of d st = (if d then send_bytes st else recv_bytes st)"

lemma update_stats_bytes:
  "bytes_of d (update_stats cfg send retval protocol flags now st) =
    bytes_of d st + (if send = d \<and> bytes_enabled cfg \<and> 0 <s retval then ucast retval else 0)"
  "first_seen_ns (update_stats cfg send retval protocol flags now st) = first_seen_ns st"
  by (auto simp: update_stats_def update_errors_def update_send_def update_recv_def bytes_of_def Let_def word_sless_alt)

lemma net_io_global:
  "bytes_of d (global_stats (net_io cfg x m) cpu p) =
    bytes_of d (global_stats m cpu p) + (if cpu = net_cpu (io_env x) then word_of_nat (io_bytes cfg p d x) else 0)"
  "first_seen_ns (global_stats (net_io cfg x m) cpu p) = first_seen_ns (global_stats m cpu p)"
proof -
  have r: "word_of_nat (unat (io_ret x)) = (ucast (io_ret x) :: u64)" by simp
  show "bytes_of d (global_stats (net_io cfg x m) cpu p) =
      bytes_of d (global_stats m cpu p) + (if cpu = net_cpu (io_env x) then word_of_nat (io_bytes cfg p d x) else 0)"
    by (cases p; cases "io_protocol x")
      (auto simp: net_io_def account_socket_io_def io_bytes_def counts_def update_stats_bytes r Let_def split: option.splits)
  show "first_seen_ns (global_stats (net_io cfg x m) cpu p) = first_seen_ns (global_stats m cpu p)"
    by (auto simp: net_io_def account_socket_io_def update_stats_bytes Let_def split: option.splits)
qed

text \<open>The bytes of all processors.\<close>

definition host_bytes :: "u32 list \<Rightarrow> NetProtocol \<Rightarrow> bool \<Rightarrow> net_maps \<Rightarrow> nat" where
  "host_bytes cpus p d m = sum_list (map (\<lambda>cpu. unat (bytes_of d (global_stats m cpu p))) cpus)"

lemma host_bytes_io:
  assumes "distinct cpus" "net_cpu (io_env x) \<in> set cpus" "host_bytes cpus p d m + io_bytes cfg p d x < 2 ^ 64"
  shows "host_bytes cpus p d (net_io cfg x m) = host_bytes cpus p d m + io_bytes cfg p d x"
proof -
  let ?c = "net_cpu (io_env x)" and ?b = "\<lambda>m cpu. unat (bytes_of d (global_stats m cpu p))"
  obtain xs ys where cpus: "cpus = xs @ ?c # ys" using assms(2) by (meson split_list)
  then have new: "?c \<notin> set xs" "?c \<notin> set ys" using assms(1) by auto
  have same: "sum_list (map (?b (net_io cfg x m)) zs) = sum_list (map (?b m) zs)" if "?c \<notin> set zs" for zs
    using that by (intro arg_cong [where f = sum_list] map_cong) (auto simp: net_io_global)
  have "?b m ?c + io_bytes cfg p d x < 2 ^ 64" using assms(3) by (simp add: host_bytes_def cpus)
  then have "?b (net_io cfg x m) ?c = ?b m ?c + io_bytes cfg p d x"
    by (simp add: net_io_global unat_word_ariths unat_of_nat)
  then show ?thesis using same [OF new(1)] same [OF new(2)] by (simp add: host_bytes_def cpus)
qed

end
