(* ===== verification/NetTrack.thy ===== *)
theory NetTrack
  imports BpfCommon Floats NetKernel
begin

text \<open>
  Network tracking in user space (bpf/src/nettrack.rs): at fixed intervals the statistics of the kernel
  are read and the difference to the previous reading is sent as counters of the host, of the processes
  and of their peers.

  The maps of the kernel are read through the record \<open>net_reader\<close>, whose readings may fail; the bytes of
  an entry are the record the kernel wrote.  The random numbers and the clock are arguments.
\<close>

section \<open>Definitions\<close>

subsection \<open>Configuration\<close>

primrec net_from_index :: "nat \<Rightarrow> NetProtocol option" where
  "net_from_index 0 = Some Tcp"
| "net_from_index (Suc n) = (if n = 0 then Some Udp else None)"

primrec net_name :: "NetProtocol \<Rightarrow> string" where
  "net_name Tcp = ''tcp''"
| "net_name Udp = ''udp''"

datatype NetDirection = Send | Receive
datatype NetScope = Scope_Host | Scope_Process | Scope_Peer
datatype NetMetric = Bytes | Operations | Errors

record NetTrackConfig =
  nt_frequency :: u64
  nt_peer_frequency :: u64
  nt_ringbuf :: usize
  nt_scaled :: bool
  nt_protocols :: "NetProtocol list"
  nt_directions :: "NetDirection list"
  nt_scopes :: "NetScope list"
  nt_metrics :: "NetMetric list"
  nt_pid_filters :: "i32 list"
  nt_filter_process :: "string list"
  max_process_entries :: u32
  max_peer_entries :: u32
  max_peer_tracks :: usize

definition nt_default_frequency :: u64 where "nt_default_frequency = 9"
definition default_peer_frequency :: u64 where "default_peer_frequency = 1"
definition nt_default_ringbuf :: usize where "nt_default_ringbuf = 1024 * 1024"
definition default_protocols :: "NetProtocol list" where "default_protocols = [Tcp, Udp]"
definition default_directions :: "NetDirection list" where "default_directions = [Send, Receive]"
definition default_scopes :: "NetScope list" where "default_scopes = [Scope_Host]"
definition nt_default_metrics :: "NetMetric list" where "nt_default_metrics = [Bytes]"
definition default_process_entries :: u32 where "default_process_entries = 1024"
definition default_peer_entries :: u32 where "default_peer_entries = 4096"
definition default_peer_tracks :: usize where "default_peer_tracks = 512"

definition NetTrackConfig_default :: NetTrackConfig where
  "NetTrackConfig_default = \<lparr>nt_frequency = nt_default_frequency, nt_peer_frequency = default_peer_frequency,
    nt_ringbuf = nt_default_ringbuf, nt_scaled = False, nt_protocols = default_protocols, nt_directions = default_directions,
    nt_scopes = default_scopes, nt_metrics = nt_default_metrics, nt_pid_filters = [], nt_filter_process = [],
    max_process_entries = default_process_entries, max_peer_entries = default_peer_entries, max_peer_tracks = default_peer_tracks\<rparr>"

definition has_protocol :: "NetTrackConfig \<Rightarrow> NetProtocol \<Rightarrow> bool" where
  "has_protocol cfg p = (p \<in> set (nt_protocols cfg))"

definition has_direction :: "NetTrackConfig \<Rightarrow> NetDirection \<Rightarrow> bool" where
  "has_direction cfg d = (d \<in> set (nt_directions cfg))"

definition has_scope :: "NetTrackConfig \<Rightarrow> NetScope \<Rightarrow> bool" where
  "has_scope cfg sc = (sc \<in> set (nt_scopes cfg))"

definition nt_has_metric :: "NetTrackConfig \<Rightarrow> NetMetric \<Rightarrow> bool" where
  "nt_has_metric cfg m = (m \<in> set (nt_metrics cfg))"

definition nt_validate :: "NetTrackConfig \<Rightarrow> (BpfError, unit) result" where
  "nt_validate cfg =
    (if nt_frequency cfg = 0 then Err (LoadError ''nettrack frequency must be greater than zero'')
     else if has_scope cfg Scope_Peer \<and> nt_peer_frequency cfg = 0 then
       Err (LoadError ''nettrack peer_frequency must be greater than zero'')
     else if nt_protocols cfg = [] \<or> nt_directions cfg = [] \<or> nt_scopes cfg = [] \<or> nt_metrics cfg = [] then
       Err (LoadError ''nettrack protocols, directions, scopes, and metrics must not be empty'')
     else if has_scope cfg Scope_Process \<and> max_process_entries cfg = 0 then
       Err (LoadError ''nettrack max_process_entries must be greater than zero'')
     else if has_scope cfg Scope_Peer \<and> (max_peer_entries cfg = 0 \<or> max_peer_tracks cfg = 0) then
       Err (LoadError ''nettrack peer entry and track limits must be greater than zero'')
     else Ok ())"

subsection \<open>Statistics\<close>

definition accumulate :: "net_stats \<Rightarrow> net_stats \<Rightarrow> net_stats" where
  "accumulate s other =
    \<lparr>send_bytes = saturating_add (send_bytes s) (send_bytes other),
     recv_bytes = saturating_add (recv_bytes s) (recv_bytes other),
     send_operations = saturating_add (send_operations s) (send_operations other),
     recv_operations = saturating_add (recv_operations s) (recv_operations other),
     send_errors = saturating_add (send_errors s) (send_errors other),
     recv_errors = saturating_add (recv_errors s) (recv_errors other),
     send_would_block = saturating_add (send_would_block s) (send_would_block other),
     recv_would_block = saturating_add (recv_would_block s) (recv_would_block other),
     tcp_recv_eof = saturating_add (tcp_recv_eof s) (tcp_recv_eof other),
     udp_recv_truncated = saturating_add (udp_recv_truncated s) (udp_recv_truncated other),
     first_seen_ns = (if first_seen_ns s = 0 \<or> first_seen_ns other \<noteq> 0 \<and> first_seen_ns other < first_seen_ns s
       then first_seen_ns other else first_seen_ns s),
     last_seen_ns = max (last_seen_ns s) (last_seen_ns other)\<rparr>"

definition net_delta :: "net_stats \<Rightarrow> net_stats option \<Rightarrow> net_stats" where
  "net_delta s previous =
    (case previous of
       None \<Rightarrow> s
     | Some p \<Rightarrow>
         if first_seen_ns p \<noteq> first_seen_ns s then s
         else
           \<lparr>send_bytes = saturating_sub (send_bytes s) (send_bytes p),
            recv_bytes = saturating_sub (recv_bytes s) (recv_bytes p),
            send_operations = saturating_sub (send_operations s) (send_operations p),
            recv_operations = saturating_sub (recv_operations s) (recv_operations p),
            send_errors = saturating_sub (send_errors s) (send_errors p),
            recv_errors = saturating_sub (recv_errors s) (recv_errors p),
            send_would_block = saturating_sub (send_would_block s) (send_would_block p),
            recv_would_block = saturating_sub (recv_would_block s) (recv_would_block p),
            tcp_recv_eof = saturating_sub (tcp_recv_eof s) (tcp_recv_eof p),
            udp_recv_truncated = saturating_sub (udp_recv_truncated s) (udp_recv_truncated p),
            first_seen_ns = first_seen_ns s, last_seen_ns = last_seen_ns s\<rparr>)"

subsection \<open>Peers\<close>

datatype IpAddr = V4 "u8 list" | V6 "u8 list"

definition peer_protocol :: "peer_key \<Rightarrow> NetProtocol option" where
  "peer_protocol key = net_from_index (unat (pr_protocol key))"

definition remote_ip :: "peer_key \<Rightarrow> IpAddr option" where
  "remote_ip key =
    (if pr_family key = 2 then Some (V4 (take 4 (remote_addr key)))
     else if pr_family key = 10 then Some (V6 (remote_addr key)) else None)"

definition ipv4_string :: "u8 list \<Rightarrow> string" where
  "ipv4_string bs = join ''.'' (map (\<lambda>b. dec_nat (unat b)) bs)"

fun segments :: "u8 list \<Rightarrow> nat list" where
  "segments (a # b # bs) = (unat a * 256 + unat b) # segments bs"
| "segments _ = []"

text \<open>The longest run of zero segments, the first of several, as its start and length.\<close>

definition zero_run :: "nat list \<Rightarrow> nat \<times> nat" where
  "zero_run segs = fst (fold (\<lambda>(i, seg) (longest, current).
     if seg = 0 then
       let start = (if snd current = 0 then i else fst current); cur = (start, snd current + 1) in
       (if snd longest < snd cur then cur else longest, cur)
     else (longest, (0, 0))) (enumerate 0 segs) ((0, 0), (0, 0)))"

definition ipv6_string :: "u8 list \<Rightarrow> string" where
  "ipv6_string bs =
    (let segs = segments bs; hex = (\<lambda>xs. join '':'' (map hex_nat xs)); (start, len) = zero_run segs in
     if take 6 segs = [0, 0, 0, 0, 0, 0xffff] then ''::ffff:'' @ ipv4_string (drop 12 bs)
     else if 1 < len then hex (take start segs) @ ''::'' @ hex (drop (start + len) segs)
     else hex segs)"

definition peer_track_name :: "peer_key \<Rightarrow> string" where
  "peer_track_name key =
    (let protocol = (case peer_protocol key of Some p \<Rightarrow> net_name p | None \<Rightarrow> ''network'') in
     case remote_ip key of
       Some (V4 ip) \<Rightarrow> protocol @ '' '' @ ipv4_string ip @ '':'' @ dec_nat (unat (remote_port key))
     | Some (V6 ip) \<Rightarrow> protocol @ '' ['' @ ipv6_string ip @ '']:'' @ dec_nat (unat (remote_port key))
     | None \<Rightarrow> protocol @ '' unknown-peer'')"

subsection \<open>Counters\<close>

datatype ScopeKey = Host | Process u32 | Peer peer_key

datatype NetCounterKind = SendBytes | RecvBytes | SendOperations | RecvOperations | SendErrors | RecvErrors
  | SendWouldBlock | RecvWouldBlock | TcpRecvEof | UdpRecvTruncated | TotalSendBytes | TotalRecvBytes

record NetSeriesKey =
  sk_scope :: ScopeKey
  sk_protocol :: NetProtocol
  sk_kind :: NetCounterKind

record NetSample =
  sample_kind :: NetCounterKind
  sample_name :: string
  sample_value :: f64
  sample_unit :: string

record 'c NetTrack =
  nt_config :: NetTrackConfig
  last_sample_ns :: u64
  last_peer_sample_ns :: u64
  global_previous :: "net_stats list"
  process_previous :: "(process_key \<times> net_stats) list"
  peer_previous :: "(peer_key \<times> net_stats) list"
  series_ids :: "(NetSeriesKey \<times> u64) list"
  nt_submitted :: "TrackId list"
  peer_track_ids :: "(peer_key \<times> u64) list"
  nt_drawn :: nat
  nt_callback :: 'c

definition rate :: "u64 \<Rightarrow> f64 \<Rightarrow> f64" where
  "rate bytes elapsed_seconds = f64_div (f64_mul (f64_of_u64 bytes) 0x4020000000000000) elapsed_seconds"

definition byte_samples :: "bool \<Rightarrow> string \<Rightarrow> NetCounterKind \<Rightarrow> NetCounterKind \<Rightarrow> net_stats \<Rightarrow> f64 \<Rightarrow> NetSample list" where
  "byte_samples scaled prefix k1 k2 st elapsed_seconds =
    (if scaled then
       [\<lparr>sample_kind = k1, sample_name = prefix @ ''_send_rate'', sample_value = rate (send_bytes st) elapsed_seconds, sample_unit = ''bits/s''\<rparr>,
        \<lparr>sample_kind = k2, sample_name = prefix @ ''_recv_rate'', sample_value = rate (recv_bytes st) elapsed_seconds, sample_unit = ''bits/s''\<rparr>]
     else
       [\<lparr>sample_kind = k1, sample_name = prefix @ ''_send'', sample_value = f64_of_u64 (send_bytes st), sample_unit = ''bytes''\<rparr>,
        \<lparr>sample_kind = k2, sample_name = prefix @ ''_recv'', sample_value = f64_of_u64 (recv_bytes st), sample_unit = ''bytes''\<rparr>])"

definition count_sample :: "NetCounterKind \<Rightarrow> string \<Rightarrow> u64 \<Rightarrow> NetSample" where
  "count_sample k name v = \<lparr>sample_kind = k, sample_name = name, sample_value = f64_of_u64 v, sample_unit = ''count''\<rparr>"

definition samples_for :: "NetTrackConfig \<Rightarrow> NetProtocol \<Rightarrow> net_stats \<Rightarrow> f64 \<Rightarrow> NetSample list" where
  "samples_for cfg protocol st elapsed_seconds =
    (let prefix = net_name protocol in
     (if nt_has_metric cfg Bytes then byte_samples (nt_scaled cfg) prefix SendBytes RecvBytes st elapsed_seconds else []) @
     (if nt_has_metric cfg Operations then
        let operation = (if protocol = Udp then ''datagrams'' else ''calls'') in
        [count_sample SendOperations (prefix @ ''_send_'' @ operation) (send_operations st),
         count_sample RecvOperations (prefix @ ''_recv_'' @ operation) (recv_operations st),
         if protocol = Tcp then count_sample TcpRecvEof ''tcp_recv_eof'' (tcp_recv_eof st)
         else count_sample UdpRecvTruncated ''udp_recv_truncated'' (udp_recv_truncated st)] else []) @
     (if nt_has_metric cfg Errors then
        [count_sample SendErrors (prefix @ ''_send_errors'') (send_errors st),
         count_sample RecvErrors (prefix @ ''_recv_errors'') (recv_errors st),
         count_sample SendWouldBlock (prefix @ ''_send_would_block'') (send_would_block st),
         count_sample RecvWouldBlock (prefix @ ''_recv_would_block'') (recv_would_block st)] else []))"

definition nt_emit :: "'c callback \<Rightarrow> Message \<Rightarrow> ('c NetTrack, i32, unit) stm" where
  "nt_emit callback msg = on_field nt_callback (\<lambda>c u. u\<lparr>nt_callback := c\<rparr>) (emit callback msg)"

text \<open>The id of the track of a peer, declared at its first use while there are few enough.\<close>

definition ensure_peer_track :: "(nat \<Rightarrow> u64) \<Rightarrow> 'c callback \<Rightarrow> peer_key \<Rightarrow> 'c NetTrack \<Rightarrow> u64 option \<times> 'c NetTrack" where
  "ensure_peer_track rng callback key u =
    (case hm_get (peer_track_ids u) key of
       Some i \<Rightarrow> (Some i, u)
     | None \<Rightarrow>
         if unat (max_peer_tracks (nt_config u)) \<le> length (peer_track_ids u) then (None, u)
         else
           let i = rng (nt_drawn u); u1 = u\<lparr>nt_drawn := nt_drawn u + 1\<rparr> in
           case nt_emit callback (Message_Event (Event_Track \<lparr>track_name = peer_track_name key, track_type = TrackType_Custom i,
               track_parent = Some (TrackType_Process (pr_tgid key))\<rparr>)) u1 of
             (Inl e, u2) \<Rightarrow> (None, u2)
           | (Inr _, u2) \<Rightarrow> (Some i, u2\<lparr>peer_track_ids := hm_insert key i (peer_track_ids u2)\<rparr>))"

definition sample_parent :: "(nat \<Rightarrow> u64) \<Rightarrow> 'c callback \<Rightarrow> ScopeKey \<Rightarrow> 'c NetTrack \<Rightarrow> TrackType option option \<times> 'c NetTrack" where
  "sample_parent rng callback sc u =
    (case sc of
       Host \<Rightarrow> (Some None, u)
     | Process tgid \<Rightarrow> (Some (Some (TrackType_Process tgid)), u)
     | Peer key \<Rightarrow>
         (case ensure_peer_track rng callback key u of
            (None, u1) \<Rightarrow> (None, u1)
          | (Some i, u1) \<Rightarrow> (Some (Some (TrackType_Custom i)), u1)))"

definition series_id :: "(nat \<Rightarrow> u64) \<Rightarrow> NetSeriesKey \<Rightarrow> 'c NetTrack \<Rightarrow> u64 \<times> 'c NetTrack" where
  "series_id rng key u =
    (case hm_get (series_ids u) key of
       Some i \<Rightarrow> (i, u)
     | None \<Rightarrow> (rng (nt_drawn u), u\<lparr>series_ids := hm_insert key (rng (nt_drawn u)) (series_ids u), nt_drawn := nt_drawn u + 1\<rparr>))"

definition emit_sample ::
  "(nat \<Rightarrow> u64) \<Rightarrow> 'c callback \<Rightarrow> ScopeKey \<Rightarrow> NetProtocol \<Rightarrow> u64 \<Rightarrow> NetSample \<Rightarrow> ('c NetTrack, i32, unit) stm" where
  "emit_sample rng callback sc protocol timestamp sample u =
    (case sample_parent rng callback sc u of
       (None, u1) \<Rightarrow> (Ok (), u1)
     | (Some parent, u1) \<Rightarrow>
         (case series_id rng \<lparr>sk_scope = sc, sk_protocol = protocol, sk_kind = sample_kind sample\<rparr> u1 of
            (i, u2) \<Rightarrow>
              try_bind
                (if TrackId_Counter i \<in> set (nt_submitted u2) then ret ()
                 else
                   try_bind (modify (\<lambda>u. u\<lparr>nt_submitted := TrackId_Counter i # nt_submitted u\<rparr>)) (\<lambda>_.
                   nt_emit callback (Message_Event (Event_Track \<lparr>track_name = sample_name sample,
                     track_type = TrackType_Counter i (Some (sample_unit sample)), track_parent = parent\<rparr>))))
                (\<lambda>_. nt_emit callback (Message_Event (Event_Counter \<lparr>counter_name = sample_name sample,
                   counter_value = sample_value sample, counter_timestamp = timestamp, counter_track_id = TrackId_Counter i,
                   counter_labels = Labels_new, counter_unit = Some (sample_unit sample)\<rparr>))) u2))"

definition emit_stats ::
  "(nat \<Rightarrow> u64) \<Rightarrow> 'c callback \<Rightarrow> ScopeKey \<Rightarrow> NetProtocol \<Rightarrow> net_stats \<Rightarrow> f64 \<Rightarrow> u64 \<Rightarrow> ('c NetTrack, i32, unit) stm" where
  "emit_stats rng callback sc protocol st elapsed_seconds timestamp u =
    try_each (emit_sample rng callback sc protocol timestamp) (samples_for (nt_config u) protocol st elapsed_seconds) u"

subsection \<open>Sampling\<close>

record net_reader =
  lookup_global :: "NetProtocol \<Rightarrow> (string, net_stats list option) result"
  lookup_processes :: "(string, (process_key \<times> net_stats) list) result"
  lookup_peers :: "(string, (peer_key \<times> net_stats) list) result"

definition read_global :: "net_reader \<Rightarrow> NetProtocol \<Rightarrow> (BpfError, net_stats) result" where
  "read_global rd protocol =
    (case lookup_global rd protocol of
       Inl e \<Rightarrow> Err (MapError (''failed to read host network map: '' @ e))
     | Inr values \<Rightarrow> Ok (fold (\<lambda>v total. accumulate total v) (case values of Some vs \<Rightarrow> vs | None \<Rightarrow> []) zero_stats))"

definition read_processes :: "net_reader \<Rightarrow> (BpfError, (process_key \<times> net_stats) list) result" where
  "read_processes rd =
    (case lookup_processes rd of Inl e \<Rightarrow> Err (MapError (''failed to read process network map: '' @ e)) | Inr xs \<Rightarrow> Ok xs)"

definition read_peers :: "net_reader \<Rightarrow> (BpfError, (peer_key \<times> net_stats) list) result" where
  "read_peers rd =
    (case lookup_peers rd of Inl e \<Rightarrow> Err (MapError (''failed to read peer network map: '' @ e)) | Inr xs \<Rightarrow> Ok xs)"

definition elapsed_seconds :: "u64 \<Rightarrow> u64 \<Rightarrow> f64" where
  "elapsed_seconds now since = f64_div (f64_of_u64 (max (saturating_sub now since) 1)) 0x41cdcd6500000000"

primrec host_loop ::
  "(nat \<Rightarrow> u64) \<Rightarrow> 'c callback \<Rightarrow> net_reader \<Rightarrow> f64 \<Rightarrow> u64 \<Rightarrow> NetProtocol list \<Rightarrow> net_stats \<Rightarrow> ('c NetTrack, BpfError, net_stats) stm" where
  "host_loop rng callback rd secs now [] host_delta u = (Ok host_delta, u)"
| "host_loop rng callback rd secs now (p # ps) host_delta u =
    (if \<not> has_protocol (nt_config u) p then host_loop rng callback rd secs now ps host_delta u
     else
       case read_global rd p of
         Inl e \<Rightarrow> (Err e, u)
       | Inr current \<Rightarrow>
           (let d = net_delta current (Some (global_previous u ! net_index p));
                u1 = u\<lparr>global_previous := (global_previous u)[net_index p := current]\<rparr> in
            case emit_stats rng callback Host p d secs now u1 of
              (Inl _, u2) \<Rightarrow> (Ok (accumulate host_delta d), u2)
            | (Inr _, u2) \<Rightarrow> host_loop rng callback rd secs now ps (accumulate host_delta d) u2))"

definition sample_host :: "(nat \<Rightarrow> u64) \<Rightarrow> 'c callback \<Rightarrow> net_reader \<Rightarrow> f64 \<Rightarrow> u64 \<Rightarrow> ('c NetTrack, BpfError, unit) stm" where
  "sample_host rng callback rd secs now =
    try_bind (host_loop rng callback rd secs now [Tcp, Udp] zero_stats) (\<lambda>host_delta u.
    if nt_has_metric (nt_config u) Bytes then
      until_break (try_each (emit_sample rng callback Host Tcp now)
        (byte_samples (nt_scaled (nt_config u)) ''total'' TotalSendBytes TotalRecvBytes host_delta secs)) u
    else (Ok (), u))"

definition sample_process :: "(nat \<Rightarrow> u64) \<Rightarrow> 'c callback \<Rightarrow> f64 \<Rightarrow> u64 \<Rightarrow> process_key \<times> net_stats \<Rightarrow> ('c NetTrack, i32, unit) stm" where
  "sample_process rng callback secs now = (\<lambda>(key, current) u.
    case net_from_index (unat (pk_protocol key)) of
      None \<Rightarrow> (Ok (), u)
    | Some protocol \<Rightarrow>
        emit_stats rng callback (Process (pk_tgid key)) protocol (net_delta current (hm_get (process_previous u) key)) secs now
          (u\<lparr>process_previous := hm_insert key current (process_previous u)\<rparr>))"

definition sample_host_and_processes :: "(nat \<Rightarrow> u64) \<Rightarrow> 'c callback \<Rightarrow> net_reader \<Rightarrow> u64 \<Rightarrow> ('c NetTrack, BpfError, unit) stm" where
  "sample_host_and_processes rng callback rd now u0 =
    (let secs = elapsed_seconds now (last_sample_ns u0) in
     try_bind (\<lambda>u. if has_scope (nt_config u) Scope_Host then sample_host rng callback rd secs now u else (Ok (), u)) (\<lambda>_.
     try_bind (\<lambda>u. if has_scope (nt_config u) Scope_Process then
         (case read_processes rd of
            Inl e \<Rightarrow> (Err e, u)
          | Inr entries \<Rightarrow> until_break (try_each (sample_process rng callback secs now) entries) u) else (Ok (), u)) (\<lambda>_.
     modify (\<lambda>u. u\<lparr>last_sample_ns := now\<rparr>))) u0)"

definition sample_peer :: "(nat \<Rightarrow> u64) \<Rightarrow> 'c callback \<Rightarrow> f64 \<Rightarrow> u64 \<Rightarrow> peer_key \<times> net_stats \<Rightarrow> ('c NetTrack, i32, unit) stm" where
  "sample_peer rng callback secs now = (\<lambda>(key, current) u.
    case peer_protocol key of
      None \<Rightarrow> (Ok (), u)
    | Some protocol \<Rightarrow>
        emit_stats rng callback (Peer key) protocol (net_delta current (hm_get (peer_previous u) key)) secs now
          (u\<lparr>peer_previous := hm_insert key current (peer_previous u)\<rparr>))"

definition sample_peers :: "(nat \<Rightarrow> u64) \<Rightarrow> 'c callback \<Rightarrow> net_reader \<Rightarrow> u64 \<Rightarrow> ('c NetTrack, BpfError, unit) stm" where
  "sample_peers rng callback rd now u =
    (let secs = elapsed_seconds now (last_peer_sample_ns u) in
     case read_peers rd of
       Inl e \<Rightarrow> (Err e, u)
     | Inr entries \<Rightarrow>
         try_bind (until_break (try_each (sample_peer rng callback secs now) entries)) (\<lambda>_.
         modify (\<lambda>u. u\<lparr>last_peer_sample_ns := now\<rparr>)) u)"

definition nt_sample_if_due :: "(nat \<Rightarrow> u64) \<Rightarrow> 'c callback \<Rightarrow> net_reader \<Rightarrow> u64 \<Rightarrow> bool \<Rightarrow> ('c NetTrack, BpfError, unit) stm" where
  "nt_sample_if_due rng callback rd now force =
    try_bind (\<lambda>u. if force \<or> 1000000000 div nt_frequency (nt_config u) \<le> saturating_sub now (last_sample_ns u)
      then sample_host_and_processes rng callback rd now u else (Ok (), u)) (\<lambda>_ u.
    if has_scope (nt_config u) Scope_Peer \<and>
       (force \<or> 1000000000 div nt_peer_frequency (nt_config u) \<le> saturating_sub now (last_peer_sample_ns u))
    then sample_peers rng callback rd now u else (Ok (), u))"

definition nt_poll :: "(nat \<Rightarrow> u64) \<Rightarrow> 'c callback \<Rightarrow> net_reader \<Rightarrow> u64 \<Rightarrow> ('c NetTrack, BpfError, unit) stm" where
  "nt_poll rng callback rd now = nt_sample_if_due rng callback rd now False"

definition nt_consume :: "(nat \<Rightarrow> u64) \<Rightarrow> 'c callback \<Rightarrow> net_reader \<Rightarrow> u64 \<Rightarrow> ('c NetTrack, BpfError, unit) stm" where
  "nt_consume rng callback rd now = nt_sample_if_due rng callback rd now False"

definition nt_flush :: "(nat \<Rightarrow> u64) \<Rightarrow> 'c callback \<Rightarrow> net_reader \<Rightarrow> u64 \<Rightarrow> ('c NetTrack, BpfError, unit) stm" where
  "nt_flush rng callback rd now = nt_sample_if_due rng callback rd now True"

subsection \<open>Construction\<close>

definition nt_rodata :: "'w libbpf \<Rightarrow> NetTrackConfig \<Rightarrow> 'w \<Rightarrow> 'w" where
  "nt_rodata lb cfg = fold (\<lambda>(name, v). lb_rodata lb name (if v then 1 else 0))
    [(''tcp_enabled'', has_protocol cfg Tcp), (''udp_enabled'', has_protocol cfg Udp),
     (''send_enabled'', has_direction cfg Send), (''receive_enabled'', has_direction cfg Receive),
     (''host_enabled'', has_scope cfg Scope_Host), (''process_enabled'', has_scope cfg Scope_Process),
     (''peer_enabled'', has_scope cfg Scope_Peer), (''bytes_enabled'', nt_has_metric cfg Bytes),
     (''operations_enabled'', nt_has_metric cfg Operations), (''errors_enabled'', nt_has_metric cfg Errors),
     (''filter_enabled'', nt_pid_filters cfg \<noteq> [] \<or> nt_filter_process cfg \<noteq> [])]"

definition nt_autoload :: "(string \<Rightarrow> bool \<Rightarrow> 'w \<Rightarrow> 'w) \<Rightarrow> NetTrackConfig \<Rightarrow> 'w \<Rightarrow> 'w" where
  "nt_autoload set_autoload cfg = fold (\<lambda>(name, v). set_autoload name v)
    [(''trace_tcp_sendmsg'', has_protocol cfg Tcp \<and> has_direction cfg Send),
     (''trace_tcp_recvmsg'', has_protocol cfg Tcp \<and> has_direction cfg Receive),
     (''trace_udp_sendmsg'', has_protocol cfg Udp \<and> has_direction cfg Send),
     (''trace_udp_recvmsg'', has_protocol cfg Udp \<and> has_direction cfg Receive)]"

definition nt_add_pid_filter :: "'w libbpf \<Rightarrow> u32 \<Rightarrow> ('w, BpfError, unit) stm" where
  "nt_add_pid_filter lb pid = map_err (\<lambda>e. MapError (''failed to add PID filter: '' @ e)) (lb_update lb ''tracked_tgids'' pid 1)"

definition nt_filter :: "'w libbpf \<Rightarrow> i32 \<Rightarrow> ('w, BpfError, unit) stm" where
  "nt_filter lb pid = (if pid <s 0 then throw (MapError (''invalid PID filter: '' @ dec_i32 pid)) else nt_add_pid_filter lb pid)"

definition nt_configured_filter :: "'w libbpf \<Rightarrow> i32 \<Rightarrow> ('w, BpfError, unit) stm" where
  "nt_configured_filter lb pid =
    (if pid <s 0 then throw (LoadError (''nettrack PID filter must be positive: '' @ dec_i32 pid)) else nt_add_pid_filter lb pid)"

definition NetTrack_init :: "NetTrackConfig \<Rightarrow> u64 \<Rightarrow> 'c \<Rightarrow> 'c NetTrack" where
  "NetTrack_init cfg now c = \<lparr>nt_config = cfg, last_sample_ns = now, last_peer_sample_ns = now,
    global_previous = [zero_stats, zero_stats], process_previous = [], peer_previous = [], series_ids = [], nt_submitted = [],
    peer_track_ids = [], nt_drawn = 0, nt_callback = c\<rparr>"

definition NetTrack_new ::
  "'w libbpf \<Rightarrow> (string \<Rightarrow> bool \<Rightarrow> 'w \<Rightarrow> 'w) \<Rightarrow> ('w \<Rightarrow> u64) \<Rightarrow> NetTrackConfig \<Rightarrow> 'c \<Rightarrow> ('w, BpfError, 'c NetTrack) stm" where
  "NetTrack_new lb set_autoload clock cfg c =
    try_bind (open_skel lb) (\<lambda>_.
    try_bind (map_err (\<lambda>e. LoadError (''failed to size process map: '' @ e)) (lb_set_max_entries lb ''process_stats''
      (if has_scope cfg Scope_Process then max_process_entries cfg else 1))) (\<lambda>_.
    try_bind (map_err (\<lambda>e. LoadError (''failed to size peer map: '' @ e)) (lb_set_max_entries lb ''peer_stats''
      (if has_scope cfg Scope_Peer then max_peer_entries cfg else 1))) (\<lambda>_.
    try_bind (modify (nt_rodata lb cfg)) (\<lambda>_.
    try_bind (modify (nt_autoload set_autoload cfg)) (\<lambda>_.
    try_bind (load_skel lb) (\<lambda>_.
    try_bind (try_each (nt_configured_filter lb) (nt_pid_filters cfg)) (\<lambda>_.
    try_bind (attach_skel lb) (\<lambda>_.
    gets (\<lambda>w. NetTrack_init cfg (clock w) c)))))))))"

definition NetTrack_build ::
  "'w libbpf \<Rightarrow> (string \<Rightarrow> bool \<Rightarrow> 'w \<Rightarrow> 'w) \<Rightarrow> ('w \<Rightarrow> u64) \<Rightarrow> NetTrackConfig \<Rightarrow> 'c \<Rightarrow> ('w, BpfError, 'c NetTrack) stm" where
  "NetTrack_build lb set_autoload clock cfg c =
    (case nt_validate cfg of Inl e \<Rightarrow> throw e | Inr _ \<Rightarrow> NetTrack_new lb set_autoload clock cfg c)"

section \<open>Tracks\<close>

lemma nt_emit_recording [simp]: "nt_emit recording msg u = (Ok (), u\<lparr>nt_callback := nt_callback u @ [msg]\<rparr>)"
  by (simp add: nt_emit_def on_field_def)

primrec custom_track :: "Message \<Rightarrow> bool" where
  "custom_track (Message_Event e) = (case e of Event_Track t \<Rightarrow> (case track_type t of TrackType_Custom _ \<Rightarrow> True | _ \<Rightarrow> False) | _ \<Rightarrow> False)"
| "custom_track (Message_Stream i e) = False"

text \<open>
  The state with a recorded log: the tracks of the submitted counters and of the peers are declared, every
  counter comes after its track, and there is one custom track per known peer, within the limit.
\<close>

definition nt_inv :: "NetTrackConfig \<Rightarrow> Message list NetTrack \<Rightarrow> bool" where
  "nt_inv cfg u \<longleftrightarrow> nt_config u = cfg \<and> counters_declared (nt_callback u) \<and>
    (\<forall>i\<in>set (nt_submitted u). declared i (nt_callback u)) \<and>
    (\<forall>k i. hm_get (peer_track_ids u) k = Some i \<longrightarrow> declared (TrackId_Custom i) (nt_callback u)) \<and>
    length (peer_track_ids u) \<le> unat (max_peer_tracks cfg) \<and>
    length (filter custom_track (nt_callback u)) = length (peer_track_ids u)"

text \<open>Changes of the state that the invariant does not look at.\<close>

lemma nt_inv_frame [simp]:
  "nt_inv cfg (u\<lparr>nt_drawn := a\<rparr>) = nt_inv cfg u" "nt_inv cfg (u\<lparr>series_ids := b\<rparr>) = nt_inv cfg u"
  "nt_inv cfg (u\<lparr>global_previous := c\<rparr>) = nt_inv cfg u" "nt_inv cfg (u\<lparr>process_previous := d\<rparr>) = nt_inv cfg u"
  "nt_inv cfg (u\<lparr>peer_previous := e\<rparr>) = nt_inv cfg u" "nt_inv cfg (u\<lparr>last_sample_ns := f\<rparr>) = nt_inv cfg u"
  "nt_inv cfg (u\<lparr>last_peer_sample_ns := g\<rparr>) = nt_inv cfg u"
  by (simp_all add: nt_inv_def)

lemma hm_insert_length: "hm_get m k = None \<Longrightarrow> length (hm_insert k v m) = length m + 1"
  by (induction k v m rule: hm_insert.induct) (auto simp: hm_get_def split: if_splits)

lemma ensure_peer_track_inv:
  assumes "nt_inv cfg u" "ensure_peer_track rng recording key u = (r, u')"
  shows "nt_inv cfg u' \<and> (\<forall>i. r = Some i \<longrightarrow> declared (TrackId_Custom i) (nt_callback u'))"
proof (cases "hm_get (peer_track_ids u) key")
  case (Some i)
  then show ?thesis using assms by (auto simp: ensure_peer_track_def nt_inv_def)
next
  case None
  then show ?thesis using assms hm_insert_length [OF None]
    by (auto simp: ensure_peer_track_def nt_inv_def Let_def declared_snoc counters_declared_snoc' split: if_splits)
qed

lemma emit_sample_inv:
  assumes inv: "nt_inv cfg u"
  shows "fst (emit_sample rng recording sc p ts sample u) = Ok () \<and> nt_inv cfg (snd (emit_sample rng recording sc p ts sample u))"
proof -
  obtain r u1 where parent: "sample_parent rng recording sc u = (r, u1)" by fastforce
  have u1: "nt_inv cfg u1"
    using parent inv ensure_peer_track_inv [OF inv] by (auto simp: sample_parent_def split: ScopeKey.splits prod.splits option.splits)
  show ?thesis
  proof (cases r)
    case None
    then show ?thesis using parent u1 by (simp add: emit_sample_def)
  next
    case (Some pt)
    obtain i u2 where sid: "series_id rng \<lparr>sk_scope = sc, sk_protocol = p, sk_kind = sample_kind sample\<rparr> u1 = (i, u2)" by fastforce
    have "nt_inv cfg u2" using sid u1 by (auto simp: series_id_def split: option.splits)
    then show ?thesis using parent Some sid
      by (auto simp: emit_sample_def nt_inv_def try_bind_def declared_snoc declared_snoc2 counters_declared_snoc' counters_declared_snoc2)
  qed
qed

lemma emit_stats_inv:
  "nt_inv cfg u \<Longrightarrow> fst (emit_stats rng recording sc p st secs ts u) = Ok () \<and> nt_inv cfg (snd (emit_stats rng recording sc p st secs ts u))"
  unfolding emit_stats_def by (rule try_each_keeps) (simp_all add: emit_sample_inv)

lemma host_loop_inv: "nt_inv cfg u \<Longrightarrow> nt_inv cfg (snd (host_loop rng recording rd secs now ps d0 u))"
proof (induction ps arbitrary: d0 u)
  case (Cons p ps)
  have "nt_inv cfg u2" if "emit_stats rng recording Host p st secs now (u\<lparr>global_previous := g\<rparr>) = (r, u2)" for st g r u2
    using emit_stats_inv [of cfg "u\<lparr>global_previous := g\<rparr>" rng Host p st secs now] Cons.prems that by simp
  then show ?case using Cons by (auto simp: Let_def split: sum.split prod.splits)
qed simp

lemma sample_host_inv:
  assumes "nt_inv cfg u"
  shows "nt_inv cfg (snd (sample_host rng recording rd secs now u))"
proof -
  obtain r u1 where r: "host_loop rng recording rd secs now [Tcp, Udp] zero_stats u = (r, u1)" by (metis surj_pair)
  have u1: "nt_inv cfg u1" using host_loop_inv [OF assms] r by (metis snd_conv)
  have "nt_inv cfg (snd (try_each (emit_sample rng recording Host Tcp now) xs u1))" for xs
    using try_each_keeps [where P = "nt_inv cfg"] emit_sample_inv u1 by metis
  then show ?thesis using r u1 by (auto simp: sample_host_def try_bind_def until_break_def split: sum.splits)
qed

lemma sample_entries_inv:
  assumes "nt_inv cfg u"
  shows "nt_inv cfg (snd (try_each (sample_process rng recording secs now) ps u))"
    "nt_inv cfg (snd (try_each (sample_peer rng recording secs now) qs u))"
proof -
  have "fst (sample_process rng recording secs now x u) = Ok () \<and> nt_inv cfg (snd (sample_process rng recording secs now x u))"
    "fst (sample_peer rng recording secs now y u) = Ok () \<and> nt_inv cfg (snd (sample_peer rng recording secs now y u))" if "nt_inv cfg u" for x y u
    using that emit_stats_inv by (auto simp: sample_process_def sample_peer_def split: prod.splits option.splits)
  then show "nt_inv cfg (snd (try_each (sample_process rng recording secs now) ps u))"
    "nt_inv cfg (snd (try_each (sample_peer rng recording secs now) qs u))"
    using try_each_keeps [where P = "nt_inv cfg"] assms by metis+
qed

lemma sample_host_and_processes_inv:
  assumes "nt_inv cfg u"
  shows "nt_inv cfg (snd (sample_host_and_processes rng recording rd now u))"
proof -
  let ?secs = "elapsed_seconds now (last_sample_ns u)"
  let ?host = "\<lambda>u. if has_scope (nt_config u) Scope_Host then sample_host rng recording rd ?secs now u else (Ok (), u)"
  obtain r u1 where r: "?host u = (r, u1)" by fastforce
  then have "nt_inv cfg u1" using assms sample_host_inv [OF assms, of rng rd ?secs now] by (auto split: if_splits)
  then show ?thesis using r sample_entries_inv(1) [of cfg u1]
    by (auto simp: sample_host_and_processes_def try_bind_def until_break_def Let_def split: sum.splits)
qed

lemma sample_peers_inv:
  "nt_inv cfg u \<Longrightarrow> nt_inv cfg (snd (sample_peers rng recording rd now u))"
  using sample_entries_inv(2) [of cfg u]
  by (auto simp: sample_peers_def try_bind_def until_break_def Let_def split: sum.splits)

lemma nt_sample_if_due_inv:
  assumes "nt_inv cfg u"
  shows "nt_inv cfg (snd (nt_sample_if_due rng recording rd now force u))"
proof -
  let ?first = "\<lambda>u. if force \<or> 1000000000 div nt_frequency (nt_config u) \<le> saturating_sub now (last_sample_ns u)
      then sample_host_and_processes rng recording rd now u else (Ok (), u)"
  obtain r u1 where r: "?first u = (r, u1)" by fastforce
  then have "nt_inv cfg u1" using assms sample_host_and_processes_inv [OF assms, of rng rd now] by (auto split: if_splits)
  then show ?thesis using r sample_peers_inv [of cfg u1 rng rd now] by (simp add: nt_sample_if_due_def try_bind_def split: sum.splits)
qed

section \<open>The bytes of the host\<close>

definition values_named :: "string \<Rightarrow> Message list \<Rightarrow> f64 list" where
  "values_named nm = List.map_filter (\<lambda>msg. case msg of
      Message_Event (Event_Counter c) \<Rightarrow> if counter_name c = nm then Some (counter_value c) else None | _ \<Rightarrow> None)"

lemma values_named_append [simp]: "values_named nm (xs @ ys) = values_named nm xs @ values_named nm ys"
  by (simp add: values_named_def List.map_filter_def)

lemma values_named_simps [simp]:
  "values_named nm [] = []" "values_named nm (Message_Event (Event_Track t) # ms) = values_named nm ms"
  "values_named nm (Message_Event (Event_Counter c) # ms) = (if counter_name c = nm then [counter_value c] else []) @ values_named nm ms"
  by (simp_all add: values_named_def List.map_filter_simps)

definition byte_name :: "NetProtocol \<Rightarrow> bool \<Rightarrow> string" where
  "byte_name p d = net_name p @ (if d then ''_send'' else ''_recv'')"

text \<open>What sampling the host does to the fields the bytes depend on.\<close>

definition bytes_view :: "string \<Rightarrow> Message list NetTrack \<Rightarrow> NetTrackConfig \<times> net_stats list \<times> f64 list" where
  "bytes_view nm u = (nt_config u, global_previous u, values_named nm (nt_callback u))"

lemma emit_sample_host:
  "\<exists>u'. emit_sample rng recording Host p ts sample u = (Ok (), u') \<and>
    bytes_view nm u' = (nt_config u, global_previous u,
      values_named nm (nt_callback u) @ (if sample_name sample = nm then [sample_value sample] else []))"
  by (auto simp: emit_sample_def sample_parent_def series_id_def try_bind_def bytes_view_def split: option.splits)

lemma emit_samples_host:
  "\<exists>u'. try_each (emit_sample rng recording Host p ts) samples u = (Ok (), u') \<and>
    bytes_view nm u' = (nt_config u, global_previous u,
      values_named nm (nt_callback u) @ map sample_value (filter (\<lambda>x. sample_name x = nm) samples))"
proof (induction samples arbitrary: u)
  case (Cons x xs)
  obtain u1 where u1: "emit_sample rng recording Host p ts x u = (Ok (), u1)" "bytes_view nm u1 = (nt_config u, global_previous u,
      values_named nm (nt_callback u) @ (if sample_name x = nm then [sample_value x] else []))"
    using emit_sample_host by blast
  obtain u2 where "try_each (emit_sample rng recording Host p ts) xs u1 = (Ok (), u2)"
      "bytes_view nm u2 = (nt_config u1, global_previous u1,
        values_named nm (nt_callback u1) @ map sample_value (filter (\<lambda>x. sample_name x = nm) xs))"
    using Cons.IH by blast
  then show ?case using u1 by (simp add: try_bind_Ok bytes_view_def)
qed (simp add: bytes_view_def)

lemma samples_for_bytes:
  assumes "nt_has_metric cfg Bytes" "\<not> nt_scaled cfg"
  shows "map sample_value (filter (\<lambda>x. sample_name x = byte_name p d) (samples_for cfg q st secs)) =
    (if q = p then [f64_of_u64 (bytes_of d st)] else [])"
  using assms by (cases p; cases q; cases d) (simp_all add: samples_for_def byte_samples_def byte_name_def count_sample_def bytes_of_def Let_def)

lemma total_samples_bytes: "filter (\<lambda>x. sample_name x = byte_name p d) (byte_samples scaled ''total'' k1 k2 st secs) = []"
  by (cases p; cases d) (simp_all add: byte_samples_def byte_name_def)

lemma emit_stats_host:
  assumes "nt_has_metric (nt_config u) Bytes" "\<not> nt_scaled (nt_config u)"
  obtains u' where "emit_stats rng recording Host q st secs now u = (Ok (), u')"
    "bytes_view (byte_name p d) u' = (nt_config u, global_previous u,
      values_named (byte_name p d) (nt_callback u) @ (if q = p then [f64_of_u64 (bytes_of d st)] else []))"
  using emit_samples_host [of rng q now "samples_for (nt_config u) q st secs" u "byte_name p d"] samples_for_bytes [OF assms, of p d q st secs]
  by (auto simp: emit_stats_def)

text \<open>The readings of a protocol on all processors.\<close>

definition map_reader :: "u32 list \<Rightarrow> (string, (process_key \<times> net_stats) list) result \<Rightarrow> net_maps \<Rightarrow> net_reader" where
  "map_reader cpus procs m = \<lparr>lookup_global = (\<lambda>p. Ok (Some (map (\<lambda>cpu. global_stats m cpu p) cpus))),
    lookup_processes = procs, lookup_peers = Ok []\<rparr>"

definition reading :: "u32 list \<Rightarrow> net_maps \<Rightarrow> NetProtocol \<Rightarrow> net_stats" where
  "reading cpus m p = fold (\<lambda>v total. accumulate total v) (map (\<lambda>cpu. global_stats m cpu p) cpus) zero_stats"

lemma read_global_reader [simp]: "read_global (map_reader cpus procs m) p = Ok (reading cpus m p)"
  by (simp add: read_global_def map_reader_def reading_def)

lemma accumulate_bytes: "unat (bytes_of d (accumulate a b)) = min (unat (bytes_of d a) + unat (bytes_of d b)) (2 ^ 64 - 1)"
  by (simp add: bytes_of_def accumulate_def unat_saturating_add)

lemma accumulate_first_seen: "first_seen_ns a = 0 \<Longrightarrow> first_seen_ns b = 0 \<Longrightarrow> first_seen_ns (accumulate a b) = 0"
  by (simp add: accumulate_def)

lemma reading_fold:
  "unat (bytes_of d acc) + sum_list (map (unat \<circ> bytes_of d) vs) < 2 ^ 64 \<Longrightarrow>
    unat (bytes_of d (fold (\<lambda>v total. accumulate total v) vs acc)) = unat (bytes_of d acc) + sum_list (map (unat \<circ> bytes_of d) vs)"
  by (induction vs arbitrary: acc) (simp_all add: accumulate_bytes)

lemma reading_bytes:
  assumes "host_bytes cpus p d m < 2 ^ 64"
  shows "unat (bytes_of d (reading cpus m p)) = host_bytes cpus p d m"
proof -
  have "unat (bytes_of d zero_stats) = 0" by (simp add: bytes_of_def zero_stats_def)
  then show ?thesis using reading_fold [of d zero_stats "map (\<lambda>cpu. global_stats m cpu p) cpus"] assms
    by (simp add: reading_def host_bytes_def comp_def)
qed

lemma reading_first_seen:
  assumes "\<And>cpu. first_seen_ns (global_stats m cpu p) = 0"
  shows "first_seen_ns (reading cpus m p) = 0"
proof -
  have "first_seen_ns acc = 0 \<Longrightarrow> first_seen_ns (fold (\<lambda>v total. accumulate total v) (map (\<lambda>cpu. global_stats m cpu p) cpus) acc) = 0" for acc
    using assms by (induction cpus arbitrary: acc) (simp_all add: accumulate_first_seen)
  then show ?thesis by (simp add: reading_def zero_stats_def)
qed

text \<open>One round of the host: the difference of the protocol is sent and its reading remembered.\<close>

definition after_host :: "u32 list \<Rightarrow> net_maps \<Rightarrow> NetTrackConfig \<Rightarrow> NetProtocol list \<Rightarrow> net_stats list \<Rightarrow> net_stats list" where
  "after_host cpus m cfg ps prev = fold (\<lambda>p prev. if has_protocol cfg p then prev[net_index p := reading cpus m p] else prev) ps prev"

definition host_values :: "u32 list \<Rightarrow> net_maps \<Rightarrow> NetTrackConfig \<Rightarrow> NetProtocol \<Rightarrow> bool \<Rightarrow> net_stats list \<Rightarrow> f64 list" where
  "host_values cpus m cfg p d prev =
    (if has_protocol cfg p then [f64_of_u64 (bytes_of d (net_delta (reading cpus m p) (Some (prev ! net_index p))))] else [])"

lemma net_index_inj: "net_index p = net_index q \<longleftrightarrow> p = q"
  by (cases p; cases q) simp_all

lemma host_loop_bytes:
  assumes "nt_has_metric (nt_config u) Bytes" "\<not> nt_scaled (nt_config u)" "distinct ps"
  shows "\<exists>r u'. host_loop rng recording (map_reader cpus procs m) secs now ps d0 u = (Ok r, u') \<and>
    bytes_view (byte_name p d) u' = (nt_config u, after_host cpus m (nt_config u) ps (global_previous u),
      values_named (byte_name p d) (nt_callback u) @
        (if p \<in> set ps then host_values cpus m (nt_config u) p d (global_previous u) else []))"
  using assms
proof (induction ps arbitrary: d0 u)
  case Nil
  then show ?case by (simp add: bytes_view_def after_host_def)
next
  case (Cons q qs)
  show ?case
  proof (cases "has_protocol (nt_config u) q")
    case False
    then show ?thesis using Cons.IH [of u d0] Cons.prems by (auto simp: after_host_def host_values_def)
  next
    case True
    let ?dl = "net_delta (reading cpus m q) (Some (global_previous u ! net_index q))"
    let ?u1 = "u\<lparr>global_previous := (global_previous u)[net_index q := reading cpus m q]\<rparr>"
    obtain u2 where u2: "emit_stats rng recording Host q ?dl secs now ?u1 = (Ok (), u2)"
        "bytes_view (byte_name p d) u2 = (nt_config u, (global_previous u)[net_index q := reading cpus m q],
          values_named (byte_name p d) (nt_callback u) @ (if q = p then [f64_of_u64 (bytes_of d ?dl)] else []))"
      using emit_stats_host [of ?u1 rng q ?dl secs now p d] Cons.prems by auto
    then have v: "nt_config u2 = nt_config u" "global_previous u2 = (global_previous u)[net_index q := reading cpus m q]"
        "values_named (byte_name p d) (nt_callback u2) = values_named (byte_name p d) (nt_callback u) @ (if q = p then [f64_of_u64 (bytes_of d ?dl)] else [])"
      by (simp_all add: bytes_view_def)
    obtain r u' where "host_loop rng recording (map_reader cpus procs m) secs now qs (accumulate d0 ?dl) u2 = (Ok r, u')"
        "bytes_view (byte_name p d) u' = (nt_config u2, after_host cpus m (nt_config u2) qs (global_previous u2),
          values_named (byte_name p d) (nt_callback u2) @ (if p \<in> set qs then host_values cpus m (nt_config u2) p d (global_previous u2) else []))"
      using Cons.IH [of u2 "accumulate d0 ?dl"] Cons.prems v(1) by auto
    then show ?thesis using True u2(1) v Cons.prems(3)
      by (auto simp: Let_def after_host_def host_values_def net_index_inj)
  qed
qed

lemma sample_host_bytes:
  assumes cfg: "nt_config u = cfg" "nt_has_metric cfg Bytes" "\<not> nt_scaled cfg" "has_scope cfg Scope_Host" "\<not> has_scope cfg Scope_Process"
  shows "bytes_view (byte_name p d) (snd (sample_host_and_processes rng recording (map_reader cpus procs m) now u)) =
    (cfg, after_host cpus m cfg [Tcp, Udp] (global_previous u),
     values_named (byte_name p d) (nt_callback u) @ host_values cpus m cfg p d (global_previous u))"
proof -
  let ?secs = "elapsed_seconds now (last_sample_ns u)"
  have two: "p \<in> set [Tcp, Udp]" by (cases p) simp_all
  obtain r u1 where u1: "host_loop rng recording (map_reader cpus procs m) ?secs now [Tcp, Udp] zero_stats u = (Ok r, u1)"
      "bytes_view (byte_name p d) u1 = (cfg, after_host cpus m cfg [Tcp, Udp] (global_previous u),
        values_named (byte_name p d) (nt_callback u) @ host_values cpus m cfg p d (global_previous u))"
    using host_loop_bytes [of u "[Tcp, Udp]" rng cpus procs m ?secs now zero_stats p d] cfg two by auto
  obtain u2 where u2: "try_each (emit_sample rng recording Host Tcp now)
      (byte_samples (nt_scaled cfg) ''total'' TotalSendBytes TotalRecvBytes r ?secs) u1 = (Ok (), u2)"
      "bytes_view (byte_name p d) u2 = bytes_view (byte_name p d) u1"
    using emit_samples_host [of rng Tcp now "byte_samples (nt_scaled cfg) ''total'' TotalSendBytes TotalRecvBytes r ?secs" u1 "byte_name p d"]
    by (auto simp: total_samples_bytes bytes_view_def)
  have c: "nt_config u1 = cfg" "nt_config u2 = cfg" using u1(2) u2(2) by (simp_all add: bytes_view_def)
  have "snd (sample_host_and_processes rng recording (map_reader cpus procs m) now u) = u2\<lparr>last_sample_ns := now\<rparr>"
    using cfg u1(1) u2(1) c by (simp add: sample_host_and_processes_def sample_host_def try_bind_def until_break_def Let_def)
  then show ?thesis using u1(2) u2(2) by (simp add: bytes_view_def)
qed

text \<open>Calls of traced functions and samples of the host, in any order.\<close>

datatype net_step = Net_Io io | Net_Sample u64 "(string, (process_key \<times> net_stats) list) result"

definition net_step :: "net_cfg \<Rightarrow> (nat \<Rightarrow> u64) \<Rightarrow> u32 list \<Rightarrow> net_step \<Rightarrow> net_maps \<times> Message list NetTrack \<Rightarrow> net_maps \<times> Message list NetTrack" where
  "net_step kcfg rng cpus st = (\<lambda>(m, u). case st of
      Net_Io x \<Rightarrow> (net_io kcfg x m, u)
    | Net_Sample now procs \<Rightarrow> (m, snd (sample_host_and_processes rng recording (map_reader cpus procs m) now u)))"

primrec step_bytes :: "net_cfg \<Rightarrow> NetProtocol \<Rightarrow> bool \<Rightarrow> net_step \<Rightarrow> nat" where
  "step_bytes kcfg p d (Net_Io x) = io_bytes kcfg p d x"
| "step_bytes kcfg p d (Net_Sample now procs) = 0"

primrec step_cpu_ok :: "u32 list \<Rightarrow> net_step \<Rightarrow> bool" where
  "step_cpu_ok cpus (Net_Io x) = (net_cpu (io_env x) \<in> set cpus)"
| "step_cpu_ok cpus (Net_Sample now procs) = True"

definition empty_maps :: net_maps where
  "empty_maps = \<lparr>global_stats = (\<lambda>_ _. zero_stats), process_stats = Map.empty, peer_stats = Map.empty\<rparr>"

text \<open>The bytes counted are in the maps, and those up to the last sample have been sent.\<close>

definition bytes_inv :: "NetTrackConfig \<Rightarrow> u32 list \<Rightarrow> NetProtocol \<Rightarrow> bool \<Rightarrow> nat \<Rightarrow> nat \<Rightarrow> net_maps \<times> Message list NetTrack \<Rightarrow> bool" where
  "bytes_inv cfg cpus p d counted reported = (\<lambda>(m, u).
    nt_config u = cfg \<and> (\<forall>cpu. first_seen_ns (global_stats m cpu p) = 0) \<and> host_bytes cpus p d m = counted \<and> reported \<le> counted \<and>
    net_index p < length (global_previous u) \<and> first_seen_ns (global_previous u ! net_index p) = 0 \<and>
    unat (bytes_of d (global_previous u ! net_index p)) = reported \<and>
    (\<exists>ds. values_named (byte_name p d) (nt_callback u) = map f64_of_u64 ds \<and> sum_list (map unat ds) = reported))"

lemma after_host_nth:
  "has_protocol cfg p \<Longrightarrow> net_index p < length prev \<Longrightarrow> length prev = 2 \<Longrightarrow>
    after_host cpus m cfg [Tcp, Udp] prev ! net_index p = reading cpus m p"
  by (cases p) (simp_all add: after_host_def nth_list_update)

lemma after_host_length: "length (after_host cpus m cfg ps prev) = length prev"
  by (induction ps arbitrary: prev) (simp_all add: after_host_def)

lemma bytes_inv_step:
  assumes inv: "bytes_inv cfg cpus p d c r (m, u)" and two: "length (global_previous u) = 2"
    and cfg: "nt_has_metric cfg Bytes" "\<not> nt_scaled cfg" "has_scope cfg Scope_Host" "\<not> has_scope cfg Scope_Process" "has_protocol cfg p"
    and cpus: "distinct cpus" "step_cpu_ok cpus st" and few: "c + step_bytes kcfg p d st < 2 ^ 64"
  shows "bytes_inv cfg cpus p d (c + step_bytes kcfg p d st) (case st of Net_Io _ \<Rightarrow> r | Net_Sample _ _ \<Rightarrow> c) (net_step kcfg rng cpus st (m, u)) \<and>
    length (global_previous (snd (net_step kcfg rng cpus st (m, u)))) = 2"
proof (cases st)
  case (Net_Io x)
  then show ?thesis using inv two cpus few host_bytes_io [of cpus x p d m kcfg]
    by (auto simp: bytes_inv_def net_step_def net_io_global)
next
  case (Net_Sample now procs)
  let ?u = "snd (sample_host_and_processes rng recording (map_reader cpus procs m) now u)"
  have i: "nt_config u = cfg" "\<And>cpu. first_seen_ns (global_stats m cpu p) = 0" "host_bytes cpus p d m = c" "r \<le> c"
      "net_index p < length (global_previous u)" "first_seen_ns (global_previous u ! net_index p) = 0"
      "unat (bytes_of d (global_previous u ! net_index p)) = r"
    using inv by (simp_all add: bytes_inv_def)
  obtain ds where ds: "values_named (byte_name p d) (nt_callback u) = map f64_of_u64 ds" "sum_list (map unat ds) = r"
    using inv by (auto simp: bytes_inv_def)
  let ?dl = "net_delta (reading cpus m p) (Some (global_previous u ! net_index p))"
  have read: "unat (bytes_of d (reading cpus m p)) = c" "first_seen_ns (reading cpus m p) = 0"
    using reading_bytes [of cpus p d m] reading_first_seen [OF i(2)] i(3) few by simp_all
  have "bytes_of d ?dl = saturating_sub (bytes_of d (reading cpus m p)) (bytes_of d (global_previous u ! net_index p))"
    using read(2) i(6) by (simp add: net_delta_def bytes_of_def)
  then have dl: "unat (bytes_of d ?dl) = c - r" using read(1) i(7) by (simp add: unat_saturating_sub)
  have v: "nt_config ?u = cfg" "global_previous ?u = after_host cpus m cfg [Tcp, Udp] (global_previous u)"
      "values_named (byte_name p d) (nt_callback ?u) = map f64_of_u64 (ds @ [bytes_of d ?dl])"
    using sample_host_bytes [OF i(1) cfg(1,2,3,4), of p d rng cpus procs m now] cfg(5) ds(1)
    by (simp_all add: bytes_view_def host_values_def)
  have "global_previous ?u ! net_index p = reading cpus m p" using after_host_nth [OF cfg(5) i(5) two] v(2) by simp
  moreover have "\<exists>ds. values_named (byte_name p d) (nt_callback ?u) = map f64_of_u64 ds \<and> sum_list (map unat ds) = c"
    using v(3) ds(2) dl i(4) by (intro exI [of _ "ds @ [bytes_of d ?dl]"]) simp
  moreover have "length (global_previous ?u) = 2" using v(2) two by (simp add: after_host_length)
  ultimately show ?thesis
    using Net_Sample i(2,3,5) v(1) read two by (simp add: bytes_inv_def net_step_def)
qed

text \<open>The bytes reported after a run: those of the calls before its last sample.\<close>

primrec reported_bytes :: "net_cfg \<Rightarrow> NetProtocol \<Rightarrow> bool \<Rightarrow> net_step list \<Rightarrow> nat \<Rightarrow> nat \<Rightarrow> nat" where
  "reported_bytes kcfg p d [] c r = r"
| "reported_bytes kcfg p d (st # sts) c r =
    reported_bytes kcfg p d sts (c + step_bytes kcfg p d st) (case st of Net_Io _ \<Rightarrow> r | Net_Sample _ _ \<Rightarrow> c)"

lemma bytes_inv_run:
  assumes cfg: "nt_has_metric cfg Bytes" "\<not> nt_scaled cfg" "has_scope cfg Scope_Host" "\<not> has_scope cfg Scope_Process" "has_protocol cfg p"
    and cpus: "distinct cpus"
  shows "bytes_inv cfg cpus p d c r s \<Longrightarrow> length (global_previous (snd s)) = 2 \<Longrightarrow> list_all (step_cpu_ok cpus) sts \<Longrightarrow>
    c + sum_list (map (step_bytes kcfg p d) sts) < 2 ^ 64 \<Longrightarrow>
    bytes_inv cfg cpus p d (c + sum_list (map (step_bytes kcfg p d) sts)) (reported_bytes kcfg p d sts c r) (fold (net_step kcfg rng cpus) sts s)"
proof (induction sts arbitrary: c r s)
  case (Cons st sts)
  obtain m u where s: "s = (m, u)" by fastforce
  have inv: "bytes_inv cfg cpus p d c r (m, u)" "length (global_previous u) = 2" "step_cpu_ok cpus st" "c + step_bytes kcfg p d st < 2 ^ 64"
    using Cons.prems by (simp_all add: s)
  note st = bytes_inv_step [OF inv(1,2) cfg cpus inv(3,4), of rng]
  show ?case using Cons.IH [OF conjunct1 [OF st] conjunct2 [OF st]] Cons.prems by (simp add: s add.assoc)
qed simp

lemma reported_bytes_last:
  "reported_bytes kcfg p d (sts @ [Net_Sample now procs]) c r = c + sum_list (map (step_bytes kcfg p d) sts)"
  by (induction sts arbitrary: c r) (simp_all add: add.assoc)

section \<open>Properties\<close>


definition example_io :: "u32 \<Rightarrow> i32 \<Rightarrow> net_step" where
  "example_io cpu n = Net_Io \<lparr>io_env = \<lparr>net_pid_tgid = push_bit 32 9, net_now = 5, net_cpu = cpu, net_tracked = (\<lambda>_. False),
      process_insertion = Refused, peer_insertion = Refused\<rparr>,
    io_sock = Some \<lparr>skc_family = 2, skc_num = 1, skc_dport = 2, skc_daddr = [1, 2, 3, 4], skc_v6_daddr = []\<rparr>,
    io_msg = None, io_protocol = Tcp, io_send = True, io_ret = n\<rparr>"

definition example_net_cfg :: net_cfg where
  "example_net_cfg = \<lparr>tcp_enabled = True, udp_enabled = True, send_enabled = True, receive_enabled = True, host_enabled = True,
    process_enabled = False, peer_enabled = False, bytes_enabled = True, operations_enabled = False, errors_enabled = False,
    net_filter_enabled = False\<rparr>"



definition example_reader :: net_reader where
  "example_reader = \<lparr>lookup_global = (\<lambda>_. Ok None), lookup_processes = Ok [],
    lookup_peers = Ok [(\<lparr>pr_tgid = 9, pr_protocol = 0, pr_family = 2, local_port = 1, remote_port = 443,
      remote_addr = [10, 0, 0, 1] @ replicate 12 0\<rparr>, zero_stats\<lparr>send_bytes := 5, first_seen_ns := 3\<rparr>)]\<rparr>"

definition example_net_run :: "Message list NetTrack" where
  "example_net_run = fold (\<lambda>(rd, now, force) u. snd (nt_sample_if_due (\<lambda>n. word_of_nat n) recording rd now force u))
    [(example_reader, 1000, True)] (NetTrack_init (NetTrackConfig_default\<lparr>nt_scopes := [Scope_Peer]\<rparr>) 0 [])"


end
