(* ===== verification/BlockDevice.thy ===== *)
theory BlockDevice
  imports BpfCommon "HOL-Library.List_Lexorder" "HOL-Library.Char_ord"
begin

text \<open>
  Block devices (bpf/src/blocktrack.rs, the free functions and the device registry): the encoding of
  device numbers, their text form, the resolution of a device filter to a physical device through
  sysfs, the mounts of the devices, and the tracks of the devices.

  A string is the list of its UTF-8 bytes.  The file system is the record \<open>fs\<close> of the operations the
  code calls; \<open>rdev_major\<close> and \<open>rdev_minor\<close> are the C library's.  A canonical path is absolute and has
  no final slash and no dots.
\<close>

section \<open>Definitions\<close>

subsection \<open>Strings of the standard library\<close>

text \<open>The number of bytes of the white space character that a string starts with, or zero.\<close>

definition ws_prefix :: "string \<Rightarrow> nat" where
  "ws_prefix s =
    (case map of_char s of
       [] \<Rightarrow> 0
     | a # as \<Rightarrow>
         if 9 \<le> a \<and> a \<le> 13 \<or> a = 32 then 1
         else if a = 0xC2 \<and> as \<noteq> [] \<and> hd as \<in> {0x85, 0xA0} then 2
         else
           case as of
             b # c # _ \<Rightarrow>
               if a = 0xE1 \<and> b = 0x9A \<and> c = 0x80 \<or> a = 0xE2 \<and> b = 0x80 \<and> (0x80 \<le> c \<and> c \<le> 0x8A \<or> c = 0xA8 \<or> c = 0xA9 \<or> c = (0xAF :: nat)) \<or>
                 a = 0xE2 \<and> b = 0x81 \<and> c = 0x9F \<or> a = 0xE3 \<and> b = 0x80 \<and> c = 0x80 then 3 else 0
           | _ \<Rightarrow> 0)"

text \<open>\<open>split_whitespace\<close>, with the part of the current field read so far.\<close>

function split_ws :: "string \<Rightarrow> string \<Rightarrow> string list" where
  "split_ws acc s =
    (let flush = (\<lambda>rest. if acc = [] then rest else acc # rest) in
     if s = [] then flush []
     else if ws_prefix s = 0 then split_ws (acc @ [hd s]) (tl s)
     else flush (split_ws [] (drop (ws_prefix s) s)))"
  by auto
termination by (relation "measure (\<lambda>(acc, s). length s)") auto

declare split_ws.simps [simp del]

definition split_whitespace :: "string \<Rightarrow> string list" where
  "split_whitespace = split_ws []"

function trim_start :: "string \<Rightarrow> string" where
  "trim_start s = (if s = [] \<or> ws_prefix s = 0 then s else trim_start (drop (ws_prefix s) s))"
  by auto
termination by (relation "measure length") auto

declare trim_start.simps [simp del]

primrec trim_end :: "string \<Rightarrow> string" where
  "trim_end [] = []"
| "trim_end (c # cs) = (if trim_start (c # cs) = [] then [] else c # trim_end cs)"

definition trim_str :: "string \<Rightarrow> string" where
  "trim_str s = trim_end (trim_start s)"

definition newline :: char where "newline = CHR 0x0A"

text \<open>\<open>lines\<close>: without the final empty line and without a carriage return before the newline.\<close>

fun split_on :: "char \<Rightarrow> string \<Rightarrow> string list" where
  "split_on c [] = [[]]"
| "split_on c (x # xs) = (if x = c then [] # split_on c xs else case split_on c xs of [] \<Rightarrow> [[x]] | y # ys \<Rightarrow> (x # y) # ys)"

definition strip_cr :: "string \<Rightarrow> string" where
  "strip_cr l = (if l \<noteq> [] \<and> last l = CHR 0x0D then butlast l else l)"

definition lines :: "string \<Rightarrow> string list" where
  "lines s =
    (let ls = split_on newline s; whole = butlast ls; rest = last ls in
     map strip_cr whole @ (if rest = [] then [] else [rest]))"

definition split_once :: "char \<Rightarrow> string \<Rightarrow> (string \<times> string) option" where
  "split_once c s = (if c \<in> set s then Some (takeWhile (\<lambda>x. x \<noteq> c) s, tl (dropWhile (\<lambda>x. x \<noteq> c) s)) else None)"

function replace_str :: "string \<Rightarrow> string \<Rightarrow> string \<Rightarrow> string" where
  "replace_str pat r s =
    (if s = [] then []
     else if pat \<noteq> [] \<and> take (length pat) s = pat then r @ replace_str pat r (drop (length pat) s)
     else hd s # replace_str pat r (tl s))"
  by auto
termination by (relation "measure (\<lambda>(pat, r, s). length s)") auto

declare replace_str.simps [simp del]

text \<open>\<open>str::parse::<u64>\<close>, with the messages of its errors.\<close>

definition digit_value :: "char \<Rightarrow> nat option" where
  "digit_value c = (if 48 \<le> (of_char c :: nat) \<and> of_char c \<le> (57 :: nat) then Some (of_char c - 48) else None)"

primrec parse_digits :: "nat \<Rightarrow> string \<Rightarrow> (string, u64) result" where
  "parse_digits n [] = Ok (word_of_nat n)"
| "parse_digits n (c # cs) =
    (case digit_value c of
       None \<Rightarrow> Err ''invalid digit found in string''
     | Some d \<Rightarrow>
         if 18446744073709551616 \<le> n * 10 + d then Err ''number too large to fit in target type'' else parse_digits (n * 10 + d) cs)"

definition parse_u64 :: "string \<Rightarrow> (string, u64) result" where
  "parse_u64 s =
    (if s = [] then Err ''cannot parse integer from empty string''
     else if hd s = CHR ''+'' then
       if tl s = [] then Err ''invalid digit found in string'' else parse_digits 0 (tl s)
     else parse_digits 0 s)"

text \<open>Paths.\<close>

definition is_absolute :: "string \<Rightarrow> bool" where
  "is_absolute p = (p \<noteq> [] \<and> hd p = CHR ''/'')"

definition path_join :: "string \<Rightarrow> string \<Rightarrow> string" where
  "path_join a b = (if is_absolute b \<or> a = [] then b else if last a = CHR ''/'' then a @ b else a @ ''/'' @ b)"

definition path_file_name :: "string \<Rightarrow> string option" where
  "path_file_name p = (let f = last (split_on CHR ''/'' p) in if f = [] then None else Some f)"

definition path_parent :: "string \<Rightarrow> string option" where
  "path_parent p =
    (if p = ''/'' then None
     else let d = join ''/'' (butlast (split_on CHR ''/'' p)) in Some (if d = [] then ''/'' else d))"

subsection \<open>Device numbers\<close>

definition encode_device :: "u64 \<Rightarrow> u64 \<Rightarrow> (BpfError, u32) result" where
  "encode_device major minor =
    (if 2 ^ 12 \<le> major \<or> 2 ^ 20 \<le> minor then
       Err (LoadError (''block device number is out of range: '' @ dec_nat (unat major) @ '':'' @ dec_nat (unat minor)))
     else Ok (push_bit 20 (ucast major) OR ucast minor))"

definition decode_device :: "u32 \<Rightarrow> u32 \<times> u32" where
  "decode_device dev = (drop_bit 20 dev, dev AND (2 ^ 20 - 1))"

definition format_device :: "u32 \<Rightarrow> string" where
  "format_device dev = (case decode_device dev of (major, minor) \<Rightarrow> dec_nat (unat major) @ '':'' @ dec_nat (unat minor))"

definition parse_major_minor :: "string \<Rightarrow> (BpfError, u32) result" where
  "parse_major_minor value =
    (case split_once CHR '':'' value of
       None \<Rightarrow> Err (LoadError (''invalid block device number: '' @ value))
     | Some (major, minor) \<Rightarrow>
         (case parse_u64 major of
            Inl e \<Rightarrow> Err (LoadError (''invalid block device '' @ value @ '': '' @ e))
          | Inr major \<Rightarrow>
              (case parse_u64 minor of
                 Inl e \<Rightarrow> Err (LoadError (''invalid block device '' @ value @ '': '' @ e))
               | Inr minor \<Rightarrow> encode_device major minor)))"

subsection \<open>Resolution of devices\<close>

record fs =
  fs_read_to_string :: "string \<Rightarrow> (string, string) result"
  fs_canonicalize :: "string \<Rightarrow> (string, string) result"
  fs_exists :: "string \<Rightarrow> bool"
  fs_rdev :: "string \<Rightarrow> (string, u64) result"
  fs_read_dir :: "string \<Rightarrow> (string, (string, string) result list) result"
  rdev_major :: "u64 \<Rightarrow> u64"
  rdev_minor :: "u64 \<Rightarrow> u64"

definition sysfs_device_number :: "fs \<Rightarrow> string \<Rightarrow> (BpfError, u32) result" where
  "sysfs_device_number F path =
    (case fs_read_to_string F (path_join path ''dev'') of
       Inl e \<Rightarrow> Err (LoadError (''failed to read block device '' @ path @ '': '' @ e))
     | Inr value \<Rightarrow> parse_major_minor (trim_str value))"

definition physical_device :: "fs \<Rightarrow> u32 \<Rightarrow> (BpfError, u32) result" where
  "physical_device F dev =
    (case fs_canonicalize F (''/sys/dev/block/'' @ format_device dev) of
       Inl e \<Rightarrow> Err (LoadError (''failed to resolve block device '' @ format_device dev @ '': '' @ e))
     | Inr path \<Rightarrow>
         if fs_exists F (path_join path ''partition'') then
           (case path_parent path of
              None \<Rightarrow> Err (LoadError (''block partition has no parent: '' @ path))
            | Some parent \<Rightarrow> sysfs_device_number F parent)
         else Ok dev)"

definition filter_device :: "fs \<Rightarrow> string \<Rightarrow> (BpfError, u32) result" where
  "filter_device F value =
    (if CHR '':'' \<in> set value \<and> CHR ''/'' \<notin> set value then parse_major_minor value
     else if is_absolute value then
       (case fs_rdev F value of
          Inl e \<Rightarrow> Err (LoadError (''failed to inspect device '' @ value @ '': '' @ e))
        | Inr rdev \<Rightarrow> encode_device (rdev_major F rdev) (rdev_minor F rdev))
     else sysfs_device_number F (path_join ''/sys/class/block'' value))"

definition resolve_device_filter :: "fs \<Rightarrow> string \<Rightarrow> (BpfError, u32) result" where
  "resolve_device_filter F value = (case filter_device F value of Inl e \<Rightarrow> Err e | Inr dev \<Rightarrow> physical_device F dev)"

text \<open>Collecting results into a set, up to the first error.\<close>

primrec collect_set :: "('x \<Rightarrow> ('e, 'a) result) \<Rightarrow> 'x list \<Rightarrow> 'a list \<Rightarrow> ('e, 'a list) result" where
  "collect_set f [] acc = Ok acc"
| "collect_set f (x # xs) acc = (case f x of Inl e \<Rightarrow> Err e | Inr a \<Rightarrow> collect_set f xs (if a \<in> set acc then acc else acc @ [a]))"

definition discover_entry :: "fs \<Rightarrow> (string, string) result \<Rightarrow> (BpfError, u32) result" where
  "discover_entry F entry =
    (case entry of
       Inl e \<Rightarrow> Err (LoadError (''failed to enumerate block devices: '' @ e))
     | Inr path \<Rightarrow> (case sysfs_device_number F path of Inl e \<Rightarrow> Err e | Inr dev \<Rightarrow> physical_device F dev))"

definition discover_physical_devices :: "fs \<Rightarrow> (BpfError, u32 list) result" where
  "discover_physical_devices F =
    (case fs_read_dir F ''/sys/class/block'' of
       Inl e \<Rightarrow> Err (LoadError (''failed to enumerate block devices: '' @ e))
     | Inr entries \<Rightarrow> collect_set (discover_entry F) entries [])"

subsection \<open>Mounts\<close>

record MountInfo =
  mount_filesystem :: string
  mount_source :: string
  mountpoint :: string

definition decode_mount_field :: "string \<Rightarrow> string" where
  "decode_mount_field value =
    replace_str (CHR 0x5C # ''134'') [CHR 0x5C] (replace_str (CHR 0x5C # ''012'') [newline]
      (replace_str (CHR 0x5C # ''011'') [CHR 0x09] (replace_str (CHR 0x5C # ''040'') '' '' value)))"

text \<open>\<open>entry(dev).or_default().push(x)\<close>, for several values.\<close>

definition push_all :: "'k \<Rightarrow> 'v list \<Rightarrow> ('k \<times> 'v list) list \<Rightarrow> ('k \<times> 'v list) list" where
  "push_all k xs m = hm_insert k ((case hm_get m k of Some ys \<Rightarrow> ys | None \<Rightarrow> []) @ xs) m"

primrec index_of :: "'a \<Rightarrow> 'a list \<Rightarrow> nat option" where
  "index_of x [] = None"
| "index_of x (y # ys) = (if y = x then Some 0 else map_option Suc (index_of x ys))"

definition mount_line :: "string \<Rightarrow> (u32 \<times> MountInfo) option" where
  "mount_line line =
    (let fs = split_whitespace line in
     case index_of ''-'' fs of
       None \<Rightarrow> None
     | Some sep \<Rightarrow>
         if length fs \<le> sep + 2 \<or> length fs < 5 then None
         else
           (case parse_major_minor (fs ! 2) of
              Inl _ \<Rightarrow> None
            | Inr dev \<Rightarrow> Some (dev, \<lparr>mount_filesystem = fs ! (sep + 1), mount_source = decode_mount_field (fs ! (sep + 2)),
                mountpoint = decode_mount_field (fs ! 4)\<rparr>)))"

definition read_mountinfo :: "fs \<Rightarrow> (string, (u32 \<times> MountInfo list) list) result" where
  "read_mountinfo F =
    (case fs_read_to_string F ''/proc/self/mountinfo'' of
       Inl e \<Rightarrow> Err e
     | Inr content \<Rightarrow>
         Ok (fold (\<lambda>line m. case mount_line line of None \<Rightarrow> m | Some (dev, mount) \<Rightarrow> push_all dev [mount] m) (lines content) []))"

subsection \<open>The registry of devices\<close>

record DeviceInfo =
  info_dev :: u32
  info_name :: string
  info_mounts :: "MountInfo list"

definition major_minor :: "DeviceInfo \<Rightarrow> string" where
  "major_minor info = format_device (info_dev info)"

definition filesystems :: "MountInfo list \<Rightarrow> string" where
  "filesystems mounts = join '','' (sort (remdups (map mount_filesystem mounts)))"

definition device_track_name :: "DeviceInfo \<Rightarrow> string" where
  "device_track_name info =
    (info_name info @ '' ('' @ major_minor info @ '')'') @
    (if info_mounts info = [] then []
     else '' '' @ filesystems (info_mounts info) @ '' '' @ join '','' (map mountpoint (take 3 (info_mounts info))))"

record DeviceRegistry =
  registry_mounts :: "(u32 \<times> MountInfo list) list"
  registry_infos :: "(u32 \<times> DeviceInfo) list"
  registry_track_ids :: "(u32 \<times> u64) list"

definition DeviceRegistry_new :: "fs \<Rightarrow> DeviceRegistry" where
  "DeviceRegistry_new F =
    (let mounts = (case read_mountinfo F of Inl _ \<Rightarrow> [] | Inr m \<Rightarrow> m) in
     \<lparr>registry_mounts = fold (\<lambda>(dev, device_mounts) m.
        case physical_device F dev of
          Inl _ \<Rightarrow> m
        | Inr parent \<Rightarrow> if parent \<noteq> dev then push_all parent device_mounts m else m) mounts mounts,
      registry_infos = [], registry_track_ids = []\<rparr>)"

definition device_name :: "fs \<Rightarrow> u32 \<Rightarrow> string" where
  "device_name F dev =
    (case fs_canonicalize F (''/sys/dev/block/'' @ format_device dev) of
       Inl _ \<Rightarrow> ''block-'' @ format_device dev
     | Inr path \<Rightarrow> (case path_file_name path of None \<Rightarrow> ''block-'' @ format_device dev | Some name \<Rightarrow> name))"

definition registry_info :: "fs \<Rightarrow> u32 \<Rightarrow> DeviceRegistry \<Rightarrow> DeviceInfo \<times> DeviceRegistry" where
  "registry_info F dev reg =
    (case hm_get (registry_infos reg) dev of
       Some info \<Rightarrow> (info, reg)
     | None \<Rightarrow>
         let info = \<lparr>info_dev = dev, info_name = device_name F dev,
           info_mounts = (case hm_get (registry_mounts reg) dev of Some ms \<Rightarrow> ms | None \<Rightarrow> [])\<rparr> in
         (info, reg\<lparr>registry_infos := hm_insert dev info (registry_infos reg)\<rparr>))"

section \<open>Device numbers as text\<close>

lemma of_char_digit: "d < 10 \<Longrightarrow> of_char (char_of (48 + d) :: char) = (48 + d :: nat)"
  by simp

lemma digit_value_digit [simp]: "d < 10 \<Longrightarrow> digit_value (char_of (48 + d)) = Some d"
  unfolding digit_value_def of_char_digit by simp

lemma parse_digits_dec:
  "n < 18446744073709551616 \<Longrightarrow> parse_digits 0 (dec_nat n @ cs) = parse_digits n cs"
proof (induction n arbitrary: cs rule: dec_nat.induct)
  case (1 n)
  show ?case
  proof (cases "n < 10")
    case True
    then show ?thesis using 1 by (subst dec_nat.simps) simp
  next
    case False
    then have "parse_digits 0 (dec_nat (n div 10) @ (char_of (48 + n mod 10) # cs)) = parse_digits (n div 10) (char_of (48 + n mod 10) # cs)"
      using 1 by simp
    moreover have "n div 10 * 10 + n mod 10 = n" by simp
    ultimately show ?thesis using False 1 by (subst dec_nat.simps) simp
  qed
qed

lemma dec_nat_digits: "c \<in> set (dec_nat n) \<Longrightarrow> \<exists>d<10 :: nat. c = char_of (48 + d)"
proof (induction n rule: dec_nat.induct)
  case (1 n)
  show ?case
  proof (cases "n < 10")
    case True
    then show ?thesis using 1 by (auto simp: dec_nat.simps [of n])
  next
    case False
    then have "c \<in> set (dec_nat (n div 10)) \<or> c = char_of (48 + n mod 10)" using 1 by (auto simp: dec_nat.simps [of n])
    then show ?thesis using 1 False by (metis mod_less_divisor zero_less_numeral)
  qed
qed

lemma dec_nat_nonempty [simp]: "dec_nat n \<noteq> []"
  by (subst dec_nat.simps) simp

lemma char_of_digit_neq: "(d :: nat) < 10 \<Longrightarrow> of_char c < (48 :: nat) \<or> (57 :: nat) < of_char c \<Longrightarrow> char_of (48 + d) \<noteq> c"
  using of_char_digit by fastforce

lemma dec_nat_no: "of_char c < (48 :: nat) \<or> (57 :: nat) < of_char c \<Longrightarrow> c \<notin> set (dec_nat n)"
  using dec_nat_digits char_of_digit_neq by blast

lemma parse_dec_nat: "n < 18446744073709551616 \<Longrightarrow> parse_u64 (dec_nat n) = Ok (word_of_nat n)"
proof -
  assume n: "n < 18446744073709551616"
  have "hd (dec_nat n) \<noteq> CHR ''+''" using dec_nat_no [of "CHR ''+''" n] hd_in_set [OF dec_nat_nonempty, of n] by force
  then show ?thesis using parse_digits_dec [OF n, of "[]"] by (simp add: parse_u64_def)
qed

lemma split_once_at: "c \<notin> set a \<Longrightarrow> split_once c (a @ c # b) = Some (a, b)"
  by (induction a) (auto simp: split_once_def)

lemma encode_decode:
  "encode_device (ucast (fst (decode_device dev))) (ucast (snd (decode_device dev))) = Ok dev"
proof -
  have "unat (drop_bit 20 dev) < 2 ^ 12" using unat_lt [of dev] by (simp only: unat_drop_bit_eq) (simp add: drop_bit_eq_div less_mult_imp_div_less)
  moreover have m: "dev AND (2 ^ 20 - 1) = take_bit 20 dev" by (simp add: take_bit_eq_mask mask_eq_decr_exp)
  have "unat (take_bit 20 dev) < 2 ^ 20" by (simp only: unsigned_take_bit_eq take_bit_nat_less_exp)
  moreover have "push_bit 20 (ucast (ucast (drop_bit 20 dev) :: u64)) OR ucast (ucast (take_bit 20 dev) :: u64) = dev"
    by (rule bit_word_eqI) (auto simp: bit_simps)
  moreover have "decode_device dev = (drop_bit 20 dev, take_bit 20 dev)" by (simp only: decode_device_def m)
  ultimately show ?thesis by (simp add: encode_device_def word_le_nat_alt not_le)
qed

lemma parse_format_device: "parse_major_minor (format_device dev) = Ok dev"
proof -
  obtain ma mi where d: "decode_device dev = (ma, mi)" by fastforce
  have colon: "CHR '':'' \<notin> set (dec_nat (unat ma))" by (rule dec_nat_no) simp
  have "unat x < 18446744073709551616" for x :: u32 using unat_lt [of x] by simp
  then have "parse_u64 (dec_nat (unat x)) = Ok (ucast x)" for x :: u32 by (simp add: parse_dec_nat)
  then show ?thesis using encode_decode [of dev] split_once_at [OF colon] by (simp add: parse_major_minor_def format_device_def d)
qed

section \<open>Escaped fields\<close>

text \<open>The kernel escapes white space and the backslash in the fields of mountinfo.\<close>

definition escape_char :: "char \<Rightarrow> string" where
  "escape_char c =
    (if c = CHR '' '' then CHR 0x5C # ''040'' else if c = CHR 0x09 then CHR 0x5C # ''011''
     else if c = newline then CHR 0x5C # ''012'' else if c = CHR 0x5C then CHR 0x5C # ''134'' else [c])"

definition escape :: "string \<Rightarrow> string" where
  "escape s = concat (map escape_char s)"

definition token :: "string \<Rightarrow> bool" where
  "token t \<longleftrightarrow> CHR 0x5C \<notin> set t \<or> (\<exists>q. t = CHR 0x5C # q \<and> length q = 3 \<and> CHR 0x5C \<notin> set q)"

lemma replace_str_Nil [simp]: "replace_str pat r [] = []"
  by (simp add: replace_str.simps)

lemma replace_skip: "CHR 0x5C \<notin> set xs \<Longrightarrow> replace_str (CHR 0x5C # p) r (xs @ ys) = xs @ replace_str (CHR 0x5C # p) r ys"
  by (induction xs) (auto simp: replace_str.simps [of _ _ "_ # _"])

lemma replace_token:
  assumes "token t" "length p = 3"
  shows "replace_str (CHR 0x5C # p) r (t @ ys) = (if t = CHR 0x5C # p then r else t) @ replace_str (CHR 0x5C # p) r ys"
proof (cases "CHR 0x5C \<in> set t")
  case False
  then show ?thesis using replace_skip by auto
next
  case True
  then obtain q where q: "t = CHR 0x5C # q" "length q = 3" "CHR 0x5C \<notin> set q" using assms(1) by (auto simp: token_def)
  have "take (length p) (q @ ys) = q" using q assms(2) by simp
  then show ?thesis using q assms(2) replace_skip [of q p r ys] by (subst replace_str.simps) auto
qed

lemma replace_tokens:
  assumes "\<And>c. token (e c)" "length p = 3"
  shows "replace_str (CHR 0x5C # p) r (concat (map e s)) = concat (map (\<lambda>c. if e c = CHR 0x5C # p then r else e c) s)"
  by (induction s) (simp_all add: replace_token [OF assms])

lemma decode_escape: "decode_mount_field (escape s) = s"
proof -
  let ?e1 = "\<lambda>c. if escape_char c = CHR 0x5C # ''040'' then '' '' else escape_char c"
  let ?e2 = "\<lambda>c. if ?e1 c = CHR 0x5C # ''011'' then [CHR 0x09] else ?e1 c"
  let ?e3 = "\<lambda>c. if ?e2 c = CHR 0x5C # ''012'' then [newline] else ?e2 c"
  have tok: "token (escape_char c)" "token (?e1 c)" "token (?e2 c)" "token (?e3 c)" for c
    by (auto simp: token_def escape_char_def newline_def)
  have "decode_mount_field (escape s) = concat (map (\<lambda>c. if ?e3 c = CHR 0x5C # ''134'' then [CHR 0x5C] else ?e3 c) s)"
    unfolding decode_mount_field_def escape_def by (simp only: replace_tokens tok list.size numeral_3_eq_3 add_0_left One_nat_def add_Suc_right add_0_right)
  also have "(\<lambda>c. if ?e3 c = CHR 0x5C # ''134'' then [CHR 0x5C] else ?e3 c) = (\<lambda>c. [c])"
    by (rule ext) (simp add: escape_char_def newline_def)
  finally show ?thesis by simp
qed

section \<open>The mounts of the kernel's table\<close>

text \<open>A field: not empty and without white space.\<close>

definition field :: "string \<Rightarrow> bool" where
  "field w \<longleftrightarrow> w \<noteq> [] \<and> (\<forall>i<length w. ws_prefix (drop i w) = 0)"

lemma ws_prefix_space [simp]: "ws_prefix (CHR '' '' # s) = 1"
  by (simp add: ws_prefix_def)

lemma ws_prefix_before_space: "ws_prefix w = 0 \<Longrightarrow> w \<noteq> [] \<Longrightarrow> ws_prefix (w @ CHR '' '' # s) = 0"
  by (cases w; cases "tl w"; cases "tl (tl w)") (auto simp: ws_prefix_def split: if_splits list.split)

lemma split_ws_end: "(\<forall>i<length w. ws_prefix (drop i w) = 0) \<Longrightarrow> acc @ w \<noteq> [] \<Longrightarrow> split_ws acc w = [acc @ w]"
proof (induction w arbitrary: acc)
  case Nil
  then show ?case by (simp add: split_ws.simps)
next
  case (Cons c w)
  have "ws_prefix (c # w) = 0" "\<forall>i<length w. ws_prefix (drop i w) = 0" using Cons.prems(1) by force+
  then show ?case using Cons.IH [of "acc @ [c]"] by (subst split_ws.simps) simp
qed

lemma split_ws_field:
  "(\<forall>i<length w. ws_prefix (drop i w) = 0) \<Longrightarrow> acc @ w \<noteq> [] \<Longrightarrow> split_ws acc (w @ CHR '' '' # s) = (acc @ w) # split_ws [] s"
proof (induction w arbitrary: acc)
  case Nil
  then show ?case by (subst split_ws.simps) simp
next
  case (Cons c w)
  have z: "ws_prefix (c # w) = 0" "\<forall>i<length w. ws_prefix (drop i w) = 0" using Cons.prems(1) by force+
  have "ws_prefix (c # w @ CHR '' '' # s) = 0" using ws_prefix_before_space [OF z(1)] by simp
  then show ?case using Cons.IH [of "acc @ [c]"] z by (subst split_ws.simps) simp
qed

lemma join_Cons: "xs \<noteq> [] \<Longrightarrow> join sep (x # xs) = x @ sep @ join sep xs"
proof -
  have "fold (\<lambda>z acc. acc @ sep @ z) ys (x @ sep @ y) = x @ sep @ fold (\<lambda>z acc. acc @ sep @ z) ys y" for ys y
    by (induction ys arbitrary: y) simp_all
  then show "xs \<noteq> [] \<Longrightarrow> join sep (x # xs) = x @ sep @ join sep xs" by (cases xs) (simp_all add: join_def)
qed

lemma split_join: "list_all field ws \<Longrightarrow> split_whitespace (join '' '' ws) = ws"
proof (induction ws)
  case Nil
  then show ?case by (simp add: join_def split_whitespace_def split_ws.simps)
next
  case (Cons w ws)
  then show ?case
  proof (cases "ws = []")
    case True
    then show ?thesis using Cons split_ws_end [of w "[]"] by (simp add: join_def split_whitespace_def field_def)
  next
    case False
    then show ?thesis using Cons split_ws_field [of w "[]"] by (simp add: join_Cons split_whitespace_def field_def)
  qed
qed

text \<open>An entry of the table and the line that the kernel writes for it.\<close>

record mount_entry =
  me_ids :: "string list"
  me_dev :: u32
  me_root :: string
  me_point :: string
  me_options :: "string list"
  me_type :: string
  me_source :: string
  me_super :: "string list"

definition entry_fields :: "mount_entry \<Rightarrow> string list" where
  "entry_fields e = me_ids e @ [format_device (me_dev e), escape (me_root e), escape (me_point e)] @ me_options e @
    [''-'', me_type e, escape (me_source e)] @ me_super e"

definition entry_line :: "mount_entry \<Rightarrow> string" where
  "entry_line e = join '' '' (entry_fields e)"

definition entry_ok :: "mount_entry \<Rightarrow> bool" where
  "entry_ok e \<longleftrightarrow> length (me_ids e) = 2 \<and> list_all field (entry_fields e) \<and>
    ''-'' \<notin> set (me_ids e @ [escape (me_root e), escape (me_point e)] @ me_options e)"

definition entry_mount :: "mount_entry \<Rightarrow> MountInfo" where
  "entry_mount e = \<lparr>mount_filesystem = me_type e, mount_source = me_source e, mountpoint = me_point e\<rparr>"

lemma index_of_append: "x \<notin> set ys \<Longrightarrow> index_of x (ys @ x # zs) = Some (length ys)"
  by (induction ys) auto

lemma format_device_no_dash: "format_device dev \<noteq> ''-''"
proof
  assume "format_device dev = ''-''"
  then have "CHR '':'' \<in> set ''-''" by (metis (no_types, lifting) case_prod_beta format_device_def in_set_conv_decomp append_Cons append_Nil)
  then show False by simp
qed

lemma mount_line_entry:
  assumes "entry_ok e"
  shows "mount_line (entry_line e) = Some (me_dev e, entry_mount e)"
proof -
  obtain i1 i2 where ids: "me_ids e = [i1, i2]" using assms by (auto simp: entry_ok_def numeral_2_eq_2 length_Suc_conv)
  let ?pre = "[i1, i2, format_device (me_dev e), escape (me_root e), escape (me_point e)] @ me_options e"
  have fs: "split_whitespace (entry_line e) = ?pre @ ''-'' # me_type e # escape (me_source e) # me_super e"
    using assms split_join [of "entry_fields e"] by (simp add: entry_ok_def entry_line_def) (simp add: entry_fields_def ids)
  have "''-'' \<notin> set ?pre" using assms format_device_no_dash [of "me_dev e"] by (auto simp: entry_ok_def ids)
  then have ix: "index_of ''-'' (?pre @ ''-'' # me_type e # escape (me_source e) # me_super e) = Some (length ?pre)"
    by (rule index_of_append)
  show ?thesis unfolding mount_line_def fs Let_def ix
    by (simp add: parse_format_device nth_append decode_escape entry_mount_def)
qed

lemma strip_cr_id: "CHR 0x0D \<notin> set l \<Longrightarrow> strip_cr l = l"
proof -
  assume "CHR 0x0D \<notin> set l"
  then have "l \<noteq> [] \<Longrightarrow> last l \<noteq> CHR 0x0D" using last_in_set by metis
  then show ?thesis by (auto simp: strip_cr_def)
qed

lemma lines_of: "(\<And>l. l \<in> set ls \<Longrightarrow> newline \<notin> set l \<and> CHR 0x0D \<notin> set l) \<Longrightarrow> lines (concat (map (\<lambda>l. l @ [newline]) ls)) = ls"
proof -
  assume ok: "\<And>l. l \<in> set ls \<Longrightarrow> newline \<notin> set l \<and> CHR 0x0D \<notin> set l"
  have step: "split_on newline (l @ newline # s) = l # split_on newline s" if "newline \<notin> set l" for l s
    using that by (induction l) auto
  have "split_on newline (concat (map (\<lambda>l. l @ [newline]) ls)) = ls @ [[]]" using ok by (induction ls) (simp_all add: step)
  moreover have "map strip_cr ls = ls" using ok strip_cr_id by (intro map_idI) blast
  ultimately show ?thesis by (simp add: lines_def)
qed

lemma entry_line_chars: "entry_ok e \<Longrightarrow> newline \<notin> set (entry_line e) \<and> CHR 0x0D \<notin> set (entry_line e)"
proof -
  have plain: "newline \<notin> set w \<and> CHR 0x0D \<notin> set w" if "field w" for w
  proof -
    have "ws_prefix (drop i w) = 0" "drop i w = w ! i # drop (Suc i) w" if "i < length w" for i
      using \<open>field w\<close> that by (auto simp: field_def Cons_nth_drop_Suc)
    then show ?thesis by (auto simp: in_set_conv_nth ws_prefix_def newline_def split: if_splits) fastforce+
  qed
  have "newline \<notin> set (join '' '' ws) \<and> CHR 0x0D \<notin> set (join '' '' ws)" if "list_all field ws" for ws
    using that
  proof (induction ws)
    case (Cons w ws)
    then show ?case using plain [of w] by (cases "ws = []") (auto simp: join_Cons newline_def, auto simp: join_def)
  qed (simp add: join_def)
  then show "entry_ok e \<Longrightarrow> newline \<notin> set (entry_line e) \<and> CHR 0x0D \<notin> set (entry_line e)" by (simp add: entry_ok_def entry_line_def)
qed

lemma push_all_get: "hm_get (push_all k xs m) k' = (if k' = k then Some ((case hm_get m k of Some ys \<Rightarrow> ys | None \<Rightarrow> []) @ xs) else hm_get m k')"
  by (simp add: push_all_def)

lemma fold_mounts:
  assumes "\<And>e. e \<in> set es \<Longrightarrow> entry_ok e"
  shows "hm_get (fold (\<lambda>line m. case mount_line line of None \<Rightarrow> m | Some (dev, mount) \<Rightarrow> push_all dev [mount] m) (map entry_line es) m) dev =
    (let ys = map entry_mount (filter (\<lambda>e. me_dev e = dev) es) in
     case hm_get m dev of Some xs \<Rightarrow> Some (xs @ ys) | None \<Rightarrow> if ys = [] then None else Some ys)"
  using assms by (induction es arbitrary: m) (auto simp: mount_line_entry push_all_get Let_def split: option.split)

section \<open>Properties\<close>

text \<open>
  Device numbers survive their text form: parsing the \<open>major:minor\<close> text of any device number, as it
  is in sysfs and in the labels, gives the number back.
\<close>

theorem device_number_round_trip: "parse_major_minor (format_device dev) = Ok dev"
  by (rule parse_format_device)


definition example_entry :: mount_entry where
  "example_entry = \<lparr>me_ids = [''36'', ''35''], me_dev = push_bit 20 8 OR 1, me_root = ''/'', me_point = ''/my disk'', me_options = [''rw''],
    me_type = ''ext4'', me_source = ''/dev/sda1'', me_super = [''rw'']\<rparr>"

definition example_fs :: "string \<Rightarrow> fs" where
  "example_fs content = \<lparr>fs_read_to_string = (\<lambda>p. Ok content), fs_canonicalize = (\<lambda>p. Err ''no''), fs_exists = (\<lambda>p. False), fs_rdev = (\<lambda>p. Err ''no''),
    fs_read_dir = (\<lambda>p. Ok []), rdev_major = (\<lambda>r. 0), rdev_minor = (\<lambda>r. 0)\<rparr>"

definition field_code :: "string \<Rightarrow> bool" where
  "field_code w = (w \<noteq> [] \<and> list_all (\<lambda>i. ws_prefix (drop i w) = 0) [0..<length w])"

lemma field_code: "field w = field_code w"
  by (auto simp: field_def field_code_def list_all_iff)


end
