(* ===== verification/BlockKernel.thy ===== *)
theory BlockKernel
  imports Prelude
begin

text \<open>
  Block I/O accounting in the kernel (bpf/src/bpf/blocktrack.bpf.c): programs at the insertion, merging,
  issue, requeueing and completion of a block request follow it through the queue, keep statistics and
  the depth of the queue of each device, and report the life of the request.

  A request is a record of the fields the programs read; its address identifies it.  The statistics are
  changed by atomic additions and the depth under a lock, so that a program is modelled as one step.
  The clock, the room in the ring buffer, the random number and whether an insertion into a table
  succeeds are the environment of a step.
\<close>

section \<open>Definitions\<close>

definition HISTOGRAM_BUCKETS :: nat where "HISTOGRAM_BUCKETS = 32"
definition BLOCK_OP_COUNT :: nat where "BLOCK_OP_COUNT = 5"

definition BLOCK_OP_READ :: u8 where "BLOCK_OP_READ = 0"
definition BLOCK_OP_WRITE :: u8 where "BLOCK_OP_WRITE = 1"
definition BLOCK_OP_FLUSH :: u8 where "BLOCK_OP_FLUSH = 2"
definition BLOCK_OP_DISCARD :: u8 where "BLOCK_OP_DISCARD = 3"
definition BLOCK_OP_OTHER :: u8 where "BLOCK_OP_OTHER = 4"

text \<open>The fields of a request: the disk of its queue with the device of its first partition, and its own partition.\<close>

record request =
  rq_id :: u64
  rq_disk :: "u32 option option"
  rq_part :: "u32 option"
  cmd_flags :: u32
  data_len :: u32
  rq_sector :: u64

record operation_stats =
  op_bytes :: u64
  op_operations :: u64
  op_errors :: u64
  queue_latency_ns :: u64
  service_latency_ns :: u64
  total_latency_ns :: u64
  service_histogram :: "u64 list"
  total_histogram :: "u64 list"

record device_stats =
  dev_operations :: "operation_stats list"
  dev_requeues :: u64
  lost_requests :: u64
  timeline_drops :: u64
  dev_first_seen :: u64
  dev_last_seen :: u64

record device_depth =
  depth_first_seen :: u64
  last_update_ns :: u64
  busy_ns :: u64
  saturated_ns :: u64
  inflight_ns :: u64
  queued_ns :: u64
  inflight :: u32
  queued :: u32
  max_inflight :: u32
  max_queued :: u32

record request_state =
  rs_first_seen :: u64
  insert_ns :: u64
  issue_ns :: u64
  rs_service_ns :: u64
  rs_sector :: u64
  rs_bytes :: u32
  remaining_bytes :: u32
  rs_dev :: u32
  rs_partition_dev :: u32
  rs_tgid :: u32
  rs_pid :: u32
  rs_requeues :: u32
  rs_operation :: u8
  inserted :: bool
  issued :: bool
  rs_comm :: "u8 list"

record RequestSpanEvent =
  request_id :: u64
  start_ns :: u64
  end_ns :: u64
  ev_queue_ns :: u64
  ev_service_ns :: u64
  ev_total_ns :: u64
  ev_sector :: u64
  ev_dev :: u32
  ev_partition_dev :: u32
  ev_bytes :: u32
  ev_tgid :: u32
  ev_pid :: u32
  ev_requeues :: u32
  ev_error :: i32
  ev_operation :: u8
  ev_completed :: bool
  ev_comm :: "u8 list"

record block_cfg =
  operation_mask :: u32
  timeline_sample_every :: u32
  timeline_min_latency_ns :: u64
  blk_bytes_enabled :: bool
  blk_operations_enabled :: bool
  latency_enabled :: bool
  saturation_enabled :: bool
  blk_errors_enabled :: bool
  timeline_enabled :: bool
  blk_filter_enabled :: bool
  request_tracking_enabled :: bool

record benv =
  b_now :: u64
  b_tracked :: "u32 \<Rightarrow> bool"
  b_stats_insert :: bool
  b_request_insert :: bool
  b_pid_tgid :: u64
  b_comm :: "u8 list"
  b_prandom :: u32
  b_reserve :: bool

record block_maps =
  bm_stats :: "u32 \<rightharpoonup> device_stats"
  bm_depths :: "u32 \<rightharpoonup> device_depth"
  bm_requests :: "u64 \<rightharpoonup> request_state"
  bm_events :: "RequestSpanEvent list"

definition request_operation :: "request \<Rightarrow> u8" where
  "request_operation rq =
    (let command = cmd_flags rq AND 0xff in
     if command = 0 then BLOCK_OP_READ
     else if command = 1 \<or> command = 9 \<or> command = 13 then BLOCK_OP_WRITE
     else if command = 2 then BLOCK_OP_FLUSH
     else if command = 3 \<or> command = 5 then BLOCK_OP_DISCARD
     else BLOCK_OP_OTHER)"

definition request_device :: "request \<Rightarrow> u32" where
  "request_device rq = (case rq_disk rq of None \<Rightarrow> 0 | Some part0 \<Rightarrow> (case part0 of Some d \<Rightarrow> d | None \<Rightarrow> 0))"

definition request_partition :: "request \<Rightarrow> u32" where
  "request_partition rq = (case rq_part rq of Some d \<Rightarrow> d | None \<Rightarrow> request_device rq)"

definition blk_should_track :: "block_cfg \<Rightarrow> benv \<Rightarrow> u32 \<Rightarrow> u8 \<Rightarrow> bool" where
  "blk_should_track cfg k dev operation =
    (if dev = 0 \<or> BLOCK_OP_COUNT \<le> unat operation then False
     else if operation_mask cfg AND push_bit (unat operation) 1 = 0 then False
     else if \<not> blk_filter_enabled cfg then True
     else b_tracked k dev)"

definition zero_operation :: operation_stats where
  "zero_operation = \<lparr>op_bytes = 0, op_operations = 0, op_errors = 0, queue_latency_ns = 0, service_latency_ns = 0,
    total_latency_ns = 0, service_histogram = replicate HISTOGRAM_BUCKETS 0, total_histogram = replicate HISTOGRAM_BUCKETS 0\<rparr>"

definition zero_device_stats :: device_stats where
  "zero_device_stats = \<lparr>dev_operations = replicate BLOCK_OP_COUNT zero_operation, dev_requeues = 0, lost_requests = 0,
    timeline_drops = 0, dev_first_seen = 0, dev_last_seen = 0\<rparr>"

text \<open>The entry of a device, created when it is missing; \<open>None\<close> when it cannot be.\<close>

definition get_device_stats :: "benv \<Rightarrow> u32 \<Rightarrow> u64 \<Rightarrow> block_maps \<Rightarrow> device_stats option" where
  "get_device_stats k dev now m =
    (case bm_stats m dev of
       Some st \<Rightarrow> Some (if dev_first_seen st = 0 then st\<lparr>dev_first_seen := now\<rparr> else st)
     | None \<Rightarrow> if b_stats_insert k then Some (zero_device_stats\<lparr>dev_first_seen := now, dev_last_seen := now\<rparr>) else None)"

definition with_stats :: "benv \<Rightarrow> u32 \<Rightarrow> u64 \<Rightarrow> (device_stats \<Rightarrow> device_stats) \<Rightarrow> block_maps \<Rightarrow> block_maps" where
  "with_stats k dev now f m =
    (case get_device_stats k dev now m of None \<Rightarrow> m | Some st \<Rightarrow> m\<lparr>bm_stats := (bm_stats m)(dev \<mapsto> f st)\<rparr>)"

definition advance_depth :: "u64 \<Rightarrow> device_depth \<Rightarrow> device_depth" where
  "advance_depth now d =
    (if last_update_ns d \<noteq> 0 \<and> last_update_ns d < now then
       let elapsed = now - last_update_ns d in
       d\<lparr>busy_ns := (if inflight d \<noteq> 0 then busy_ns d + elapsed else busy_ns d),
         saturated_ns := (if queued d \<noteq> 0 then saturated_ns d + elapsed else saturated_ns d),
         inflight_ns := inflight_ns d + elapsed * ucast (inflight d),
         queued_ns := queued_ns d + elapsed * ucast (queued d)\<rparr>
     else d)"

definition count_depth :: "int \<Rightarrow> u32 \<Rightarrow> u32" where
  "count_depth delta n = (if 0 < delta then n + 1 else if delta < 0 \<and> n \<noteq> 0 then n - 1 else n)"

definition adjust_depth :: "block_cfg \<Rightarrow> u32 \<Rightarrow> int \<Rightarrow> int \<Rightarrow> u64 \<Rightarrow> block_maps \<Rightarrow> block_maps" where
  "adjust_depth cfg dev queued_delta inflight_delta now m =
    (if \<not> saturation_enabled cfg then m
     else
       case bm_depths m dev of
         None \<Rightarrow> m
       | Some d0 \<Rightarrow>
           (let d1 = advance_depth now d0;
                d2 = d1\<lparr>queued := count_depth queued_delta (queued d1), inflight := count_depth inflight_delta (inflight d1)\<rparr>;
                d3 = d2\<lparr>max_queued := max (max_queued d2) (queued d2), max_inflight := max (max_inflight d2) (inflight d2),
                  last_update_ns := now\<rparr> in
            m\<lparr>bm_depths := (bm_depths m)(dev \<mapsto> d3)\<rparr>))"

definition latency_bucket :: "u64 \<Rightarrow> nat" where
  "latency_bucket latency_ns =
    (let micros = latency_ns div 1000 in
     if micros \<le> 1 then 0
     else if 2 ^ (HISTOGRAM_BUCKETS - 1) \<le> micros then HISTOGRAM_BUCKETS - 1
     else
       let (micros, bucket) = (if 2 ^ 16 \<le> micros then (drop_bit 16 micros, 16) else (micros, 0));
           (micros, bucket) = (if 2 ^ 8 \<le> micros then (drop_bit 8 micros, bucket + 8) else (micros, bucket));
           (micros, bucket) = (if 2 ^ 4 \<le> micros then (drop_bit 4 micros, bucket + 4) else (micros, bucket));
           (micros, bucket) = (if 2 ^ 2 \<le> micros then (drop_bit 2 micros, bucket + 2) else (micros, bucket)) in
       if 2 ^ 1 \<le> micros then bucket + 1 else bucket)"

definition on_operation :: "u8 \<Rightarrow> (operation_stats \<Rightarrow> operation_stats) \<Rightarrow> device_stats \<Rightarrow> device_stats" where
  "on_operation operation f st =
    st\<lparr>dev_operations := (dev_operations st)[unat operation := f (dev_operations st ! unat operation)]\<rparr>"

definition record_bytes :: "block_cfg \<Rightarrow> benv \<Rightarrow> u32 \<Rightarrow> u8 \<Rightarrow> u32 \<Rightarrow> i32 \<Rightarrow> u64 \<Rightarrow> block_maps \<Rightarrow> block_maps" where
  "record_bytes cfg k dev operation bytes err now m =
    (if BLOCK_OP_COUNT \<le> unat operation then m
     else if \<not> blk_bytes_enabled cfg \<and> (\<not> blk_errors_enabled cfg \<or> err = 0) then m
     else
       with_stats k dev now (\<lambda>st. on_operation operation (\<lambda>op.
         op\<lparr>op_bytes := (if blk_bytes_enabled cfg \<and> bytes \<noteq> 0 then op_bytes op + ucast bytes else op_bytes op),
            op_errors := (if blk_errors_enabled cfg \<and> err \<noteq> 0 then op_errors op + 1 else op_errors op)\<rparr>)
         (st\<lparr>dev_last_seen := now\<rparr>)) m)"

definition bump :: "nat \<Rightarrow> u64 list \<Rightarrow> u64 list" where
  "bump i h = h[i := h ! i + 1]"

definition record_completion :: "block_cfg \<Rightarrow> benv \<Rightarrow> u32 \<Rightarrow> u8 \<Rightarrow> u64 \<Rightarrow> u64 \<Rightarrow> u64 \<Rightarrow> u64 \<Rightarrow> block_maps \<Rightarrow> block_maps" where
  "record_completion cfg k dev operation queue_ns service_ns total_ns now m =
    (if BLOCK_OP_COUNT \<le> unat operation then m
     else if \<not> blk_operations_enabled cfg \<and> \<not> latency_enabled cfg then m
     else
       with_stats k dev now (\<lambda>st. on_operation operation (\<lambda>op.
         let op1 = (if blk_operations_enabled cfg then op\<lparr>op_operations := op_operations op + 1\<rparr> else op) in
         if \<not> latency_enabled cfg then op1
         else op1\<lparr>queue_latency_ns := queue_latency_ns op1 + queue_ns, service_latency_ns := service_latency_ns op1 + service_ns,
           total_latency_ns := total_latency_ns op1 + total_ns,
           service_histogram := bump (latency_bucket service_ns) (service_histogram op1),
           total_histogram := bump (latency_bucket total_ns) (total_histogram op1)\<rparr>)
         (st\<lparr>dev_last_seen := now\<rparr>)) m)"

definition record_lost_request :: "block_cfg \<Rightarrow> benv \<Rightarrow> u32 \<Rightarrow> u64 \<Rightarrow> block_maps \<Rightarrow> block_maps" where
  "record_lost_request cfg k dev now m =
    (if \<not> blk_errors_enabled cfg then m else with_stats k dev now (\<lambda>st. st\<lparr>lost_requests := lost_requests st + 1\<rparr>) m)"

definition new_request :: "benv \<Rightarrow> request \<Rightarrow> u32 \<Rightarrow> u32 \<Rightarrow> u8 \<Rightarrow> u64 \<Rightarrow> bool \<Rightarrow> request_state" where
  "new_request k rq dev partition_dev operation now ins =
    \<lparr>rs_first_seen = now, insert_ns = (if ins then now else 0), issue_ns = 0, rs_service_ns = 0, rs_sector = rq_sector rq,
     rs_bytes = data_len rq, remaining_bytes = data_len rq, rs_dev = dev, rs_partition_dev = partition_dev,
     rs_tgid = ucast (drop_bit 32 (b_pid_tgid k)), rs_pid = ucast (b_pid_tgid k), rs_requeues = 0, rs_operation = operation,
     inserted = ins, issued = False, rs_comm = b_comm k\<rparr>"

text \<open>\<open>None\<close> is the failure to insert the request.\<close>

definition create_request ::
  "block_cfg \<Rightarrow> benv \<Rightarrow> request \<Rightarrow> u32 \<Rightarrow> u32 \<Rightarrow> u8 \<Rightarrow> u64 \<Rightarrow> bool \<Rightarrow> block_maps \<Rightarrow> request_state option \<times> block_maps" where
  "create_request cfg k rq dev partition_dev operation now ins m =
    (if \<not> b_request_insert k then (None, record_lost_request cfg k dev now m)
     else
       let st = new_request k rq dev partition_dev operation now ins;
           m1 = m\<lparr>bm_requests := (bm_requests m)(rq_id rq \<mapsto> st)\<rparr> in
       (Some st, if ins then adjust_depth cfg dev 1 0 now m1 else m1))"

definition emit_request_span ::
  "block_cfg \<Rightarrow> benv \<Rightarrow> u64 \<Rightarrow> request_state \<Rightarrow> u64 \<Rightarrow> u64 \<Rightarrow> u64 \<Rightarrow> u64 \<Rightarrow> u64 \<Rightarrow> i32 \<Rightarrow> bool \<Rightarrow> block_maps \<Rightarrow> block_maps" where
  "emit_request_span cfg k rid st start end' queue_ns service_ns total_ns err completed m =
    (if \<not> timeline_enabled cfg \<or> end' \<le> start \<or> total_ns < timeline_min_latency_ns cfg then m
     else if 1 < timeline_sample_every cfg \<and> b_prandom k mod timeline_sample_every cfg \<noteq> 0 then m
     else if \<not> b_reserve k then with_stats k (rs_dev st) end' (\<lambda>st. st\<lparr>timeline_drops := timeline_drops st + 1\<rparr>) m
     else
       m\<lparr>bm_events := bm_events m @ [\<lparr>request_id = rid, start_ns = start, end_ns = end', ev_queue_ns = queue_ns, ev_service_ns = service_ns,
         ev_total_ns = total_ns, ev_sector = rs_sector st, ev_dev = rs_dev st, ev_partition_dev = rs_partition_dev st, ev_bytes = rs_bytes st,
         ev_tgid = rs_tgid st, ev_pid = rs_pid st, ev_requeues = rs_requeues st, ev_error = err, ev_operation = rs_operation st,
         ev_completed = completed, ev_comm = rs_comm st\<rparr>]\<rparr>)"

definition set_request :: "u64 \<Rightarrow> request_state \<Rightarrow> block_maps \<Rightarrow> block_maps" where
  "set_request rid st m = m\<lparr>bm_requests := (bm_requests m)(rid \<mapsto> st)\<rparr>"

definition trace_block_rq_insert :: "block_cfg \<Rightarrow> benv \<Rightarrow> request \<Rightarrow> block_maps \<Rightarrow> block_maps" where
  "trace_block_rq_insert cfg k rq m =
    (if \<not> request_tracking_enabled cfg then m
     else
       let dev = request_device rq; operation = request_operation rq; now = b_now k in
       if \<not> blk_should_track cfg k dev operation then m
       else
         case bm_requests m (rq_id rq) of
           None \<Rightarrow> snd (create_request cfg k rq dev (request_partition rq) operation now True m)
         | Some st \<Rightarrow>
             (let st1 = st\<lparr>rs_bytes := data_len rq\<rparr>;
                  st2 = (if remaining_bytes st1 < rs_bytes st1 then st1\<lparr>remaining_bytes := rs_bytes st1\<rparr> else st1) in
              if \<not> inserted st2 \<and> \<not> issued st2 then
                adjust_depth cfg dev 1 0 now (set_request (rq_id rq) (st2\<lparr>insert_ns := now, inserted := True\<rparr>) m)
              else set_request (rq_id rq) st2 m))"

definition trace_block_rq_merge :: "block_cfg \<Rightarrow> benv \<Rightarrow> request \<Rightarrow> block_maps \<Rightarrow> block_maps" where
  "trace_block_rq_merge cfg k rq m =
    (if \<not> request_tracking_enabled cfg then m
     else
       case bm_requests m (rq_id rq) of
         None \<Rightarrow> m
       | Some st \<Rightarrow> set_request (rq_id rq) (st\<lparr>rs_bytes := data_len rq, remaining_bytes := data_len rq\<rparr>) m)"

definition issue_request :: "block_cfg \<Rightarrow> request \<Rightarrow> u32 \<Rightarrow> u64 \<Rightarrow> request_state \<Rightarrow> block_maps \<Rightarrow> block_maps" where
  "issue_request cfg rq dev now st m =
    (let m1 = (if inserted st then adjust_depth cfg dev (- 1) 0 now m else m);
         m2 = (if \<not> issued st then adjust_depth cfg dev 0 1 now m1 else m1);
         st1 = st\<lparr>inserted := False, issued := True, issue_ns := now, rs_bytes := data_len rq\<rparr> in
     set_request (rq_id rq) (if remaining_bytes st1 = 0 then st1\<lparr>remaining_bytes := rs_bytes st1\<rparr> else st1) m2)"

definition trace_block_rq_issue :: "block_cfg \<Rightarrow> benv \<Rightarrow> request \<Rightarrow> block_maps \<Rightarrow> block_maps" where
  "trace_block_rq_issue cfg k rq m =
    (if \<not> request_tracking_enabled cfg then m
     else
       let dev = request_device rq; operation = request_operation rq; now = b_now k in
       if \<not> blk_should_track cfg k dev operation then m
       else
         case bm_requests m (rq_id rq) of
           Some st \<Rightarrow> issue_request cfg rq dev now st m
         | None \<Rightarrow>
             (case create_request cfg k rq dev (request_partition rq) operation now False m of
                (None, m1) \<Rightarrow> m1
              | (Some st, m1) \<Rightarrow> issue_request cfg rq dev now st m1))"

definition trace_block_rq_requeue :: "block_cfg \<Rightarrow> benv \<Rightarrow> request \<Rightarrow> block_maps \<Rightarrow> block_maps" where
  "trace_block_rq_requeue cfg k rq m =
    (if \<not> blk_errors_enabled cfg \<and> \<not> request_tracking_enabled cfg then m
     else
       let now = b_now k; dev = request_device rq; operation = request_operation rq in
       if \<not> blk_should_track cfg k dev operation then m
       else
         let m1 = (if blk_errors_enabled cfg then with_stats k dev now (\<lambda>st. st\<lparr>dev_requeues := dev_requeues st + 1\<rparr>) m else m) in
         if \<not> request_tracking_enabled cfg then m1
         else
           case bm_requests m1 (rq_id rq) of
             None \<Rightarrow> m1
           | Some st \<Rightarrow>
               (let (attempt, st1, m2) =
                  (if issued st \<and> issue_ns st < now then
                     (now - issue_ns st, st\<lparr>rs_service_ns := rs_service_ns st + (now - issue_ns st), issued := False\<rparr>,
                      adjust_depth cfg (rs_dev st) 0 (- 1) now m1)
                   else (0, st, m1));
                    st2 = st1\<lparr>rs_requeues := rs_requeues st1 + 1\<rparr>;
                    m3 = emit_request_span cfg k (rq_id rq) st2 (issue_ns st2) now 0 attempt (now - rs_first_seen st2) 0 False m2 in
                set_request (rq_id rq) (st2\<lparr>issue_ns := 0\<rparr>) m3))"

definition complete_request :: "block_cfg \<Rightarrow> benv \<Rightarrow> u64 \<Rightarrow> i32 \<Rightarrow> u64 \<Rightarrow> request_state \<Rightarrow> block_maps \<Rightarrow> block_maps" where
  "complete_request cfg k rid err now st m =
    (let (st1, m1) =
       (if issued st \<and> issue_ns st < now then
          (st\<lparr>rs_service_ns := rs_service_ns st + (now - issue_ns st), issued := False\<rparr>, adjust_depth cfg (rs_dev st) 0 (- 1) now m)
        else (st, m));
         (st2, m2) = (if inserted st1 then (st1\<lparr>inserted := False\<rparr>, adjust_depth cfg (rs_dev st1) (- 1) 0 now m1) else (st1, m1));
         total_ns = (if rs_first_seen st2 < now then now - rs_first_seen st2 else 0);
         queue_ns = (if rs_service_ns st2 < total_ns then total_ns - rs_service_ns st2 else 0);
         m3 = record_completion cfg k (rs_dev st2) (rs_operation st2) queue_ns (rs_service_ns st2) total_ns now m2;
         start = (if issue_ns st2 \<noteq> 0 then issue_ns st2 else rs_first_seen st2);
         m4 = emit_request_span cfg k rid st2 start now queue_ns (rs_service_ns st2) total_ns err True m3 in
     m4\<lparr>bm_requests := (bm_requests m4)(rid := None)\<rparr>)"

definition trace_block_rq_complete :: "block_cfg \<Rightarrow> benv \<Rightarrow> request \<Rightarrow> i32 \<Rightarrow> u32 \<Rightarrow> block_maps \<Rightarrow> block_maps" where
  "trace_block_rq_complete cfg k rq err nr_bytes m =
    (let dev = request_device rq; operation = request_operation rq; now = b_now k in
     if \<not> blk_should_track cfg k dev operation then m
     else
       let m1 = record_bytes cfg k dev operation nr_bytes err now m in
       if \<not> request_tracking_enabled cfg then m1
       else
         case bm_requests m1 (rq_id rq) of
           None \<Rightarrow> record_completion cfg k dev operation 0 0 0 now m1
         | Some st \<Rightarrow>
             if err \<noteq> 0 \<or> remaining_bytes st \<le> nr_bytes then complete_request cfg k (rq_id rq) err now st m1
             else set_request (rq_id rq) (st\<lparr>remaining_bytes := remaining_bytes st - nr_bytes\<rparr>) m1)"

section \<open>The bucket of a latency\<close>

definition bucket_step :: "nat \<Rightarrow> u64 \<times> nat \<Rightarrow> u64 \<times> nat" where
  "bucket_step k = (\<lambda>(m, b). if 2 ^ k \<le> m then (drop_bit k m, b + k) else (m, b))"

definition bucket_inv :: "nat \<Rightarrow> nat \<Rightarrow> u64 \<times> nat \<Rightarrow> bool" where
  "bucket_inv n w = (\<lambda>(m, b). 0 < unat m \<and> unat m < 2 ^ w \<and> unat m * 2 ^ b \<le> n \<and> n < (unat m + 1) * 2 ^ b)"

lemma bucket_step_inv:
  assumes "bucket_inv n (2 * k) (m, b)" "k < 64"
  shows "bucket_inv n k (bucket_step k (m, b))"
proof (cases "2 ^ k \<le> m")
  case True
  let ?q = "unat m div 2 ^ k"
  have q: "unat (drop_bit k m) = ?q" by (simp only: unat_drop_bit_eq) (simp add: drop_bit_eq_div)
  have le: "2 ^ k \<le> unat m" using True assms(2) by (simp add: word_le_nat_alt unat_pow2)
  have a: "unat m < 2 ^ (2 * k)" "unat m * 2 ^ b \<le> n" "n < (unat m + 1) * 2 ^ b" using assms(1) by (simp_all add: bucket_inv_def)
  have "?q < 2 ^ k" using a(1) by (simp add: less_mult_imp_div_less mult_2 power_add)
  moreover have "0 < ?q" using le by (simp add: div_greater_zero_iff)
  moreover have "?q * 2 ^ k \<le> unat m" by simp
  then have "?q * 2 ^ k * 2 ^ b \<le> n" using a(2) by (metis le_trans mult_le_mono1)
  moreover have "unat m + 1 \<le> (?q + 1) * 2 ^ k" using dividend_less_div_times [of "2 ^ k" "unat m"] by simp
  then have "n < (?q + 1) * 2 ^ k * 2 ^ b" using a(3) by (metis less_le_trans mult_le_mono1)
  ultimately show ?thesis using True q by (simp add: bucket_step_def bucket_inv_def power_add algebra_simps)
next
  case False
  then have "unat m < 2 ^ k" using assms(2) by (simp add: word_le_nat_alt unat_pow2)
  then show ?thesis using False assms(1) by (simp add: bucket_step_def bucket_inv_def)
qed

lemma bucket_inv_next: "bucket_inv n j x \<Longrightarrow> j = 2 * k \<Longrightarrow> k < 64 \<Longrightarrow> bucket_inv n k (bucket_step k x)"
  using bucket_step_inv by (cases x) simp

lemma fold_bucket_step:
  "(if 2 ^ k \<le> m then (drop_bit k m, b + k) else (m, b)) = bucket_step k (m, b)"
  "(if 2 ^ k \<le> m then (drop_bit k m, k) else (m, 0)) = bucket_step k (m, 0)"
  "(if 2 ^ 1 \<le> m then b + 1 else b) = snd (bucket_step 1 (m, b))"
  by (simp_all add: bucket_step_def)

lemma latency_bucket_steps:
  assumes "1 < l div 1000" "l div 1000 < 2 ^ 31"
  shows "latency_bucket l = snd (bucket_step 1 (bucket_step 2 (bucket_step 4 (bucket_step 8 (bucket_step 16 (l div 1000, 0))))))"
proof -
  have "\<not> l div 1000 \<le> 1" "\<not> 2 ^ (HISTOGRAM_BUCKETS - 1) \<le> l div 1000" using assms by (simp_all add: HISTOGRAM_BUCKETS_def not_le)
  then show ?thesis
    by (simp only: latency_bucket_def Let_def if_False fold_bucket_step case_prod_beta prod.collapse)
qed

lemma unat_micros: "unat (l div 1000 :: u64) = unat l div 1000"
  by (simp add: unat_div)

text \<open>The bucket is the binary logarithm of the latency in microseconds, within the range of the histogram.\<close>

lemma latency_bucket_spec:
  fixes l :: u64
  defines "n \<equiv> unat l div 1000"
  shows "latency_bucket l < 32" "0 < latency_bucket l \<Longrightarrow> 2 ^ latency_bucket l \<le> n" "latency_bucket l < 31 \<Longrightarrow> n < 2 ^ (latency_bucket l + 1)"
proof -
  have n: "unat (l div 1000) = n" by (simp add: n_def unat_micros)
  consider "l div 1000 \<le> 1" | "2 ^ 31 \<le> l div 1000" "1 < l div 1000" | "1 < l div 1000" "l div 1000 < 2 ^ 31" by fastforce
  then have "latency_bucket l < 32 \<and> (0 < latency_bucket l \<longrightarrow> 2 ^ latency_bucket l \<le> n) \<and> (latency_bucket l < 31 \<longrightarrow> n < 2 ^ (latency_bucket l + 1))"
  proof cases
    case 1
    then have "n \<le> 1" using n by (simp add: word_le_nat_alt)
    moreover have "latency_bucket l = 0" using 1 by (simp only: latency_bucket_def Let_def if_True)
    ultimately show ?thesis by simp
  next
    case 2
    then have "2 ^ 31 \<le> n" using n by (simp add: word_le_nat_alt)
    moreover have "\<not> l div 1000 \<le> 1" "2 ^ (HISTOGRAM_BUCKETS - 1) \<le> l div 1000" using 2 by (simp_all add: HISTOGRAM_BUCKETS_def)
    then have "latency_bucket l = HISTOGRAM_BUCKETS - 1" by (simp only: latency_bucket_def Let_def if_True if_False)
    ultimately show ?thesis by (simp add: HISTOGRAM_BUCKETS_def)
  next
    case 3
    then have bounds: "1 < n" "n < 2 ^ 31" using n by (simp_all add: word_less_nat_alt)
    let ?s = "bucket_step 1 (bucket_step 2 (bucket_step 4 (bucket_step 8 (bucket_step 16 (l div 1000, 0)))))"
    have "bucket_inv n 32 (l div 1000, 0)" using bounds n by (simp add: bucket_inv_def)
    then have "bucket_inv n 1 ?s"
      by (intro bucket_inv_next [of n 2 _ 1] bucket_inv_next [of n 4 _ 2] bucket_inv_next [of n 8 _ 4] bucket_inv_next [of n 16 _ 8]
          bucket_inv_next [of n 32 _ 16]) simp_all
    moreover obtain m b where s: "?s = (m, b)" by fastforce
    ultimately have inv: "bucket_inv n 1 (m, b)" by simp
    then have "unat m = 1" by (simp add: bucket_inv_def)
    then have b: "2 ^ b \<le> n" "n < 2 ^ (b + 1)" using inv by (simp_all add: bucket_inv_def)
    have "(2 :: nat) ^ b < 2 ^ 31" using b(1) bounds(2) by (rule le_less_trans)
    then have "b < 31" by (rule power_less_imp_less_exp [rotated]) simp
    moreover have "latency_bucket l = b" using latency_bucket_steps [OF 3] s by simp
    ultimately show ?thesis using b by simp
  qed
  then show "latency_bucket l < 32" "0 < latency_bucket l \<Longrightarrow> 2 ^ latency_bucket l \<le> n" "latency_bucket l < 31 \<Longrightarrow> n < 2 ^ (latency_bucket l + 1)"
    by simp_all
qed

section \<open>What the steps change\<close>

lemma with_stats_keeps [simp]:
  "bm_requests (with_stats k dev now f m) = bm_requests m" "bm_depths (with_stats k dev now f m) = bm_depths m"
  "bm_events (with_stats k dev now f m) = bm_events m"
  by (simp_all add: with_stats_def split: option.split)

lemma record_keeps [simp]:
  "bm_requests (record_bytes cfg k dev operation bytes err now m) = bm_requests m"
  "bm_depths (record_bytes cfg k dev operation bytes err now m) = bm_depths m"
  "bm_events (record_bytes cfg k dev operation bytes err now m) = bm_events m"
  "bm_requests (record_completion cfg k dev operation q sv tt now m) = bm_requests m"
  "bm_depths (record_completion cfg k dev operation q sv tt now m) = bm_depths m"
  "bm_events (record_completion cfg k dev operation q sv tt now m) = bm_events m"
  "bm_requests (record_lost_request cfg k dev now m) = bm_requests m"
  "bm_depths (record_lost_request cfg k dev now m) = bm_depths m"
  "bm_events (record_lost_request cfg k dev now m) = bm_events m"
  by (simp_all add: record_bytes_def record_completion_def record_lost_request_def)

lemma adjust_depth_keeps [simp]:
  "bm_requests (adjust_depth cfg dev q i now m) = bm_requests m" "bm_events (adjust_depth cfg dev q i now m) = bm_events m"
  by (simp_all add: adjust_depth_def Let_def split: option.split)

lemma emit_span_keeps [simp]:
  "bm_requests (emit_request_span cfg k rid st a b q sv tt err c m) = bm_requests m"
  "bm_depths (emit_request_span cfg k rid st a b q sv tt err c m) = bm_depths m"
  by (simp_all add: emit_request_span_def)

lemma set_request_simps [simp]:
  "bm_requests (set_request rid st m) = (bm_requests m)(rid \<mapsto> st)" "bm_depths (set_request rid st m) = bm_depths m"
  "bm_events (set_request rid st m) = bm_events m"
  by (simp_all add: set_request_def)

text \<open>A reported event is one of the events before it or the new one.\<close>

lemma emit_span_events:
  assumes "e \<in> set (bm_events (emit_request_span cfg k rid st a b q sv tt err c m))"
  obtains "e \<in> set (bm_events m)" | "a < b" "start_ns e = a" "end_ns e = b" "ev_queue_ns e = q" "ev_service_ns e = sv" "ev_total_ns e = tt"
    "ev_completed e = c"
  using assms by (auto simp: emit_request_span_def not_le split: if_splits)

section \<open>The depth of the queues\<close>

type_synonym request_map = "u64 \<rightharpoonup> request_state"
type_synonym depth_map = "u32 \<rightharpoonup> device_depth"

definition num :: "(request_state \<Rightarrow> bool) \<Rightarrow> request_map \<Rightarrow> nat" where
  "num P R = card {i. \<exists>s. R i = Some s \<and> P s}"

definition fl :: "(request_state \<Rightarrow> bool) \<Rightarrow> request_state option \<Rightarrow> int" where
  "fl P v = (case v of None \<Rightarrow> 0 | Some s \<Rightarrow> of_bool (P s))"

lemma fl_simps [simp]: "fl P None = 0" "fl P (Some s) = of_bool (P s)"
  by (simp_all add: fl_def)

lemma num_upd:
  assumes "finite (dom R)"
  shows "int (num P (R(i := v))) = int (num P R) + fl P v - fl P (R i)"
proof -
  let ?A = "{j. \<exists>s. R j = Some s \<and> P s}" and ?B = "{j. \<exists>s. (R(i := v)) j = Some s \<and> P s}"
  have A: "finite ?A" by (rule finite_subset [OF _ assms]) auto
  have B: "finite ?B" by (rule finite_subset [of _ "insert i (dom R)"]) (use assms in \<open>auto split: if_splits\<close>)
  have eq: "?A - {i} = ?B - {i}" by auto
  have "int (card ?A) = int (card (?A - {i})) + fl P (R i)"
    using A card_Suc_Diff1 [OF A, of i] by (cases "i \<in> ?A") (auto simp: fl_def split: option.split)
  moreover have "int (card ?B) = int (card (?B - {i})) + fl P v"
    using B card_Suc_Diff1 [OF B, of i] by (cases "i \<in> ?B") (auto simp: fl_def split: option.split)
  ultimately show ?thesis by (simp add: num_def eq)
qed

lemma num_le: "finite (dom R) \<Longrightarrow> num P R \<le> card (dom R)"
  unfolding num_def by (rule card_mono) auto

definition counts :: "request_map \<Rightarrow> depth_map \<Rightarrow> bool" where
  "counts R D \<longleftrightarrow> (\<forall>dev d. D dev = Some d \<longrightarrow> uint (inflight d) = int (num (\<lambda>s. rs_dev s = dev \<and> issued s) R) \<and>
    uint (queued d) = int (num (\<lambda>s. rs_dev s = dev \<and> inserted s) R))"

definition shifted :: "u32 \<Rightarrow> int \<Rightarrow> int \<Rightarrow> depth_map \<Rightarrow> depth_map \<Rightarrow> bool" where
  "shifted dev q f D D' \<longleftrightarrow> (\<forall>x. x \<noteq> dev \<longrightarrow> D' x = D x) \<and> (\<forall>d'. D' dev = Some d' \<longrightarrow> (\<exists>d. D dev = Some d \<and>
    uint (queued d') = uint (queued d) + q \<and> uint (inflight d') = uint (inflight d) + f))"

definition fits :: "u32 \<Rightarrow> int \<Rightarrow> int \<Rightarrow> depth_map \<Rightarrow> bool" where
  "fits dev q f D \<longleftrightarrow> (\<forall>d. D dev = Some d \<longrightarrow> 0 \<le> uint (queued d) + q \<and> uint (queued d) + q < 2 ^ 32 \<and>
    0 \<le> uint (inflight d) + f \<and> uint (inflight d) + f < 2 ^ 32)"

lemma uint_u32 [simp]: "uint (n :: u32) < 4294967296"
  using uint_lt2p [of n] by simp

lemma fits_weaken: "fits dev q f D \<Longrightarrow> fits dev q 0 D" "fits dev q f D \<Longrightarrow> fits dev 0 f D"
  by (simp_all add: fits_def)

lemma shifted_refl [simp]: "shifted dev 0 0 D D"
  by (simp add: shifted_def)

lemma shifted_trans: "shifted dev q f D D' \<Longrightarrow> shifted dev q' f' D' D'' \<Longrightarrow> shifted dev (q + q') (f + f') D D''"
  by (fastforce simp: shifted_def)

lemma fits_shifted: "shifted dev q f D D' \<Longrightarrow> fits dev (q + q') (f + f') D \<Longrightarrow> fits dev q' f' D'"
  by (fastforce simp: shifted_def fits_def)

lemma unat_count_depth:
  assumes "c \<in> {- 1, 0, 1}" "0 \<le> uint n + c" "uint n + c < 2 ^ 32"
  shows "uint (count_depth c n) = uint n + c"
proof -
  consider "c = - 1" | "c = 0" | "c = 1" using assms(1) by auto
  then show ?thesis
  proof cases
    case 1
    then have "n \<noteq> 0" using assms(2) by auto
    then show ?thesis using 1 assms(2) by (simp add: count_depth_def uint_sub_if' word_le_def)
  next
    case 3
    then show ?thesis using assms(3) by (simp add: count_depth_def uint_plus_if')
  qed (simp add: count_depth_def)
qed

lemma advance_depth_counts [simp]: "queued (advance_depth now d) = queued d" "inflight (advance_depth now d) = inflight d"
  by (simp_all add: advance_depth_def Let_def)

lemma adjust_shifted:
  assumes "saturation_enabled cfg" "q \<in> {- 1, 0, 1}" "f \<in> {- 1, 0, 1}" "fits dev q f (bm_depths m)"
  shows "shifted dev q f (bm_depths m) (bm_depths (adjust_depth cfg dev q f now m))"
  using assms unat_count_depth [of q] unat_count_depth [of f]
  by (auto simp: shifted_def fits_def adjust_depth_def Let_def split: option.splits)

lemma counts_shifted:
  assumes "counts R D" "finite (dom R)" "shifted dev (fl inserted v - fl inserted (R i)) (fl issued v - fl issued (R i)) D D'"
    and "\<And>s. R i = Some s \<Longrightarrow> rs_dev s = dev" "\<And>s. v = Some s \<Longrightarrow> rs_dev s = dev"
  shows "counts (R(i := v)) D'"
  unfolding counts_def
proof (intro allI impI)
  fix x d'
  assume d': "D' x = Some d'"
  have on: "fl (\<lambda>s. rs_dev s = x \<and> g s) o' = (if x = dev then fl g o' else 0)" if "\<And>s. o' = Some s \<Longrightarrow> rs_dev s = dev" for g o'
    using that by (cases o') auto
  have n: "int (num (\<lambda>s. rs_dev s = x \<and> g s) (R(i := v))) = int (num (\<lambda>s. rs_dev s = x \<and> g s) R) + (if x = dev then fl g v - fl g (R i) else 0)" for g
    using num_upd [OF assms(2), of "\<lambda>s. rs_dev s = x \<and> g s" i v] on [of v g] on [of "R i" g] assms(4,5) by auto
  obtain d where "D x = Some d" "uint (queued d') = uint (queued d) + (if x = dev then fl inserted v - fl inserted (R i) else 0)"
      "uint (inflight d') = uint (inflight d) + (if x = dev then fl issued v - fl issued (R i) else 0)"
    using assms(3) d' by (cases "x = dev") (auto simp: shifted_def)
  then show "uint (inflight d') = int (num (\<lambda>s. rs_dev s = x \<and> issued s) (R(i := v))) \<and>
      uint (queued d') = int (num (\<lambda>s. rs_dev s = x \<and> inserted s) (R(i := v)))"
    using assms(1) n [of inserted] n [of issued] by (simp add: counts_def)
qed

lemma counts_fits:
  assumes "counts R D" "finite (dom R)" "card (dom (R(i := v))) < 2 ^ 32"
    and "\<And>s. R i = Some s \<Longrightarrow> rs_dev s = dev" "\<And>s. v = Some s \<Longrightarrow> rs_dev s = dev"
  shows "fits dev (fl inserted v - fl inserted (R i)) (fl issued v - fl issued (R i)) D"
  unfolding fits_def
proof (intro allI impI)
  fix d
  assume d: "D dev = Some d"
  have on: "fl (\<lambda>s. rs_dev s = dev \<and> g s) o' = fl g o'" if "\<And>s. o' = Some s \<Longrightarrow> rs_dev s = dev" for g o'
    using that by (cases o') auto
  have fin: "finite (dom (R(i := v)))" using assms(2) by (cases v) simp_all
  have n: "int (num (\<lambda>s. rs_dev s = dev \<and> g s) R) + (fl g v - fl g (R i)) = int (num (\<lambda>s. rs_dev s = dev \<and> g s) (R(i := v)))" for g
    using num_upd [OF assms(2), of "\<lambda>s. rs_dev s = dev \<and> g s" i v] on [of v g] on [of "R i" g] assms(4,5) by simp
  have bound: "int (num P (R(i := v))) < 2 ^ 32" for P using num_le [OF fin, of P] assms(3) by simp
  show "0 \<le> uint (queued d) + (fl inserted v - fl inserted (R i)) \<and> uint (queued d) + (fl inserted v - fl inserted (R i)) < 2 ^ 32 \<and>
      0 \<le> uint (inflight d) + (fl issued v - fl issued (R i)) \<and> uint (inflight d) + (fl issued v - fl issued (R i)) < 2 ^ 32"
    using assms(1) d n [of inserted] n [of issued] bound by (simp add: counts_def)
qed

section \<open>The life of the requests\<close>

datatype block_event =
  Insert request
  | Merge request
  | Issue request
  | Requeue request
  | Complete request i32 u32

primrec event_request :: "block_event \<Rightarrow> request" where
  "event_request (Insert rq) = rq"
| "event_request (Merge rq) = rq"
| "event_request (Issue rq) = rq"
| "event_request (Requeue rq) = rq"
| "event_request (Complete rq err n) = rq"

primrec block_event_step :: "block_cfg \<Rightarrow> benv \<Rightarrow> block_event \<Rightarrow> block_maps \<Rightarrow> block_maps" where
  "block_event_step cfg k (Insert rq) = trace_block_rq_insert cfg k rq"
| "block_event_step cfg k (Merge rq) = trace_block_rq_merge cfg k rq"
| "block_event_step cfg k (Issue rq) = trace_block_rq_issue cfg k rq"
| "block_event_step cfg k (Requeue rq) = trace_block_rq_requeue cfg k rq"
| "block_event_step cfg k (Complete rq err n) = trace_block_rq_complete cfg k rq err n"

definition block_step :: "block_cfg \<Rightarrow> benv \<times> block_event \<Rightarrow> block_maps \<Rightarrow> block_maps" where
  "block_step cfg = (\<lambda>(k, ev). block_event_step cfg k ev)"

text \<open>
  The clock advances with every step, a table of \<open>N\<close> requests takes a new one only while it is not full,
  and a request that is followed stays on its device.
\<close>

definition step_ok :: "nat \<Rightarrow> u64 \<Rightarrow> benv \<times> block_event \<Rightarrow> block_maps \<Rightarrow> bool" where
  "step_ok N t = (\<lambda>(k, ev) m. t < b_now k \<and> (b_request_insert k \<longrightarrow> card (dom (bm_requests m)) < N) \<and>
    (case bm_requests m (rq_id (event_request ev)) of None \<Rightarrow> True | Some st \<Rightarrow> rs_dev st = request_device (event_request ev)))"

primrec run_ok :: "block_cfg \<Rightarrow> nat \<Rightarrow> u64 \<Rightarrow> (benv \<times> block_event) list \<Rightarrow> block_maps \<Rightarrow> bool" where
  "run_ok cfg N t [] m = True"
| "run_ok cfg N t (x # xs) m = (step_ok N t x m \<and> run_ok cfg N (b_now (fst x)) xs (block_step cfg x m))"

definition req_ok :: "u64 \<Rightarrow> request_state \<Rightarrow> bool" where
  "req_ok t s \<longleftrightarrow> unat (rs_first_seen s) + unat (rs_service_ns s) \<le> unat (if issued s then issue_ns s else t) \<and>
    issue_ns s \<le> t \<and> (\<not> issued s \<longrightarrow> issue_ns s = 0)"

definition event_ok :: "RequestSpanEvent \<Rightarrow> bool" where
  "event_ok e \<longleftrightarrow> start_ns e < end_ns e \<and>
    (ev_completed e \<longrightarrow> unat (ev_queue_ns e) + unat (ev_service_ns e) = unat (ev_total_ns e) \<and> end_ns e - start_ns e \<le> ev_total_ns e) \<and>
    (\<not> ev_completed e \<longrightarrow> start_ns e \<noteq> 0 \<longrightarrow> ev_service_ns e = end_ns e - start_ns e)"

definition block_inv :: "nat \<Rightarrow> u64 \<Rightarrow> block_maps \<Rightarrow> bool" where
  "block_inv N t m \<longleftrightarrow> finite (dom (bm_requests m)) \<and> card (dom (bm_requests m)) \<le> N \<and> counts (bm_requests m) (bm_depths m) \<and>
    (\<forall>i s. bm_requests m i = Some s \<longrightarrow> req_ok t s) \<and> (\<forall>e\<in>set (bm_events m). event_ok e)"

lemma req_ok_later: "req_ok t s \<Longrightarrow> t \<le> t' \<Longrightarrow> req_ok t' s"
  by (auto simp: req_ok_def word_le_nat_alt)

lemma block_inv_later: "block_inv N t m \<Longrightarrow> t \<le> t' \<Longrightarrow> block_inv N t' m"
  by (auto simp: block_inv_def intro: req_ok_later)

lemma block_inv_stats [simp]:
  "block_inv N t (with_stats k dev now f m) = block_inv N t m"
  "block_inv N t (record_bytes cfg k dev opn bytes err now m) = block_inv N t m"
  "block_inv N t (record_completion cfg k dev opn q sv tt now m) = block_inv N t m"
  by (simp_all add: block_inv_def)

text \<open>
  One request changes: the counts follow when the depth of its device moves by as much as its flags,
  and the new request and the new events are well formed.
\<close>

lemma block_inv_upd:
  assumes "block_inv N t m" "t \<le> t'" "bm_requests m' = (bm_requests m)(i := v)" "card (dom (bm_requests m')) \<le> N"
    and "\<And>s. bm_requests m i = Some s \<Longrightarrow> rs_dev s = dev" "\<And>s. v = Some s \<Longrightarrow> rs_dev s = dev \<and> req_ok t' s"
    and "shifted dev (fl inserted v - fl inserted (bm_requests m i)) (fl issued v - fl issued (bm_requests m i)) (bm_depths m) (bm_depths m')"
    and "\<And>e. e \<in> set (bm_events m') \<Longrightarrow> e \<in> set (bm_events m) \<or> event_ok e"
  shows "block_inv N t' m'"
proof -
  have fin: "finite (dom (bm_requests m))" and c: "counts (bm_requests m) (bm_depths m)" using assms(1) by (simp_all add: block_inv_def)
  have "counts (bm_requests m') (bm_depths m')" unfolding assms(3) using counts_shifted [OF c fin assms(7)] assms(5,6) by blast
  moreover have "finite (dom (bm_requests m'))" using fin by (cases v) (simp_all add: assms(3))
  moreover have "\<forall>j s. bm_requests m' j = Some s \<longrightarrow> req_ok t' s"
    using assms(1,2,6) by (auto simp: assms(3) block_inv_def intro: req_ok_later)
  moreover have "\<forall>e\<in>set (bm_events m'). event_ok e" using assms(1,8) by (metis block_inv_def)
  ultimately show ?thesis using assms(4) by (simp add: block_inv_def)
qed

lemma block_inv_fits:
  assumes "block_inv N t m" "N < 2 ^ 32" "card (dom ((bm_requests m)(i := v))) \<le> N"
    and "\<And>s. bm_requests m i = Some s \<Longrightarrow> rs_dev s = dev" "\<And>s. v = Some s \<Longrightarrow> rs_dev s = dev"
  shows "fits dev (fl inserted v - fl inserted (bm_requests m i)) (fl issued v - fl issued (bm_requests m i)) (bm_depths m)"
  using assms by (intro counts_fits) (auto simp: block_inv_def)

lemma card_upd_le:
  "finite (dom R) \<Longrightarrow> card (dom R) \<le> N \<Longrightarrow> R i \<noteq> None \<Longrightarrow> card (dom (R(i := v))) \<le> N"
  "finite (dom R) \<Longrightarrow> card (dom R) < N \<Longrightarrow> card (dom (R(i \<mapsto> s))) \<le> N"
  by (auto simp: insert_absorb domI card_insert_if intro: le_trans [OF card_Diff1_le])

lemma issue_request_inv:
  assumes inv: "block_inv N t m" and N: "N < 2 ^ 32" and t: "t \<le> now" and sat: "saturation_enabled cfg"
    and st: "bm_requests m (rq_id rq) = Some st" "rs_dev st = dev"
  shows "block_inv N now (issue_request cfg rq dev now st m)"
proof -
  let ?st = "st\<lparr>inserted := False, issued := True, issue_ns := now, rs_bytes := data_len rq,
      remaining_bytes := (if remaining_bytes st = 0 then data_len rq else remaining_bytes st)\<rparr>"
  let ?m1 = "if inserted st then adjust_depth cfg dev (- 1) 0 now m else m"
  let ?m2 = "if \<not> issued st then adjust_depth cfg dev 0 1 now ?m1 else ?m1"
  have m': "issue_request cfg rq dev now st m = set_request (rq_id rq) ?st ?m2" by (simp add: issue_request_def Let_def)
  have card: "card (dom ((bm_requests m)(rq_id rq := Some ?st))) \<le> N" using inv st by (intro card_upd_le) (simp_all add: block_inv_def)
  have ok: "req_ok t st" using inv st by (simp add: block_inv_def)
  have fits: "fits dev (- of_bool (inserted st)) (1 - of_bool (issued st)) (bm_depths m)"
    using block_inv_fits [OF inv N card, of dev] st by simp
  then have "fits dev (- of_bool (inserted st)) 0 (bm_depths m)" by (rule fits_weaken)
  then have s1: "shifted dev (- of_bool (inserted st)) 0 (bm_depths m) (bm_depths ?m1)"
    using adjust_shifted [OF sat, of "- 1" 0 dev m now] by (cases "inserted st") simp_all
  have "fits dev 0 (1 - of_bool (issued st)) (bm_depths ?m1)" using fits_shifted [OF s1, of 0] fits by simp
  then have "shifted dev 0 (1 - of_bool (issued st)) (bm_depths ?m1) (bm_depths ?m2)"
    using adjust_shifted [OF sat, of 0 1 dev ?m1 now] by (cases "issued st") simp_all
  from shifted_trans [OF s1 this] have s2: "shifted dev (- of_bool (inserted st)) (1 - of_bool (issued st)) (bm_depths m) (bm_depths ?m2)" by simp
  have "unat t \<le> unat now" using t by (simp add: word_le_nat_alt)
  then have "req_ok now ?st" using ok by (auto simp: req_ok_def word_le_nat_alt split: if_splits)
  then show ?thesis unfolding m' using st s2 card
    by (intro block_inv_upd [OF inv t, where v = "Some ?st" and dev = dev and i = "rq_id rq"]) (auto split: if_splits)
qed

lemma request_inv:
  "block_inv N t m \<Longrightarrow> bm_requests m i = Some st \<Longrightarrow> req_ok t st"
  "block_inv N t m \<Longrightarrow> bm_requests m i = Some st \<Longrightarrow> card (dom ((bm_requests m)(i := v))) \<le> N"
  "block_inv N t m \<Longrightarrow> card (dom (bm_requests m)) < N \<Longrightarrow> card (dom ((bm_requests m)(i \<mapsto> st'))) \<le> N"
  unfolding block_inv_def by (blast, metis card_upd_le(1) option.distinct(1), metis card_upd_le(2))

lemma create_request_inv:
  assumes inv: "block_inv N t m" and N: "N < 2 ^ 32" and t: "t \<le> now" and sat: "saturation_enabled cfg"
    and none: "bm_requests m (rq_id rq) = None" and room: "b_request_insert k \<longrightarrow> card (dom (bm_requests m)) < N"
    and m': "create_request cfg k rq dev part opn now ins m = (r, m')"
  shows "block_inv N now m'" "r = Some st \<Longrightarrow> bm_requests m' (rq_id rq) = Some st \<and> rs_dev st = dev"
proof -
  let ?st = "new_request k rq dev part opn now ins"
  have r: "r = (if b_request_insert k then Some ?st else None)" using m' by (auto simp: create_request_def Let_def split: if_splits)
  have reqs: "bm_requests m' = (if b_request_insert k then (bm_requests m)(rq_id rq \<mapsto> ?st) else bm_requests m)"
      "bm_events m' = bm_events m" using m' by (auto simp: create_request_def Let_def split: if_splits)
  then show "r = Some st \<Longrightarrow> bm_requests m' (rq_id rq) = Some st \<and> rs_dev st = dev" using r by (auto simp: new_request_def split: if_splits)
  show "block_inv N now m'"
  proof (cases "b_request_insert k")
    case False
    then have "m' = record_lost_request cfg k dev now m" using m' by (simp add: create_request_def)
    then show ?thesis using block_inv_later [OF inv t] by (simp add: block_inv_def)
  next
    case True
    then have card: "card (dom ((bm_requests m)(rq_id rq \<mapsto> ?st))) \<le> N" using request_inv(3) [OF inv] room by blast
    let ?m1 = "m\<lparr>bm_requests := (bm_requests m)(rq_id rq \<mapsto> ?st)\<rparr>"
    have m1: "m' = (if ins then adjust_depth cfg dev 1 0 now ?m1 else ?m1)" using True m' by (simp add: create_request_def Let_def)
    have "fits dev (of_bool ins) 0 (bm_depths m)"
      using block_inv_fits [OF inv N card, of dev] none by (simp add: new_request_def)
    then have "shifted dev (of_bool ins) 0 (bm_depths m) (bm_depths m')"
      using adjust_shifted [OF sat, of 1 0 dev ?m1 now] by (cases ins) (simp_all add: m1)
    then show ?thesis using True none card reqs
      by (intro block_inv_upd [OF inv t, where v = "Some ?st" and dev = dev and i = "rq_id rq"])
        (auto simp: new_request_def req_ok_def)
  qed
qed

lemma trace_insert_inv:
  assumes inv: "block_inv N t m" and N: "N < 2 ^ 32" and sat: "saturation_enabled cfg" and ok: "step_ok N t (k, Insert rq) m"
  shows "block_inv N (b_now k) (trace_block_rq_insert cfg k rq m)"
proof -
  have t: "t \<le> b_now k" using ok by (simp add: step_ok_def less_imp_le)
  note same = block_inv_later [OF inv t]
  show ?thesis
  proof (cases "bm_requests m (rq_id rq)")
    case None
    then show ?thesis using same create_request_inv(1) [OF inv N t sat None _ prod.collapse [symmetric]] ok
      by (simp add: trace_block_rq_insert_def Let_def step_ok_def)
  next
    case (Some st)
    then have dev: "rs_dev st = request_device rq" using ok by (simp add: step_ok_def)
    have req: "req_ok (b_now k) st" using request_inv(1) [OF same Some] .
    let ?ins = "\<not> inserted st \<and> \<not> issued st"
    define st' where "st' = st\<lparr>rs_bytes := data_len rq, remaining_bytes := (if remaining_bytes st < data_len rq then data_len rq else remaining_bytes st)\<rparr>"
    have s: "inserted st' = inserted st" "issued st' = issued st" "rs_dev st' = rs_dev st" "req_ok (b_now k) st'" 
        "req_ok (b_now k) (st'\<lparr>insert_ns := b_now k, inserted := True\<rparr>)"
      using req by (auto simp: st'_def req_ok_def)
    define v where "v = (if ?ins then st'\<lparr>insert_ns := b_now k, inserted := True\<rparr> else st')"
    have v: "rs_dev v = request_device rq" "req_ok (b_now k) v" using s dev by (simp_all add: v_def)
    have d: "of_bool (inserted v) - of_bool (inserted st) = (of_bool ?ins :: int)" "issued v = issued st" using s by (auto simp: v_def)
    have eq: "trace_block_rq_insert cfg k rq m =
        (if \<not> request_tracking_enabled cfg \<or> \<not> blk_should_track cfg k (request_device rq) (request_operation rq) then m
         else if ?ins then adjust_depth cfg (request_device rq) 1 0 (b_now k) (set_request (rq_id rq) v m)
         else set_request (rq_id rq) v m)"
      using Some by (auto simp: trace_block_rq_insert_def Let_def v_def st'_def)
    have "fits (request_device rq) (of_bool ?ins) 0 (bm_depths m)"
      using block_inv_fits [OF inv N request_inv(2) [OF inv Some], of "request_device rq" "Some v"] Some dev v d by simp
    then have "shifted (request_device rq) (of_bool ?ins) 0 (bm_depths m)
        (bm_depths (if ?ins then adjust_depth cfg (request_device rq) 1 0 (b_now k) (set_request (rq_id rq) v m) else set_request (rq_id rq) v m))"
      using adjust_shifted [OF sat, of 1 0 "request_device rq" "set_request (rq_id rq) v m" "b_now k"] by (cases ?ins) auto
    then have "block_inv N (b_now k) (if ?ins then adjust_depth cfg (request_device rq) 1 0 (b_now k) (set_request (rq_id rq) v m) else set_request (rq_id rq) v m)"
      using Some dev v d request_inv(2) [OF inv Some, of "Some v"]
      by (intro block_inv_upd [OF inv t, where v = "Some v" and dev = "request_device rq" and i = "rq_id rq"]) (auto split: if_splits)
    then show ?thesis unfolding eq using same by simp
  qed
qed

lemma trace_merge_inv:
  assumes inv: "block_inv N t m" and ok: "step_ok N t (k, Merge rq) m"
  shows "block_inv N (b_now k) (trace_block_rq_merge cfg k rq m)"
proof -
  have t: "t \<le> b_now k" using ok by (simp add: step_ok_def less_imp_le)
  note same = block_inv_later [OF inv t]
  show ?thesis
  proof (cases "bm_requests m (rq_id rq)")
    case None
    then show ?thesis using same by (simp add: trace_block_rq_merge_def)
  next
    case (Some st)
    let ?v = "st\<lparr>rs_bytes := data_len rq, remaining_bytes := data_len rq\<rparr>"
    have "req_ok (b_now k) ?v" using request_inv(1) [OF same Some] by (auto simp: req_ok_def)
    then have "block_inv N (b_now k) (set_request (rq_id rq) ?v m)" using Some request_inv(2) [OF inv Some, of "Some ?v"]
      by (intro block_inv_upd [OF inv t, where v = "Some ?v" and dev = "rs_dev st" and i = "rq_id rq"]) auto
    then show ?thesis using Some same by (simp add: trace_block_rq_merge_def)
  qed
qed

lemma trace_issue_inv:
  assumes inv: "block_inv N t m" and N: "N < 2 ^ 32" and sat: "saturation_enabled cfg" and ok: "step_ok N t (k, Issue rq) m"
  shows "block_inv N (b_now k) (trace_block_rq_issue cfg k rq m)"
proof -
  have t: "t \<le> b_now k" using ok by (simp add: step_ok_def less_imp_le)
  note same = block_inv_later [OF inv t]
  show ?thesis
  proof (cases "bm_requests m (rq_id rq)")
    case (Some st)
    then show ?thesis using same issue_request_inv [OF inv N t sat Some] ok
      by (simp add: trace_block_rq_issue_def Let_def step_ok_def)
  next
    case None
    let ?c = "create_request cfg k rq (request_device rq) (request_partition rq) (request_operation rq) (b_now k) False m"
    obtain r m' where c: "?c = (r, m')" by fastforce
    have room: "b_request_insert k \<longrightarrow> card (dom (bm_requests m)) < N" using ok by (simp add: step_ok_def)
    note created = create_request_inv [OF inv N t sat None room c]
    have "block_inv N (b_now k) (issue_request cfg rq (request_device rq) (b_now k) st m')" if "r = Some st" for st
      using issue_request_inv [OF created(1) N order_refl sat] created(2) [OF that] by blast
    then show ?thesis using None same created(1) c by (auto simp: trace_block_rq_issue_def Let_def split: option.split)
  qed
qed

text \<open>Time spent in the device is added without overflow.\<close>

lemma served:
  assumes "req_ok t st" "issued st" "t < now"
  shows "issue_ns st < now" "unat (rs_first_seen st) + unat (rs_service_ns st + (now - issue_ns st)) \<le> unat now"
proof -
  have a: "unat (rs_first_seen st) + unat (rs_service_ns st) \<le> unat (issue_ns st)" "issue_ns st \<le> t" using assms by (simp_all add: req_ok_def)
  show lt: "issue_ns st < now" using a(2) assms(3) by (rule le_less_trans)
  have n: "unat (now - issue_ns st) = unat now - unat (issue_ns st)" using lt by (simp add: unat_sub less_imp_le)
  have "unat (rs_service_ns st) + (unat now - unat (issue_ns st)) \<le> unat now" using a(1) lt by (simp add: word_less_nat_alt)
  then have "unat (rs_service_ns st) + unat (now - issue_ns st) < 2 ^ LENGTH(64)" using n unat_lt [of now] by simp
  then have "unat (rs_service_ns st + (now - issue_ns st)) = unat (rs_service_ns st) + (unat now - unat (issue_ns st))"
    using n by (simp add: unat_word_ariths)
  then show "unat (rs_first_seen st) + unat (rs_service_ns st + (now - issue_ns st)) \<le> unat now"
    using a(1) lt by (simp add: word_less_nat_alt)
qed

lemma trace_requeue_inv:
  assumes inv: "block_inv N t m" and N: "N < 2 ^ 32" and sat: "saturation_enabled cfg" and ok: "step_ok N t (k, Requeue rq) m"
  shows "block_inv N (b_now k) (trace_block_rq_requeue cfg k rq m)"
proof -
  let ?now = "b_now k"
  have lt: "t < ?now" and t: "t \<le> ?now" using ok by (simp_all add: step_ok_def less_imp_le)
  note same = block_inv_later [OF inv t]
  define m1 where "m1 = (if blk_errors_enabled cfg then with_stats k (request_device rq) ?now (\<lambda>st. st\<lparr>dev_requeues := dev_requeues st + 1\<rparr>) m else m)"
  have m1: "bm_requests m1 = bm_requests m" "bm_depths m1 = bm_depths m" "bm_events m1 = bm_events m" by (simp_all add: m1_def)
  have same1: "block_inv N ?now m1" using same by (simp add: block_inv_def m1)
  show ?thesis
  proof (cases "bm_requests m (rq_id rq)")
    case None
    then show ?thesis using same same1 by (auto simp: trace_block_rq_requeue_def Let_def)
  next
    case (Some st)
    have req: "req_ok t st" using request_inv(1) [OF inv Some] .
    define st2 where "st2 = (if issued st then st\<lparr>rs_service_ns := rs_service_ns st + (?now - issue_ns st), issued := False, rs_requeues := rs_requeues st + 1\<rparr>
      else st\<lparr>rs_requeues := rs_requeues st + 1\<rparr>)"
    define attempt where "attempt = (if issued st then ?now - issue_ns st else 0)"
    define m2 where "m2 = (if issued st then adjust_depth cfg (rs_dev st) 0 (- 1) ?now m1 else m1)"
    define m3 where "m3 = emit_request_span cfg k (rq_id rq) st2 (issue_ns st2) ?now 0 attempt (?now - rs_first_seen st2) 0 False m2"
    have eq: "trace_block_rq_requeue cfg k rq m = (if \<not> blk_errors_enabled cfg \<and> \<not> request_tracking_enabled cfg then m
        else if \<not> blk_should_track cfg k (request_device rq) (request_operation rq) then m
        else if \<not> request_tracking_enabled cfg then m1 else set_request (rq_id rq) (st2\<lparr>issue_ns := 0\<rparr>) m3)"
      using Some served(1) [OF req _ lt]
      by (auto simp: trace_block_rq_requeue_def Let_def m1_def st2_def attempt_def m2_def m3_def)
    let ?v = "st2\<lparr>issue_ns := 0\<rparr>"
    have v: "rs_dev ?v = rs_dev st" "inserted ?v = inserted st" "\<not> issued ?v" using req by (simp_all add: st2_def)
    have "req_ok ?now ?v" using req served(2) [OF req _ lt] t by (auto simp: st2_def req_ok_def word_le_nat_alt)
    moreover have "fits (rs_dev st) 0 (- of_bool (issued st)) (bm_depths m)"
      using block_inv_fits [OF inv N request_inv(2) [OF inv Some], of "rs_dev st" "Some ?v"] Some v by simp
    then have "shifted (rs_dev st) 0 (- of_bool (issued st)) (bm_depths m) (bm_depths m2)"
      using adjust_shifted [OF sat, of 0 "- 1" "rs_dev st" m1 ?now] by (cases "issued st") (simp_all add: m2_def m1)
    moreover have "e \<in> set (bm_events m) \<or> event_ok e" if "e \<in> set (bm_events m3)" for e
      using that unfolding m3_def
    proof (cases rule: emit_span_events)
      case 1
      then show ?thesis by (simp add: m2_def m1 split: if_splits)
    next
      case 2
      then show ?thesis using req by (auto simp: event_ok_def attempt_def st2_def req_ok_def split: if_splits)
    qed
    ultimately have "block_inv N ?now (set_request (rq_id rq) ?v m3)"
      using Some v request_inv(2) [OF inv Some, of "Some ?v"]
      by (intro block_inv_upd [OF inv t, where v = "Some ?v" and dev = "rs_dev st" and i = "rq_id rq"])
        (auto simp: m3_def m2_def m1 split: if_splits)
    then show ?thesis unfolding eq using same same1 by simp
  qed
qed

lemma complete_request_inv:
  assumes inv: "block_inv N t m" and N: "N < 2 ^ 32" and sat: "saturation_enabled cfg" and lt: "t < now"
    and st: "bm_requests m rid = Some st"
  shows "block_inv N now (complete_request cfg k rid err now st m)"
proof -
  have t: "t \<le> now" using lt by simp
  have req: "req_ok t st" using request_inv(1) [OF inv st] .
  define st2 where "st2 = (if issued st then st\<lparr>rs_service_ns := rs_service_ns st + (now - issue_ns st), issued := False, inserted := False\<rparr>
    else st\<lparr>inserted := False\<rparr>)"
  define m1 where "m1 = (if issued st then adjust_depth cfg (rs_dev st) 0 (- 1) now m else m)"
  define m2 where "m2 = (if inserted st then adjust_depth cfg (rs_dev st) (- 1) 0 now m1 else m1)"
  define tt where "tt = (if rs_first_seen st2 < now then now - rs_first_seen st2 else 0)"
  define q where "q = (if rs_service_ns st2 < tt then tt - rs_service_ns st2 else 0)"
  define m3 where "m3 = record_completion cfg k (rs_dev st2) (rs_operation st2) q (rs_service_ns st2) tt now m2"
  define start where "start = (if issue_ns st2 \<noteq> 0 then issue_ns st2 else rs_first_seen st2)"
  define m4 where "m4 = emit_request_span cfg k rid st2 start now q (rs_service_ns st2) tt err True m3"
  have st2': "st2 = (if inserted (if issued st then st\<lparr>rs_service_ns := rs_service_ns st + (now - issue_ns st), issued := False\<rparr> else st)
      then (if issued st then st\<lparr>rs_service_ns := rs_service_ns st + (now - issue_ns st), issued := False\<rparr> else st)\<lparr>inserted := False\<rparr>
      else (if issued st then st\<lparr>rs_service_ns := rs_service_ns st + (now - issue_ns st), issued := False\<rparr> else st))"
    by (cases st) (simp add: st2_def)
  have eq: "complete_request cfg k rid err now st m = m4\<lparr>bm_requests := (bm_requests m4)(rid := None)\<rparr>"
    using served(1) [OF req _ lt]
    by (cases "issued st"; cases "inserted st")
      (simp_all add: complete_request_def Let_def m1_def m2_def m3_def m4_def tt_def q_def start_def st2')
  have sv: "unat (rs_first_seen st2) + unat (rs_service_ns st2) \<le> unat now"
    using req served(2) [OF req _ lt] t by (auto simp: st2_def req_ok_def word_le_nat_alt)
  have first: "rs_first_seen st2 = rs_first_seen st" "issue_ns st2 = issue_ns st" by (simp_all add: st2_def)
  have "unat (rs_first_seen st) \<le> unat t" using req by (auto simp: req_ok_def word_le_nat_alt split: if_splits)
  then have f: "rs_first_seen st2 < now" using lt by (simp add: first word_less_nat_alt)
  then have ttn: "tt = now - rs_first_seen st2" "unat tt = unat now - unat (rs_first_seen st2)" by (simp_all add: tt_def unat_sub less_imp_le)
  then have "rs_service_ns st2 \<le> tt" using sv by (simp add: word_le_nat_alt)
  then have qs: "unat q + unat (rs_service_ns st2) = unat tt" by (auto simp: q_def unat_sub word_le_nat_alt word_less_nat_alt)
  have "rs_first_seen st2 \<le> start" using req by (auto simp: start_def first req_ok_def word_le_nat_alt split: if_splits)
  then have span: "start < now \<Longrightarrow> now - start \<le> tt"
    unfolding ttn(1) word_le_nat_alt by (simp add: unat_sub f less_imp_le diff_le_mono2 word_le_nat_alt [symmetric])
  have "fits (rs_dev st) (- of_bool (inserted st)) (- of_bool (issued st)) (bm_depths m)"
    using block_inv_fits [OF inv N request_inv(2) [OF inv st], of "rs_dev st" None] st by simp
  then have fits: "fits (rs_dev st) (- of_bool (inserted st)) (- of_bool (issued st)) (bm_depths m)" "fits (rs_dev st) 0 (- of_bool (issued st)) (bm_depths m)"
    using fits_weaken by blast+
  have s1: "shifted (rs_dev st) 0 (- of_bool (issued st)) (bm_depths m) (bm_depths m1)"
    using fits(2) adjust_shifted [OF sat, of 0 "- 1" "rs_dev st" m now] by (cases "issued st") (simp_all add: m1_def)
  have "fits (rs_dev st) (- of_bool (inserted st)) 0 (bm_depths m1)" using fits_shifted [OF s1, of "- of_bool (inserted st)" 0] fits(1) by simp
  then have "shifted (rs_dev st) (- of_bool (inserted st)) 0 (bm_depths m1) (bm_depths m2)"
    using adjust_shifted [OF sat, of "- 1" 0 "rs_dev st" m1 now] by (cases "inserted st") (simp_all add: m2_def)
  from shifted_trans [OF s1 this] have s2: "shifted (rs_dev st) (- of_bool (inserted st)) (- of_bool (issued st)) (bm_depths m) (bm_depths m2)" by simp
  have m2: "bm_requests m2 = bm_requests m" "bm_events m2 = bm_events m" by (simp_all add: m2_def m1_def)
  have ev: "e \<in> set (bm_events m) \<or> event_ok e" if "e \<in> set (bm_events m4)" for e
    using that unfolding m4_def
  proof (cases rule: emit_span_events)
    case 1
    then show ?thesis by (simp add: m3_def m2)
  next
    case 2
    then show ?thesis using qs span by (simp add: event_ok_def)
  qed
  show ?thesis unfolding eq using st s2 ev request_inv(2) [OF inv st, of None]
    by (intro block_inv_upd [OF inv t, where v = None and dev = "rs_dev st" and i = rid]) (auto simp: m4_def m3_def m2)
qed

lemma trace_complete_inv:
  assumes inv: "block_inv N t m" and N: "N < 2 ^ 32" and sat: "saturation_enabled cfg" and ok: "step_ok N t (k, Complete rq err n) m"
  shows "block_inv N (b_now k) (trace_block_rq_complete cfg k rq err n m)"
proof -
  have lt: "t < b_now k" and t: "t \<le> b_now k" using ok by (simp_all add: step_ok_def less_imp_le)
  note same = block_inv_later [OF inv t]
  let ?m1 = "record_bytes cfg k (request_device rq) (request_operation rq) n err (b_now k) m"
  have inv1: "block_inv N t ?m1" using inv by simp
  show ?thesis
  proof (cases "bm_requests m (rq_id rq)")
    case None
    then show ?thesis using same by (simp add: trace_block_rq_complete_def Let_def)
  next
    case (Some st)
    then have some: "bm_requests ?m1 (rq_id rq) = Some st" by simp
    let ?v = "st\<lparr>remaining_bytes := remaining_bytes st - n\<rparr>"
    have "req_ok (b_now k) ?v" using request_inv(1) [OF same Some] by (auto simp: req_ok_def)
    then have "block_inv N (b_now k) (set_request (rq_id rq) ?v ?m1)" using some request_inv(2) [OF inv1 some, of "Some ?v"]
      by (intro block_inv_upd [OF inv1 t, where v = "Some ?v" and dev = "rs_dev st" and i = "rq_id rq"]) auto
    then show ?thesis using Some same complete_request_inv [OF inv1 N sat lt some] by (auto simp: trace_block_rq_complete_def Let_def)
  qed
qed

lemma block_run_inv:
  "block_inv N t m \<Longrightarrow> N < 2 ^ 32 \<Longrightarrow> saturation_enabled cfg \<Longrightarrow> run_ok cfg N t xs m \<Longrightarrow> \<exists>t'. block_inv N t' (fold (block_step cfg) xs m)"
proof (induction xs arbitrary: t m)
  case (Cons x xs)
  obtain k ev where x: "x = (k, ev)" by fastforce
  have "block_inv N (b_now k) (block_step cfg x m)"
    using Cons.prems trace_insert_inv trace_merge_inv trace_issue_inv trace_requeue_inv trace_complete_inv
    by (cases ev) (simp_all add: x block_step_def)
  then show ?case using Cons by (simp add: x)
qed auto

section \<open>Properties\<close>

definition fresh_maps :: "depth_map \<Rightarrow> block_maps" where
  "fresh_maps D = \<lparr>bm_stats = Map.empty, bm_depths = D, bm_requests = Map.empty, bm_events = []\<rparr>"

lemma fresh_inv:
  assumes "\<forall>dev d. D dev = Some d \<longrightarrow> inflight d = 0 \<and> queued d = 0"
  shows "block_inv N t (fresh_maps D)"
  using assms by (auto simp: block_inv_def fresh_maps_def counts_def num_def)

text \<open>
  C34: The queue depth of a device is exact: after any sequence of insertions, merges, issues, requeues
  and completions, whatever the filters, the failing insertions and the full ring buffers, the number of
  requests in flight and the number of queued requests of a device are the numbers of its followed
  requests that are issued and inserted.  The hypotheses are that depths start at zero, that the clock
  advances between steps, that the table of requests is bounded and that a request stays on its device.
\<close>

theorem block_depth_exact:
  assumes "run_ok cfg N t xs (fresh_maps D)" "\<forall>dev d. D dev = Some d \<longrightarrow> inflight d = 0 \<and> queued d = 0"
    and "N < 2 ^ 32" "saturation_enabled cfg"
    and "m = fold (block_step cfg) xs (fresh_maps D)" "bm_depths m dev = Some d"
  shows "unat (inflight d) = card {i. \<exists>st. bm_requests m i = Some st \<and> rs_dev st = dev \<and> issued st} \<and>
    unat (queued d) = card {i. \<exists>st. bm_requests m i = Some st \<and> rs_dev st = dev \<and> inserted st}"
proof -
  obtain t' where "block_inv N t' m" using block_run_inv [OF fresh_inv [OF assms(2)] assms(3,4,1)] assms(5) by blast
  then have "uint (inflight d) = int (num (\<lambda>s. rs_dev s = dev \<and> issued s) (bm_requests m)) \<and>
      uint (queued d) = int (num (\<lambda>s. rs_dev s = dev \<and> inserted s) (bm_requests m))"
    using assms(6) by (simp add: block_inv_def counts_def)
  then show ?thesis by (simp add: num_def unat_eq_nat_uint)
qed

definition example_rq :: request where
  "example_rq = \<lparr>rq_id = 5, rq_disk = Some (Some 8), rq_part = None, cmd_flags = 1, data_len = 4096, rq_sector = 64\<rparr>"

definition example_block_cfg :: block_cfg where
  "example_block_cfg = \<lparr>operation_mask = 3, timeline_sample_every = 1, timeline_min_latency_ns = 0, blk_bytes_enabled = False,
    blk_operations_enabled = False, latency_enabled = False, saturation_enabled = True, blk_errors_enabled = False, timeline_enabled = True,
    blk_filter_enabled = False, request_tracking_enabled = True\<rparr>"

definition at_time :: "u64 \<Rightarrow> bool \<Rightarrow> benv" where
  "at_time now room = \<lparr>b_now = now, b_tracked = (\<lambda>_. False), b_stats_insert = True, b_request_insert = room, b_pid_tgid = 0, b_comm = [],
    b_prandom = 0, b_reserve = True\<rparr>"

definition example_depths :: depth_map where
  "example_depths = [8 \<mapsto> \<lparr>depth_first_seen = 1, last_update_ns = 1, busy_ns = 0, saturated_ns = 0, inflight_ns = 0, queued_ns = 0,
    inflight = 0, queued = 0, max_inflight = 0, max_queued = 0\<rparr>]"

definition example_events :: "(benv \<times> block_event) list" where
  "example_events = [(at_time 10 True, Insert example_rq), (at_time 20 False, Issue example_rq)]"

lemma example_depths_zero: "\<forall>dev d. example_depths dev = Some d \<longrightarrow> inflight d = 0 \<and> queued d = 0"
  by (auto simp: example_depths_def split: if_splits)

lemma step_ok_noroom:
  "step_ok N t (at_time now False, ev) m \<longleftrightarrow> t < now \<and>
    (case bm_requests m (rq_id (event_request ev)) of None \<Rightarrow> True | Some st \<Rightarrow> rs_dev st = request_device (event_request ev))"
  by (simp add: step_ok_def at_time_def)

lemma step_ok_first:
  "0 < N \<Longrightarrow> t < now \<Longrightarrow> step_ok N t (at_time now True, ev) (fresh_maps D)"
  by (simp add: step_ok_def at_time_def fresh_maps_def)

theorem block_depth_exact_witness:
  "\<exists>d. bm_depths (fold (block_step example_block_cfg) example_events (fresh_maps example_depths)) 8 = Some d \<and> inflight d = 1 \<and>
    card {i. \<exists>st. bm_requests (fold (block_step example_block_cfg) example_events (fresh_maps example_depths)) i = Some st \<and> rs_dev st = 8 \<and> issued st} = 1"
proof -
  let ?m = "fold (block_step example_block_cfg) example_events (fresh_maps example_depths)"
  have run: "run_ok example_block_cfg 1 0 example_events (fresh_maps example_depths)"
    unfolding example_events_def run_ok.simps step_ok_noroom
    by (intro conjI step_ok_first) (code_simp | simp add: at_time_def)+
  have "case bm_depths ?m 8 of None \<Rightarrow> False | Some d \<Rightarrow> inflight d = 1" by code_simp
  then obtain d where d: "bm_depths ?m 8 = Some d" "inflight d = 1" by (auto split: option.splits)
  have "saturation_enabled example_block_cfg" by (simp add: example_block_cfg_def)
  from block_depth_exact [OF run example_depths_zero _ this refl d(1)] show ?thesis using d by (auto simp del: One_nat_def)
qed

text \<open>
  C35: The times of a request add up: under the same hypotheses every reported span ends after it starts,
  for a completed request the time in the queue and the time in the device are together the whole time
  since it was first seen and the span lies within it, and for a requeued request that was issued the
  time in the device is the length of the span.
\<close>

theorem block_spans_add_up:
  assumes "run_ok cfg N t xs (fresh_maps D)" "\<forall>dev d. D dev = Some d \<longrightarrow> inflight d = 0 \<and> queued d = 0"
    and "N < 2 ^ 32" "saturation_enabled cfg"
    and "e \<in> set (bm_events (fold (block_step cfg) xs (fresh_maps D)))"
  shows "start_ns e < end_ns e \<and>
    (ev_completed e \<longrightarrow> unat (ev_queue_ns e) + unat (ev_service_ns e) = unat (ev_total_ns e) \<and> end_ns e - start_ns e \<le> ev_total_ns e) \<and>
    (\<not> ev_completed e \<longrightarrow> start_ns e \<noteq> 0 \<longrightarrow> ev_service_ns e = end_ns e - start_ns e)"
  using block_run_inv [OF fresh_inv [OF assms(2)] assms(3,4,1)] assms(5) by (auto simp: block_inv_def event_ok_def)

definition example_life :: "(benv \<times> block_event) list" where
  "example_life = [(at_time 10 True, Insert example_rq), (at_time 20 False, Issue example_rq), (at_time 50 False, Complete example_rq 0 4096)]"

theorem block_spans_add_up_witness:
  "\<exists>e. bm_events (fold (block_step example_block_cfg) example_life (fresh_maps example_depths)) = [e] \<and> ev_queue_ns e = 10 \<and> ev_service_ns e = 30 \<and>
    unat (ev_queue_ns e) + unat (ev_service_ns e) = unat (ev_total_ns e)"
proof -
  let ?m = "fold (block_step example_block_cfg) example_life (fresh_maps example_depths)"
  have run: "run_ok example_block_cfg 1 0 example_life (fresh_maps example_depths)"
    unfolding example_life_def run_ok.simps step_ok_noroom
    by (intro conjI step_ok_first) (code_simp | simp add: at_time_def)+
  have "case bm_events ?m of [e] \<Rightarrow> ev_queue_ns e = 10 \<and> ev_service_ns e = 30 \<and> ev_completed e | _ \<Rightarrow> False" by code_simp
  then obtain e where e: "bm_events ?m = [e]" "ev_queue_ns e = 10" "ev_service_ns e = 30" "ev_completed e" by (auto split: list.splits)
  have sat: "saturation_enabled example_block_cfg" by (simp add: example_block_cfg_def)
  have "e \<in> set (bm_events ?m)" by (simp only: e(1)) simp
  from block_spans_add_up [OF run example_depths_zero _ sat this] show ?thesis using e by auto
qed

text \<open>
  C39: A request that completes at the very time of its issue leaks a request in flight: the program
  forgets the request but, since the clock did not advance, leaves the depth of its device as it was.
\<close>

theorem block_equal_time_leak:
  assumes "bm_requests m (rq_id rq) = Some st" "issued st" "\<not> inserted st" "issue_ns st = b_now k" "request_tracking_enabled cfg"
    and "blk_should_track cfg k (request_device rq) (request_operation rq)" "err \<noteq> 0 \<or> remaining_bytes st \<le> n"
  shows "bm_requests (trace_block_rq_complete cfg k rq err n m) (rq_id rq) = None \<and> bm_depths (trace_block_rq_complete cfg k rq err n m) = bm_depths m"
  using assms by (auto simp: trace_block_rq_complete_def complete_request_def Let_def)

theorem block_equal_time_leak_witness:
  "let m = trace_block_rq_complete example_block_cfg (at_time 20 False) example_rq 0 4096 (fold (block_step example_block_cfg) example_events (fresh_maps example_depths))
   in bm_requests m 5 = None \<and> map_option inflight (bm_depths m 8) = Some 1"
proof -
  let ?m = "fold (block_step example_block_cfg) example_events (fresh_maps example_depths)"
  have "case bm_requests ?m (rq_id example_rq) of None \<Rightarrow> False | Some st \<Rightarrow> issued st \<and> \<not> inserted st \<and> issue_ns st = b_now (at_time 20 False) \<and> remaining_bytes st \<le> 4096"
    by code_simp
  then obtain st where st: "bm_requests ?m (rq_id example_rq) = Some st" "issued st" "\<not> inserted st" "issue_ns st = b_now (at_time 20 False)" "remaining_bytes st \<le> 4096"
    by (auto split: option.splits)
  have c: "request_tracking_enabled example_block_cfg" "blk_should_track example_block_cfg (at_time 20 False) (request_device example_rq) (request_operation example_rq)"
    by code_simp+
  have "map_option inflight (bm_depths ?m 8) = Some 1" by code_simp
  moreover have "rq_id example_rq = 5" by code_simp
  ultimately show ?thesis using block_equal_time_leak [OF st(1-4) c disjI2 [OF st(5)], of 0] by (simp add: Let_def)
qed

text \<open>
  C40: A request that is requeued before it was issued is reported with a span that starts at time zero:
  the span runs from the time of an issue that never happened, for as long as the machine is up.
\<close>

theorem block_requeue_from_zero:
  assumes "bm_requests m (rq_id rq) = Some st" "\<not> issued st" "issue_ns st = 0" "request_tracking_enabled cfg"
    and "blk_should_track cfg k (request_device rq) (request_operation rq)" "timeline_enabled cfg" "b_reserve k" "timeline_sample_every cfg \<le> 1"
    and "timeline_min_latency_ns cfg \<le> b_now k - rs_first_seen st" "0 < b_now k"
  shows "\<exists>e. bm_events (trace_block_rq_requeue cfg k rq m) = bm_events m @ [e] \<and> start_ns e = 0 \<and> end_ns e = b_now k \<and> ev_service_ns e = 0"
  using assms by (auto simp: trace_block_rq_requeue_def emit_request_span_def Let_def not_le not_less)

theorem block_requeue_from_zero_witness:
  "\<exists>e. bm_events (trace_block_rq_requeue example_block_cfg (at_time 30 False) example_rq
      (block_step example_block_cfg (at_time 10 True, Insert example_rq) (fresh_maps example_depths))) = [e] \<and> start_ns e = 0 \<and> end_ns e = 30"
proof -
  let ?m = "block_step example_block_cfg (at_time 10 True, Insert example_rq) (fresh_maps example_depths)"
  have "case bm_requests ?m (rq_id example_rq) of None \<Rightarrow> False | Some st \<Rightarrow> \<not> issued st \<and> issue_ns st = 0 \<and> rs_first_seen st = 10" by code_simp
  then obtain st where st: "bm_requests ?m (rq_id example_rq) = Some st" "\<not> issued st" "issue_ns st = 0" "rs_first_seen st = 10"
    by (auto split: option.splits)
  have c: "request_tracking_enabled example_block_cfg" "blk_should_track example_block_cfg (at_time 30 False) (request_device example_rq) (request_operation example_rq)"
      "timeline_enabled example_block_cfg" "b_reserve (at_time 30 False)" "timeline_sample_every example_block_cfg \<le> 1" "0 < b_now (at_time 30 False)"
    by code_simp+
  have "timeline_min_latency_ns example_block_cfg \<le> b_now (at_time 30 False) - rs_first_seen st" unfolding st by code_simp
  moreover have "bm_events ?m = []" "b_now (at_time 30 False) = 30" by code_simp+
  ultimately show ?thesis using block_requeue_from_zero [OF st(1-3) c(1-5) _ c(6)] by (metis append_Nil)
qed

end
