(* ===== verification/BlockTrack.thy ===== *)
theory BlockTrack
  imports BlockDevice BlockKernel Floats
begin

text \<open>
  Block I/O tracking in user space (bpf/src/blocktrack.rs): at fixed intervals the statistics and the
  queue depths of the devices are read and sent as counters, and the reported requests are sent as spans
  on the tracks of their devices.

  The tables of the kernel are read through \<open>block_reader\<close>, whose readings may fail; the bytes of an
  entry are the record the kernel wrote.  The ring buffer is the argument \<open>ring\<close>, which gives the
  records to a handler.  Hash maps and sets are lists in their iteration order.
\<close>

section \<open>Definitions\<close>

subsection \<open>Configuration\<close>

datatype BlockOperation = Block_Read | Block_Write | Block_Flush | Block_Discard | Block_Other

primrec block_index :: "BlockOperation \<Rightarrow> nat" where
  "block_index Block_Read = 0"
| "block_index Block_Write = 1"
| "block_index Block_Flush = 2"
| "block_index Block_Discard = 3"
| "block_index Block_Other = 4"

definition block_from_index :: "u8 \<Rightarrow> BlockOperation option" where
  "block_from_index i =
    (if i = 0 then Some Block_Read else if i = 1 then Some Block_Write else if i = 2 then Some Block_Flush
     else if i = 3 then Some Block_Discard else if i = 4 then Some Block_Other else None)"

primrec block_name :: "BlockOperation \<Rightarrow> string" where
  "block_name Block_Read = ''read''"
| "block_name Block_Write = ''write''"
| "block_name Block_Flush = ''flush''"
| "block_name Block_Discard = ''discard''"
| "block_name Block_Other = ''other''"

datatype BlockMetric = Metric_Throughput | Metric_Iops | Metric_Latency | Metric_Saturation | Metric_Errors

definition MIN_RINGBUF_SIZE :: usize where "MIN_RINGBUF_SIZE = 4096"

record BlockIoConfig =
  bio_frequency :: u64
  bio_operations :: "BlockOperation list"
  bio_metrics :: "BlockMetric list"
  bio_devices :: "string list"
  bio_max_devices :: u32
  bio_max_requests :: u32
  bio_timeline :: bool
  bio_sample_every :: u32
  bio_min_latency_us :: u64
  bio_ringbuf :: usize

definition bio_default_frequency :: u64 where "bio_default_frequency = 9"
definition bio_default_operations :: "BlockOperation list" where "bio_default_operations = [Block_Read, Block_Write]"
definition bio_default_metrics :: "BlockMetric list" where
  "bio_default_metrics = [Metric_Throughput, Metric_Iops, Metric_Latency, Metric_Saturation, Metric_Errors]"
definition default_max_devices :: u32 where "default_max_devices = 64"
definition default_max_requests :: u32 where "default_max_requests = 32768"
definition bio_default_ringbuf :: usize where "bio_default_ringbuf = 8 * 1024 * 1024"
definition default_timeline_sample_every :: u32 where "default_timeline_sample_every = 1"

definition BlockIoConfig_default :: BlockIoConfig where
  "BlockIoConfig_default = \<lparr>bio_frequency = bio_default_frequency, bio_operations = bio_default_operations, bio_metrics = bio_default_metrics,
    bio_devices = [], bio_max_devices = default_max_devices, bio_max_requests = default_max_requests, bio_timeline = False,
    bio_sample_every = default_timeline_sample_every, bio_min_latency_us = 0, bio_ringbuf = bio_default_ringbuf\<rparr>"

definition bio_has_metric :: "BlockIoConfig \<Rightarrow> BlockMetric \<Rightarrow> bool" where
  "bio_has_metric cfg metric = (metric \<in> set (bio_metrics cfg))"

definition bio_operation_mask :: "BlockIoConfig \<Rightarrow> u32" where
  "bio_operation_mask cfg = fold (\<lambda>operation mask. mask OR push_bit (block_index operation) 1) (bio_operations cfg) 0"

definition bio_validate :: "BlockIoConfig \<Rightarrow> (BpfError, unit) result" where
  "bio_validate cfg =
    (if bio_frequency cfg = 0 then Err (LoadError ''block_io frequency must be greater than zero'')
     else if bio_operations cfg = [] \<or> bio_metrics cfg = [] then Err (LoadError ''block_io operations and metrics must not be empty'')
     else if bio_max_devices cfg = 0 \<or> bio_max_requests cfg = 0 then Err (LoadError ''block_io map limits must be greater than zero'')
     else if bio_sample_every cfg = 0 then Err (LoadError ''block_io timeline_sample_every must be greater than zero'')
     else if bio_timeline cfg \<and> (bio_ringbuf cfg < MIN_RINGBUF_SIZE \<or> 4294967295 < bio_ringbuf cfg \<or> \<not> is_power_of_two (bio_ringbuf cfg)) then
       Err (LoadError ''block_io ringbuf must be a power of two between 4096 and 4294967295 bytes'')
     else Ok ())"

subsection \<open>Differences\<close>

definition sub_each :: "u64 list \<Rightarrow> u64 list \<Rightarrow> u64 list" where
  "sub_each xs ys = map (\<lambda>i. saturating_sub (xs ! i) (ys ! i)) [0..<HISTOGRAM_BUCKETS]"

definition op_delta :: "operation_stats \<Rightarrow> operation_stats \<Rightarrow> operation_stats" where
  "op_delta st previous = \<lparr>op_bytes = saturating_sub (op_bytes st) (op_bytes previous),
    op_operations = saturating_sub (op_operations st) (op_operations previous), op_errors = saturating_sub (op_errors st) (op_errors previous),
    queue_latency_ns = saturating_sub (queue_latency_ns st) (queue_latency_ns previous),
    service_latency_ns = saturating_sub (service_latency_ns st) (service_latency_ns previous),
    total_latency_ns = saturating_sub (total_latency_ns st) (total_latency_ns previous),
    service_histogram = sub_each (service_histogram st) (service_histogram previous),
    total_histogram = sub_each (total_histogram st) (total_histogram previous)\<rparr>"

definition dev_delta :: "device_stats \<Rightarrow> device_stats option \<Rightarrow> device_stats" where
  "dev_delta st prev =
    (case prev of
       None \<Rightarrow> st
     | Some previous \<Rightarrow>
         if dev_first_seen previous \<noteq> dev_first_seen st then st
         else \<lparr>dev_operations = map (\<lambda>i. op_delta (dev_operations st ! i) (dev_operations previous ! i)) [0..<BLOCK_OP_COUNT],
           dev_requeues = saturating_sub (dev_requeues st) (dev_requeues previous),
           lost_requests = saturating_sub (lost_requests st) (lost_requests previous),
           timeline_drops = saturating_sub (timeline_drops st) (timeline_drops previous),
           dev_first_seen = dev_first_seen st, dev_last_seen = dev_last_seen st\<rparr>)"

record DepthSnapshot =
  sn_first_seen :: u64
  sn_busy_ns :: u64
  sn_saturated_ns :: u64
  sn_inflight_ns :: u64
  sn_queued_ns :: u64
  sn_inflight :: u32
  sn_queued :: u32
  sn_max_inflight :: u32
  sn_max_queued :: u32

definition saturating_mul :: "u64 \<Rightarrow> u64 \<Rightarrow> u64" where
  "saturating_mul a b = (if uint a * uint b < 2 ^ 64 then a * b else - 1)"

definition snapshot :: "device_depth \<Rightarrow> u64 \<Rightarrow> DepthSnapshot" where
  "snapshot d now =
    (let elapsed = saturating_sub now (last_update_ns d) in
     \<lparr>sn_first_seen = depth_first_seen d, sn_busy_ns = saturating_add (busy_ns d) (if 0 < inflight d then elapsed else 0),
      sn_saturated_ns = saturating_add (saturated_ns d) (if 0 < queued d then elapsed else 0),
      sn_inflight_ns = saturating_add (inflight_ns d) (saturating_mul elapsed (ucast (inflight d))),
      sn_queued_ns = saturating_add (queued_ns d) (saturating_mul elapsed (ucast (queued d))),
      sn_inflight = inflight d, sn_queued = queued d, sn_max_inflight = max_inflight d, sn_max_queued = max_queued d\<rparr>)"

definition depth_delta :: "DepthSnapshot \<Rightarrow> DepthSnapshot option \<Rightarrow> DepthSnapshot" where
  "depth_delta sn prev =
    (case prev of
       None \<Rightarrow> sn
     | Some previous \<Rightarrow>
         if sn_first_seen previous \<noteq> sn_first_seen sn then sn
         else sn\<lparr>sn_busy_ns := saturating_sub (sn_busy_ns sn) (sn_busy_ns previous),
           sn_saturated_ns := saturating_sub (sn_saturated_ns sn) (sn_saturated_ns previous),
           sn_inflight_ns := saturating_sub (sn_inflight_ns sn) (sn_inflight_ns previous),
           sn_queued_ns := saturating_sub (sn_queued_ns sn) (sn_queued_ns previous)\<rparr>)"

subsection \<open>Counters\<close>

datatype BlockCounterKind = Throughput | Iops | QueueAverage | ServiceAverage | TotalAverage | ServiceP50 | ServiceP95 | ServiceP99
  | TotalP50 | TotalP95 | TotalP99 | OpErrors | BusyPercent | SaturatedPercent | AverageInflight | AverageQueued | Inflight | Queued
  | MaxInflight | MaxQueued | Requeues | LostRequests | TimelineDrops

record BlockSeriesKey =
  bsk_dev :: u32
  bsk_operation :: "BlockOperation option"
  bsk_kind :: BlockCounterKind

record BlockSample =
  bs_operation :: "BlockOperation option"
  bs_kind :: BlockCounterKind
  bs_name :: string
  bs_value :: f64
  bs_unit :: string

definition counter_sample :: "BlockOperation option \<Rightarrow> BlockCounterKind \<Rightarrow> string \<Rightarrow> f64 \<Rightarrow> string \<Rightarrow> BlockSample" where
  "counter_sample operation kind name value unit =
    \<lparr>bs_operation = operation, bs_kind = kind, bs_name = name, bs_value = value, bs_unit = unit\<rparr>"

text \<open>\<open>ceil() as u64\<close> of a finite number that is not negative.\<close>

definition f64_ceil_u64 :: "f64 \<Rightarrow> u64" where
  "f64_ceil_u64 x = (case f64_ratio x of (a, b) \<Rightarrow> word_of_int (min (2 ^ 64 - 1) ((a + b - 1) div b)))"

primrec percentile_loop :: "u64 list \<Rightarrow> nat \<Rightarrow> u64 \<Rightarrow> u64 \<Rightarrow> f64" where
  "percentile_loop [] bucket cumulative target = f64_of_u64 (2 ^ 32)"
| "percentile_loop (n # ns) bucket cumulative target =
    (let cumulative = cumulative + n in
     if target \<le> cumulative then (if bucket = 0 then f64_of_u64 1 else f64_of_u64 (2 ^ min (bucket + 1) 32))
     else percentile_loop ns (bucket + 1) cumulative target)"

definition percentile_target :: "u64 list \<Rightarrow> f64 \<Rightarrow> u64" where
  "percentile_target histogram quantile = f64_ceil_u64 (f64_mul (f64_of_u64 (sum_list histogram)) quantile)"

definition histogram_percentile :: "u64 list \<Rightarrow> f64 \<Rightarrow> f64" where
  "histogram_percentile histogram quantile =
    (if sum_list histogram = 0 then 0 else percentile_loop histogram 0 0 (percentile_target histogram quantile))"

definition q50 :: f64 where "q50 = 0x3fe0000000000000"
definition q95 :: f64 where "q95 = 0x3fee666666666666"
definition q99 :: f64 where "q99 = 0x3fefae147ae147ae"
definition thousand :: f64 where "thousand = 0x408f400000000000"
definition hundred :: f64 where "hundred = 0x4059000000000000"

definition latency_samples :: "BlockOperation \<Rightarrow> operation_stats \<Rightarrow> BlockSample list" where
  "latency_samples operation st =
    (let operations = f64_of_u64 (max (op_operations st) 1);
         average = (\<lambda>ns. f64_div (f64_div (f64_of_u64 ns) operations) thousand) in
     map (\<lambda>(kind, suffix, value). counter_sample (Some operation) kind (block_name operation @ ''_'' @ suffix) value ''us'')
       [(QueueAverage, ''queue_latency_avg'', average (queue_latency_ns st)),
        (ServiceAverage, ''service_latency_avg'', average (service_latency_ns st)),
        (TotalAverage, ''total_latency_avg'', average (total_latency_ns st)),
        (ServiceP50, ''service_latency_p50'', histogram_percentile (service_histogram st) q50),
        (ServiceP95, ''service_latency_p95'', histogram_percentile (service_histogram st) q95),
        (ServiceP99, ''service_latency_p99'', histogram_percentile (service_histogram st) q99),
        (TotalP50, ''total_latency_p50'', histogram_percentile (total_histogram st) q50),
        (TotalP95, ''total_latency_p95'', histogram_percentile (total_histogram st) q95),
        (TotalP99, ''total_latency_p99'', histogram_percentile (total_histogram st) q99)])"

definition operation_samples :: "BlockIoConfig \<Rightarrow> BlockOperation \<Rightarrow> operation_stats \<Rightarrow> f64 \<Rightarrow> BlockSample list" where
  "operation_samples cfg operation st secs =
    (let prefix = block_name operation in
     (if bio_has_metric cfg Metric_Throughput then
        [counter_sample (Some operation) Throughput (prefix @ ''_throughput'') (f64_div (f64_of_u64 (op_bytes st)) secs) ''bytes/s''] else []) @
     (if bio_has_metric cfg Metric_Iops then
        [counter_sample (Some operation) Iops (prefix @ ''_iops'') (f64_div (f64_of_u64 (op_operations st)) secs) ''operations/s''] else []) @
     (if bio_has_metric cfg Metric_Latency then latency_samples operation st else []) @
     (if bio_has_metric cfg Metric_Errors then
        [counter_sample (Some operation) OpErrors (prefix @ ''_errors'') (f64_of_u64 (op_errors st)) ''count''] else []))"

text \<open>\<open>clamp(0.0, 100.0)\<close> of a number that is not negative: the order of the numbers is that of the patterns.\<close>

definition percent_of :: "u64 \<Rightarrow> f64 \<Rightarrow> f64" where
  "percent_of ns elapsed = min (f64_div (f64_mul (f64_of_u64 ns) hundred) elapsed) hundred"

definition depth_samples :: "DepthSnapshot \<Rightarrow> u64 \<Rightarrow> BlockSample list" where
  "depth_samples depth elapsed_ns =
    (let elapsed = f64_of_u64 (max elapsed_ns 1); requests = (\<lambda>n. f64_of_u64 (ucast (n :: u32))) in
     [counter_sample None BusyPercent ''busy_percent'' (percent_of (sn_busy_ns depth) elapsed) ''percent'',
      counter_sample None SaturatedPercent ''saturated_percent'' (percent_of (sn_saturated_ns depth) elapsed) ''percent'',
      counter_sample None AverageInflight ''average_inflight'' (f64_div (f64_of_u64 (sn_inflight_ns depth)) elapsed) ''requests'',
      counter_sample None AverageQueued ''average_queued'' (f64_div (f64_of_u64 (sn_queued_ns depth)) elapsed) ''requests'',
      counter_sample None Inflight ''inflight'' (requests (sn_inflight depth)) ''requests'',
      counter_sample None Queued ''queued'' (requests (sn_queued depth)) ''requests'',
      counter_sample None MaxInflight ''max_inflight'' (requests (sn_max_inflight depth)) ''requests'',
      counter_sample None MaxQueued ''max_queued'' (requests (sn_max_queued depth)) ''requests''])"

subsection \<open>The state and the messages\<close>

record 'c BlockIo =
  bio_ring :: bool
  bio_registry :: DeviceRegistry
  bio_config :: BlockIoConfig
  bio_last_sample :: u64
  previous_stats :: "(u32 \<times> device_stats) list"
  previous_depth :: "(u32 \<times> DepthSnapshot) list"
  bio_series :: "(BlockSeriesKey \<times> u64) list"
  bio_drawn :: nat
  bio_callback :: 'c

definition bio_emit :: "'c callback \<Rightarrow> Message \<Rightarrow> ('c BlockIo, i32, unit) stm" where
  "bio_emit callback msg = on_field bio_callback (\<lambda>c u. u\<lparr>bio_callback := c\<rparr>) (emit callback msg)"

definition bio_info :: "fs \<Rightarrow> u32 \<Rightarrow> ('c BlockIo, 'e, DeviceInfo) stm" where
  "bio_info F dev u = (case registry_info F dev (bio_registry u) of (info, reg) \<Rightarrow> (Ok info, u\<lparr>bio_registry := reg\<rparr>))"

definition draw :: "(nat \<Rightarrow> u64) \<Rightarrow> ('c BlockIo, 'e, u64) stm" where
  "draw rng u = (Ok (rng (bio_drawn u)), u\<lparr>bio_drawn := bio_drawn u + 1\<rparr>)"

definition ensure_track :: "(nat \<Rightarrow> u64) \<Rightarrow> fs \<Rightarrow> 'c callback \<Rightarrow> u32 \<Rightarrow> ('c BlockIo, i32, u64) stm" where
  "ensure_track rng F callback dev u =
    (case hm_get (registry_track_ids (bio_registry u)) dev of
       Some i \<Rightarrow> (Ok i, u)
     | None \<Rightarrow>
         try_bind (draw rng) (\<lambda>i.
         try_bind (bio_info F dev) (\<lambda>info.
         try_bind (bio_emit callback (Message_Event (Event_Track \<lparr>track_name = device_track_name info, track_type = TrackType_Custom i,
           track_parent = None\<rparr>))) (\<lambda>_.
         try_bind (modify (\<lambda>u. u\<lparr>bio_registry := (bio_registry u)\<lparr>registry_track_ids := hm_insert dev i (registry_track_ids (bio_registry u))\<rparr>\<rparr>)) (\<lambda>_.
         ret i)))) u)"

definition bio_series_id :: "(nat \<Rightarrow> u64) \<Rightarrow> BlockSeriesKey \<Rightarrow> ('c BlockIo, i32, u64 \<times> bool) stm" where
  "bio_series_id rng key u =
    (case hm_get (bio_series u) key of
       Some i \<Rightarrow> (Ok (i, False), u)
     | None \<Rightarrow> (Ok (rng (bio_drawn u), True), u\<lparr>bio_series := hm_insert key (rng (bio_drawn u)) (bio_series u), bio_drawn := bio_drawn u + 1\<rparr>))"

definition emit_counter :: "(nat \<Rightarrow> u64) \<Rightarrow> fs \<Rightarrow> 'c callback \<Rightarrow> u32 \<Rightarrow> u64 \<Rightarrow> BlockSample \<Rightarrow> ('c BlockIo, i32, unit) stm" where
  "emit_counter rng F callback dev timestamp sample =
    try_bind (ensure_track rng F callback dev) (\<lambda>device_track.
    try_bind (bio_series_id rng \<lparr>bsk_dev = dev, bsk_operation = bs_operation sample, bsk_kind = bs_kind sample\<rparr>) (\<lambda>(i, new_track).
    try_bind
      (if new_track then
         bio_emit callback (Message_Event (Event_Track \<lparr>track_name = bs_name sample, track_type = TrackType_Counter i (Some (bs_unit sample)),
           track_parent = Some (TrackType_Custom device_track)\<rparr>))
       else ret ()) (\<lambda>_.
    bio_emit callback (Message_Event (Event_Counter \<lparr>counter_name = bs_name sample, counter_value = bs_value sample,
      counter_timestamp = timestamp, counter_track_id = TrackId_Counter i, counter_labels = Labels_new, counter_unit = Some (bs_unit sample)\<rparr>)))))"

subsection \<open>Spans\<close>

text \<open>The next character of a byte string: its length, or the length of the ill-formed part that is replaced.\<close>

definition cont :: "u8 \<Rightarrow> bool" where
  "cont b = (0x80 \<le> b \<and> b \<le> 0xBF)"

definition utf8_next :: "u8 list \<Rightarrow> nat + nat" where
  "utf8_next bs =
    (let a = bs ! 0; has = (\<lambda>i P. i < length bs \<and> P (bs ! i));
         second = (\<lambda>b. (if a = 0xE0 then 0xA0 \<le> b \<and> b \<le> 0xBF else if a = 0xED then 0x80 \<le> b \<and> b \<le> 0x9F
           else if a = 0xF0 then 0x90 \<le> b \<and> b \<le> 0xBF else if a = 0xF4 then 0x80 \<le> b \<and> b \<le> 0x8F else cont b)) in
     if a < 0x80 then Inr 1
     else if 0xC2 \<le> a \<and> a \<le> 0xDF then (if has 1 cont then Inr 2 else Inl 1)
     else if 0xE0 \<le> a \<and> a \<le> 0xEF then (if \<not> has 1 second then Inl 1 else if has 2 cont then Inr 3 else Inl 2)
     else if 0xF0 \<le> a \<and> a \<le> 0xF4 then
       (if \<not> has 1 second then Inl 1 else if \<not> has 2 cont then Inl 2 else if has 3 cont then Inr 4 else Inl 3)
     else Inl 1)"

function from_utf8_lossy :: "u8 list \<Rightarrow> u8 list" where
  "from_utf8_lossy bs =
    (if bs = [] then []
     else
       case utf8_next bs of
         Inr n \<Rightarrow> take n bs @ from_utf8_lossy (drop (max n 1) bs)
       | Inl n \<Rightarrow> [0xEF, 0xBF, 0xBD] @ from_utf8_lossy (drop (max n 1) bs))"
  by auto
termination by (relation "measure length") auto

declare from_utf8_lossy.simps [simp del]

definition event_comm :: "RequestSpanEvent \<Rightarrow> string" where
  "event_comm e = map (char_of \<circ> unat) (from_utf8_lossy (takeWhile (\<lambda>b. b \<noteq> 0) (ev_comm e)))"

definition format_bytes :: "u32 \<Rightarrow> string" where
  "format_bytes bytes =
    (if 0 < bytes \<and> bytes mod (1024 * 1024) = 0 then dec_nat (unat (bytes div (1024 * 1024))) @ '' MiB''
     else if 0 < bytes \<and> bytes mod 1024 = 0 then dec_nat (unat (bytes div 1024)) @ '' KiB''
     else dec_nat (unat bytes) @ '' B'')"

definition span_operation :: "RequestSpanEvent \<Rightarrow> BlockOperation" where
  "span_operation e = (case block_from_index (ev_operation e) of Some p \<Rightarrow> p | None \<Rightarrow> Block_Other)"

definition span_labels_of :: "RequestSpanEvent \<Rightarrow> DeviceInfo \<Rightarrow> Labels" where
  "span_labels_of e part_info =
    (let us = (\<lambda>ns. f64_div (f64_of_u64 ns) thousand) in
     \<lparr>strings = fold (\<lambda>(k, v). hm_insert k v)
        ([(''comm'', event_comm e), (''operation'', block_name (span_operation e)),
          (''partition'', info_name part_info @ '' ('' @ major_minor part_info @ '')'')] @
         (if info_mounts part_info = [] then []
          else [(''filesystems'', filesystems (info_mounts part_info)), (''mountpoints'', join '','' (map mountpoint (info_mounts part_info))),
            (''sources'', join '','' (map mount_source (info_mounts part_info)))])) [],
      ints = fold (\<lambda>(k, v). hm_insert k v)
        [(''bytes'', ucast (ev_bytes e)), (''sector'', ev_sector e), (''pid'', ucast (ev_pid e)), (''tgid'', ucast (ev_tgid e)),
         (''error'', scast (ev_error e)), (''requeues'', ucast (ev_requeues e))] [],
      bools = [(''completed'', ev_completed e)],
      floats = fold (\<lambda>(k, v). hm_insert k v)
        [(''queue_latency_us'', us (ev_queue_ns e)), (''service_latency_us'', us (ev_service_ns e)), (''total_latency_us'', us (ev_total_ns e))] []\<rparr>)"

definition span_status :: "RequestSpanEvent \<Rightarrow> string" where
  "span_status e =
    (if ev_completed e then if ev_error e = 0 then block_name (span_operation e) else ''error'' else ''requeued'')"

definition send_request_span :: "(nat \<Rightarrow> u64) \<Rightarrow> fs \<Rightarrow> 'c callback \<Rightarrow> RequestSpanEvent \<Rightarrow> ('c BlockIo, i32, unit) stm" where
  "send_request_span rng F callback e =
    try_bind (ensure_track rng F callback (ev_dev e)) (\<lambda>track_id.
    try_bind (bio_info F (ev_partition_dev e)) (\<lambda>part_info.
    bio_emit callback (Message_Event (Event_Span \<lparr>span_name = span_status e @ '' '' @ format_bytes (ev_bytes e),
      span_id = request_id e XOR start_ns e, start_timestamp = start_ns e, end_timestamp = end_ns e,
      span_track_id = TrackId_Custom track_id, span_labels = span_labels_of e part_info\<rparr>))))"

text \<open>The handler of the ring buffer; \<open>None\<close> is a record of the wrong size.\<close>

definition on_span_record :: "(nat \<Rightarrow> u64) \<Rightarrow> fs \<Rightarrow> 'c callback \<Rightarrow> RequestSpanEvent option \<Rightarrow> 'c BlockIo \<Rightarrow> i32 \<times> 'c BlockIo" where
  "on_span_record rng F callback r u = (case r of None \<Rightarrow> (0, u) | Some e \<Rightarrow> status (send_request_span rng F callback e u))"

subsection \<open>Sampling\<close>

record block_reader =
  lookup_stats :: "(string, (u32 \<times> device_stats) list) result"
  lookup_depths :: "(string, (u32 \<times> device_depth) list) result"

definition to_map :: "('k \<times> 'v) list \<Rightarrow> ('k \<times> 'v) list" where
  "to_map xs = fold (\<lambda>(k, v). hm_insert k v) xs []"

definition read_stats :: "block_reader \<Rightarrow> (BpfError, (u32 \<times> device_stats) list) result" where
  "read_stats rd =
    (case lookup_stats rd of Inl e \<Rightarrow> Err (MapError (''failed to read block_io device stats: '' @ e)) | Inr xs \<Rightarrow> Ok (to_map xs))"

definition read_depth :: "block_reader \<Rightarrow> (BpfError, (u32 \<times> device_depth) list) result" where
  "read_depth rd =
    (case lookup_depths rd of Inl e \<Rightarrow> Err (MapError (''failed to read block_io device depth: '' @ e)) | Inr xs \<Rightarrow> Ok (to_map xs))"

definition used_depth :: "device_depth \<Rightarrow> bool" where
  "used_depth d = (0 < busy_ns d \<or> 0 < saturated_ns d \<or> 0 < inflight d \<or> 0 < queued d \<or> 0 < max_inflight d \<or> 0 < max_queued d)"

definition sampled_devices :: "(u32 \<times> device_stats) list \<Rightarrow> (u32 \<times> device_depth) list \<Rightarrow> u32 list" where
  "sampled_devices sts depths = remdups (map fst sts @ map fst (filter (\<lambda>(dev, d). used_depth d) depths))"

definition sample_stats :: "(nat \<Rightarrow> u64) \<Rightarrow> fs \<Rightarrow> 'c callback \<Rightarrow> u32 \<Rightarrow> u64 \<Rightarrow> f64 \<Rightarrow> device_stats \<Rightarrow> ('c BlockIo, i32, unit) stm" where
  "sample_stats rng F callback dev now secs current u =
    (let d = dev_delta current (hm_get (previous_stats u) dev); cfg = bio_config u in
     try_bind (modify (\<lambda>u. u\<lparr>previous_stats := hm_insert dev current (previous_stats u)\<rparr>)) (\<lambda>_.
     try_bind (try_each (\<lambda>operation. until_break (try_each (emit_counter rng F callback dev now)
       (operation_samples cfg operation (dev_operations d ! block_index operation) secs))) (bio_operations cfg)) (\<lambda>_.
     try_bind (if bio_has_metric cfg Metric_Errors then
         until_break (try_each (emit_counter rng F callback dev now)
           [counter_sample None Requeues ''requeues'' (f64_of_u64 (dev_requeues d)) ''count'',
            counter_sample None LostRequests ''lost_requests'' (f64_of_u64 (lost_requests d)) ''count''])
       else ret ()) (\<lambda>_.
     if bio_timeline cfg then
       emit_counter rng F callback dev now (counter_sample None TimelineDrops ''timeline_drops'' (f64_of_u64 (timeline_drops d)) ''count'')
     else ret ()))) u)"

definition sample_depth :: "(nat \<Rightarrow> u64) \<Rightarrow> fs \<Rightarrow> 'c callback \<Rightarrow> u32 \<Rightarrow> u64 \<Rightarrow> u64 \<Rightarrow> device_depth \<Rightarrow> ('c BlockIo, i32, unit) stm" where
  "sample_depth rng F callback dev now elapsed_ns current u =
    (let sn = snapshot current now; d = depth_delta sn (hm_get (previous_depth u) dev) in
     try_bind (modify (\<lambda>u. u\<lparr>previous_depth := hm_insert dev sn (previous_depth u)\<rparr>)) (\<lambda>_.
     until_break (try_each (emit_counter rng F callback dev now) (depth_samples d elapsed_ns))) u)"

text \<open>One device; a refused drop counter goes on with the next device.\<close>

definition sample_device ::
  "(nat \<Rightarrow> u64) \<Rightarrow> fs \<Rightarrow> 'c callback \<Rightarrow> (u32 \<times> device_stats) list \<Rightarrow> (u32 \<times> device_depth) list \<Rightarrow> u64 \<Rightarrow> u64 \<Rightarrow> f64 \<Rightarrow> u32 \<Rightarrow> ('c BlockIo, BpfError, unit) stm" where
  "sample_device rng F callback sts depths now elapsed_ns secs dev =
    until_break
      (try_bind (case hm_get sts dev of Some current \<Rightarrow> sample_stats rng F callback dev now secs current | None \<Rightarrow> ret ()) (\<lambda>_.
       case hm_get depths dev of Some current \<Rightarrow> sample_depth rng F callback dev now elapsed_ns current | None \<Rightarrow> ret ()))"

definition bio_sample :: "(nat \<Rightarrow> u64) \<Rightarrow> fs \<Rightarrow> 'c callback \<Rightarrow> block_reader \<Rightarrow> u64 \<Rightarrow> ('c BlockIo, BpfError, unit) stm" where
  "bio_sample rng F callback rd now u =
    (let elapsed_ns = max (saturating_sub now (bio_last_sample u)) 1; secs = f64_div (f64_of_u64 elapsed_ns) 0x41cdcd6500000000 in
     case read_stats rd of
       Inl e \<Rightarrow> (Err e, u)
     | Inr sts \<Rightarrow>
         (case if bio_has_metric (bio_config u) Metric_Saturation then read_depth rd else Ok [] of
            Inl e \<Rightarrow> (Err e, u)
          | Inr depths \<Rightarrow>
              try_bind (try_each (sample_device rng F callback sts depths now elapsed_ns secs) (sampled_devices sts depths)) (\<lambda>_.
              modify (\<lambda>u. u\<lparr>bio_last_sample := now\<rparr>)) u))"

definition bio_sample_if_due :: "(nat \<Rightarrow> u64) \<Rightarrow> fs \<Rightarrow> 'c callback \<Rightarrow> block_reader \<Rightarrow> u64 \<Rightarrow> bool \<Rightarrow> ('c BlockIo, BpfError, unit) stm" where
  "bio_sample_if_due rng F callback rd now force u =
    (if force \<or> 1000000000 div bio_frequency (bio_config u) \<le> saturating_sub now (bio_last_sample u)
     then bio_sample rng F callback rd now u else (Ok (), u))"

type_synonym 'c ring = "(RequestSpanEvent option \<Rightarrow> 'c BlockIo \<Rightarrow> i32 \<times> 'c BlockIo) \<Rightarrow> ('c BlockIo, string, unit) stm"

definition drain :: "string \<Rightarrow> 'c ring \<Rightarrow> (nat \<Rightarrow> u64) \<Rightarrow> fs \<Rightarrow> 'c callback \<Rightarrow> ('c BlockIo, BpfError, unit) stm" where
  "drain verb ring rng F callback u =
    (if bio_ring u then map_err (\<lambda>e. MapError (''failed to '' @ verb @ '' block_io spans: '' @ e)) (ring (on_span_record rng F callback)) u
     else (Ok (), u))"

definition bio_consume :: "'c ring \<Rightarrow> (nat \<Rightarrow> u64) \<Rightarrow> fs \<Rightarrow> 'c callback \<Rightarrow> block_reader \<Rightarrow> u64 \<Rightarrow> ('c BlockIo, BpfError, unit) stm" where
  "bio_consume ring rng F callback rd now =
    try_bind (drain ''consume'' ring rng F callback) (\<lambda>_. bio_sample_if_due rng F callback rd now False)"

definition bio_poll :: "'c ring \<Rightarrow> (nat \<Rightarrow> u64) \<Rightarrow> fs \<Rightarrow> 'c callback \<Rightarrow> block_reader \<Rightarrow> u64 \<Rightarrow> ('c BlockIo, BpfError, unit) stm" where
  "bio_poll ring rng F callback rd now =
    try_bind (drain ''poll'' ring rng F callback) (\<lambda>_. bio_sample_if_due rng F callback rd now False)"

definition bio_flush :: "'c ring \<Rightarrow> (nat \<Rightarrow> u64) \<Rightarrow> fs \<Rightarrow> 'c callback \<Rightarrow> block_reader \<Rightarrow> u64 \<Rightarrow> ('c BlockIo, BpfError, unit) stm" where
  "bio_flush ring rng F callback rd now =
    try_bind (drain ''flush'' ring rng F callback) (\<lambda>_. bio_sample_if_due rng F callback rd now True)"

subsection \<open>Construction\<close>

definition device_filters :: "fs \<Rightarrow> BlockIoConfig \<Rightarrow> (BpfError, u32 list) result" where
  "device_filters F cfg =
    (case collect_set (resolve_device_filter F) (bio_devices cfg) [] of
       Inl e \<Rightarrow> Err e
     | Inr filters \<Rightarrow>
         if unat (bio_max_devices cfg) < length filters then
           Err (LoadError (''block_io has '' @ dec_nat (length filters) @ '' device filters but max_devices is '' @ dec_nat (unat (bio_max_devices cfg))))
         else Ok filters)"

definition depth_devices :: "fs \<Rightarrow> BlockIoConfig \<Rightarrow> u32 list \<Rightarrow> (BpfError, u32 list) result" where
  "depth_devices F cfg filters =
    (case if bio_has_metric cfg Metric_Saturation then (if filters = [] then discover_physical_devices F else Ok filters) else Ok [] of
       Inl e \<Rightarrow> Err e
     | Inr devices \<Rightarrow>
         if unat (bio_max_devices cfg) < length devices then
           Err (LoadError (''block_io found '' @ dec_nat (length devices) @ '' devices but max_devices is '' @ dec_nat (unat (bio_max_devices cfg)) @
             ''; increase max_devices or configure devices''))
         else Ok devices)"

definition request_tracking :: "BlockIoConfig \<Rightarrow> bool" where
  "request_tracking cfg = (bio_has_metric cfg Metric_Iops \<or> bio_has_metric cfg Metric_Latency \<or> bio_has_metric cfg Metric_Saturation \<or> bio_timeline cfg)"

definition load_err :: "string \<Rightarrow> ('w, 'a) sys \<Rightarrow> ('w, BpfError, 'a) stm" where
  "load_err what = map_err (\<lambda>e. LoadError (''failed to '' @ what @ '': '' @ e))"

definition bio_sizes :: "BlockIoConfig \<Rightarrow> u32 list \<Rightarrow> (string \<times> string \<times> u32) list" where
  "bio_sizes cfg filters =
    [(''device_stats'', ''size block_io device map'', bio_max_devices cfg),
     (''device_depths'', ''size block_io depth map'', if bio_has_metric cfg Metric_Saturation then bio_max_devices cfg else 1),
     (''requests'', ''size block_io request map'', if request_tracking cfg then bio_max_requests cfg else 1),
     (''tracked_devices'', ''size block_io filter map'', max (max (bio_max_devices cfg) (word_of_nat (length filters))) 1),
     (''events'', ''size block_io ring buffer'', ucast (if bio_timeline cfg then bio_ringbuf cfg else MIN_RINGBUF_SIZE))]"

text \<open>The configuration that the kernel programs read.\<close>

definition kernel_cfg :: "BlockIoConfig \<Rightarrow> u32 list \<Rightarrow> block_cfg" where
  "kernel_cfg cfg filters = \<lparr>operation_mask = bio_operation_mask cfg, timeline_sample_every = bio_sample_every cfg,
    timeline_min_latency_ns = saturating_mul (bio_min_latency_us cfg) 1000, blk_bytes_enabled = bio_has_metric cfg Metric_Throughput,
    blk_operations_enabled = (bio_has_metric cfg Metric_Iops \<or> bio_has_metric cfg Metric_Latency),
    latency_enabled = bio_has_metric cfg Metric_Latency, saturation_enabled = bio_has_metric cfg Metric_Saturation,
    blk_errors_enabled = bio_has_metric cfg Metric_Errors, timeline_enabled = bio_timeline cfg, blk_filter_enabled = (filters \<noteq> []),
    request_tracking_enabled = request_tracking cfg\<rparr>"

definition initial_depth :: "u64 \<Rightarrow> device_depth" where
  "initial_depth now = \<lparr>depth_first_seen = now, last_update_ns = now, busy_ns = 0, saturated_ns = 0, inflight_ns = 0, queued_ns = 0,
    inflight = 0, queued = 0, max_inflight = 0, max_queued = 0\<rparr>"

record 'w block_libbpf =
  write_cfg :: "block_cfg \<Rightarrow> 'w \<Rightarrow> 'w"
  insert_depth :: "u32 \<Rightarrow> device_depth \<Rightarrow> ('w, unit) sys"

definition BlockIo_init :: "BlockIoConfig \<Rightarrow> DeviceRegistry \<Rightarrow> u64 \<Rightarrow> 'c \<Rightarrow> 'c BlockIo" where
  "BlockIo_init cfg reg now c = \<lparr>bio_ring = bio_timeline cfg, bio_registry = reg, bio_config = cfg, bio_last_sample = now,
    previous_stats = [], previous_depth = [], bio_series = [], bio_drawn = 0, bio_callback = c\<rparr>"

definition BlockIo_load :: "'w libbpf \<Rightarrow> 'w block_libbpf \<Rightarrow> ('w \<Rightarrow> u64) \<Rightarrow> BlockIoConfig \<Rightarrow> u32 list \<Rightarrow> u32 list \<Rightarrow> ('w, BpfError, unit) stm" where
  "BlockIo_load lb blb clock cfg filters devices =
    try_bind (load_err ''open block_io BPF'' (lb_open lb)) (\<lambda>_.
    try_bind (try_each (\<lambda>(map_name, what, n). load_err what (lb_set_max_entries lb map_name n)) (bio_sizes cfg filters)) (\<lambda>_.
    try_bind (modify (write_cfg blb (kernel_cfg cfg filters))) (\<lambda>_.
    try_bind (load_err ''load block_io BPF'' (lb_load lb)) (\<lambda>_.
    try_bind (gets clock) (\<lambda>initialized_at.
    try_bind (try_each (\<lambda>dev. map_err (\<lambda>e. MapError (''failed to initialize block_io depth for '' @ format_device dev @ '': '' @ e))
      (insert_depth blb dev (initial_depth initialized_at))) devices) (\<lambda>_.
    try_bind (try_each (\<lambda>dev. map_err (\<lambda>e. MapError (''failed to add block_io device filter: '' @ e))
      (lb_update lb ''tracked_devices'' dev 1)) filters) (\<lambda>_.
    map_err (\<lambda>e. AttachError (''failed to attach block_io programs: '' @ e)) (lb_attach lb))))))))"

definition BlockIo_new ::
  "'w libbpf \<Rightarrow> 'w block_libbpf \<Rightarrow> ('w \<Rightarrow> u64) \<Rightarrow> fs \<Rightarrow> BlockIoConfig \<Rightarrow> 'c \<Rightarrow> ('w, BpfError, 'c BlockIo) stm" where
  "BlockIo_new lb blb clock F cfg c =
    (case device_filters F cfg of
       Inl e \<Rightarrow> throw e
     | Inr filters \<Rightarrow>
         (case depth_devices F cfg filters of
            Inl e \<Rightarrow> throw e
          | Inr devices \<Rightarrow>
              try_bind (BlockIo_load lb blb clock cfg filters devices) (\<lambda>_.
              try_bind (if bio_timeline cfg then
                  try_bind (map_err (\<lambda>e. MapError (''failed to add block_io ring buffer: '' @ e)) (lb_ring_add lb)) (\<lambda>_.
                  map_err (\<lambda>e. MapError (''failed to build block_io ring buffer: '' @ e)) (lb_ring_build lb))
                else ret ()) (\<lambda>_.
              gets (\<lambda>w. BlockIo_init cfg (DeviceRegistry_new F) (clock w) c)))))"

definition BlockIo_build ::
  "'w libbpf \<Rightarrow> 'w block_libbpf \<Rightarrow> ('w \<Rightarrow> u64) \<Rightarrow> fs \<Rightarrow> BlockIoConfig \<Rightarrow> 'c \<Rightarrow> ('w, BpfError, 'c BlockIo) stm" where
  "BlockIo_build lb blb clock F cfg c = (case bio_validate cfg of Inl e \<Rightarrow> throw e | Inr _ \<Rightarrow> BlockIo_new lb blb clock F cfg c)"

section \<open>Tracks\<close>

lemma bio_emit_recording [simp]: "bio_emit recording msg u = (Ok (), u\<lparr>bio_callback := bio_callback u @ [msg]\<rparr>)"
  by (simp add: bio_emit_def on_field_def)

text \<open>Spans on a declared track, too.\<close>

definition spans_declared :: "Message list \<Rightarrow> bool" where
  "spans_declared sent \<longleftrightarrow> (\<forall>n<length sent. \<forall>s. sent ! n = Message_Event (Event_Span s) \<longrightarrow> declared (span_track_id s) (take n sent))"

lemma spans_declared_Nil [simp]: "spans_declared []"
  by (simp add: spans_declared_def)

lemma spans_declared_snoc:
  "spans_declared (sent @ [msg]) \<longleftrightarrow> spans_declared sent \<and> (\<forall>s. msg = Message_Event (Event_Span s) \<longrightarrow> declared (span_track_id s) sent)"
  by (auto simp: spans_declared_def nth_append less_Suc_eq)

definition bio_inv :: "Message list BlockIo \<Rightarrow> bool" where
  "bio_inv u \<longleftrightarrow> counters_declared (bio_callback u) \<and> spans_declared (bio_callback u) \<and>
    (\<forall>k i. hm_get (bio_series u) k = Some i \<longrightarrow> declared (TrackId_Counter i) (bio_callback u)) \<and>
    (\<forall>dev i. hm_get (registry_track_ids (bio_registry u)) dev = Some i \<longrightarrow> declared (TrackId_Custom i) (bio_callback u))"

lemma bio_inv_frame [simp]:
  "bio_inv (u\<lparr>bio_drawn := a\<rparr>) = bio_inv u" "bio_inv (u\<lparr>previous_stats := b\<rparr>) = bio_inv u"
  "bio_inv (u\<lparr>previous_depth := c\<rparr>) = bio_inv u" "bio_inv (u\<lparr>bio_last_sample := d\<rparr>) = bio_inv u"
  by (simp_all add: bio_inv_def)

lemma registry_info_tracks [simp]: "registry_track_ids (snd (registry_info F dev reg)) = registry_track_ids reg"
  by (simp add: registry_info_def Let_def split: option.split)

lemma bio_info_inv:
  "bio_inv u \<Longrightarrow> bio_info F dev u = (r, u') \<Longrightarrow> bio_inv u' \<and> (\<exists>info. r = Ok info) \<and> bio_callback u' = bio_callback u"
proof -
  assume u: "bio_inv u" "bio_info F dev u = (r, u')"
  obtain info reg where i: "registry_info F dev (bio_registry u) = (info, reg)" by fastforce
  then have "registry_track_ids reg = registry_track_ids (bio_registry u)" by (metis registry_info_tracks snd_conv)
  then show ?thesis using u i by (auto simp: bio_info_def bio_inv_def)
qed

lemma ensure_track_inv:
  assumes "bio_inv u"
  obtains i u' where "ensure_track rng F recording dev u = (Ok i, u')" "bio_inv u'" "declared (TrackId_Custom i) (bio_callback u')"
proof (cases "hm_get (registry_track_ids (bio_registry u)) dev")
  case (Some i)
  then show thesis using assms that [of i u] by (simp add: ensure_track_def bio_inv_def)
next
  case None
  obtain r :: "(i32, DeviceInfo) result" and u1 where i: "bio_info F dev (u\<lparr>bio_drawn := Suc (bio_drawn u)\<rparr>) = (r, u1)" by fastforce
  obtain info where u1: "bio_inv u1" "r = Ok info" using bio_info_inv [OF _ i] assms by auto
  show thesis
    by (rule that, simp add: ensure_track_def None draw_def try_bind_def i u1(2))
      (use u1 in \<open>simp_all add: bio_inv_def declared_snoc counters_declared_snoc' spans_declared_snoc\<close>)
qed

lemma emit_counter_inv:
  assumes "bio_inv u"
  shows "fst (emit_counter rng F recording dev now sample u) = Ok () \<and> bio_inv (snd (emit_counter rng F recording dev now sample u))"
proof -
  obtain i u1 where t: "ensure_track rng F recording dev u = (Ok i, u1)" "bio_inv u1" "declared (TrackId_Custom i) (bio_callback u1)"
    using ensure_track_inv [OF assms] by blast
  let ?key = "\<lparr>bsk_dev = dev, bsk_operation = bs_operation sample, bsk_kind = bs_kind sample\<rparr>"
  show ?thesis
  proof (cases "hm_get (bio_series u1) ?key")
    case (Some j)
    then have "declared (TrackId_Counter j) (bio_callback u1)" using t(2) by (simp add: bio_inv_def)
    then show ?thesis using t Some
      by (simp add: emit_counter_def try_bind_def bio_series_id_def bio_inv_def declared_snoc counters_declared_snoc' spans_declared_snoc)
  next
    case None
    then show ?thesis using t
      by (auto simp: emit_counter_def try_bind_def bio_series_id_def bio_inv_def declared_snoc2 counters_declared_snoc2
          spans_declared_snoc [of "bio_callback u1 @ [_]", simplified] spans_declared_snoc declared_snoc)
  qed
qed

lemma emit_counters_inv:
  "bio_inv u \<Longrightarrow> fst (try_each (emit_counter rng F recording dev now) samples u) = Ok () \<and>
    bio_inv (snd (try_each (emit_counter rng F recording dev now) samples u))"
  by (rule try_each_keeps) (simp_all add: emit_counter_inv)

text \<open>Code that keeps the invariant, whatever its result.\<close>

abbreviation keeps :: "(Message list BlockIo, 'e, 'a) stm \<Rightarrow> bool" where
  "keeps m \<equiv> triple bio_inv m (\<lambda>_. bio_inv)"

lemma keeps_bind: "keeps m \<Longrightarrow> (\<And>a. keeps (k a)) \<Longrightarrow> keeps (try_bind m k)"
  by (rule triple_bind) simp_all

lemma keeps_break: "keeps m \<Longrightarrow> keeps (until_break m)"
  by (simp add: triple_def until_break_def case_prod_beta)

lemma keeps_counter: "keeps (emit_counter rng F recording dev now sample)"
  by (simp add: triple_def case_prod_beta emit_counter_inv)

lemmas keeps_rules = keeps_bind keeps_break keeps_counter triple_each triple_if triple_ret triple_modify

lemma sample_stats_inv: "bio_inv u \<Longrightarrow> bio_inv (snd (sample_stats rng F recording dev now secs current u))"
  unfolding sample_stats_def Let_def by (rule triple_snd [where P = bio_inv]) (intro keeps_rules; simp)+

lemma sample_depth_inv: "bio_inv u \<Longrightarrow> bio_inv (snd (sample_depth rng F recording dev now elapsed current u))"
  unfolding sample_depth_def Let_def by (rule triple_snd [where P = bio_inv]) (intro keeps_rules; simp)+

lemma keeps_samples: "keeps (sample_stats rng F recording dev now secs current)" "keeps (sample_depth rng F recording dev now elapsed cur)"
  by (simp_all add: triple_def case_prod_beta sample_stats_inv sample_depth_inv)

lemma sample_device_inv:
  assumes "bio_inv u"
  shows "fst (sample_device rng F recording sts depths now elapsed secs dev u) = Ok () \<and>
    bio_inv (snd (sample_device rng F recording sts depths now elapsed secs dev u))"
proof -
  have "keeps (sample_device rng F recording sts depths now elapsed secs dev)"
    unfolding sample_device_def
    by (rule keeps_break, rule keeps_bind; cases "hm_get sts dev"; cases "hm_get depths dev") (simp_all add: keeps_samples triple_ret)
  from triple_snd [OF this assms] show ?thesis by (simp add: sample_device_def until_break_def)
qed

lemma bio_sample_inv: "bio_inv u \<Longrightarrow> bio_inv (snd (bio_sample rng F recording rd now u))"
proof -
  assume u: "bio_inv u"
  have k: "keeps (try_bind (try_each (sample_device rng F recording sts depths now elapsed secs) devs) (\<lambda>_. modify (\<lambda>u. u\<lparr>bio_last_sample := now\<rparr>)))"
    for sts depths elapsed secs devs
    by (intro keeps_bind triple_each triple_modify) (simp_all add: triple_def case_prod_beta sample_device_inv)
  show ?thesis using u triple_snd [OF k u] by (simp add: bio_sample_def Let_def split: sum.split)
qed

lemma on_span_record_inv: 
  assumes "bio_inv u"
  shows "bio_inv (snd (on_span_record rng F recording r u))"
proof (cases r)
  case None
  then show ?thesis using assms by (simp add: on_span_record_def)
next
  case (Some e)
  obtain i u1 where t: "ensure_track rng F recording (ev_dev e) u = (Ok i, u1)" "bio_inv u1" "declared (TrackId_Custom i) (bio_callback u1)"
    using ensure_track_inv [OF assms] by blast
  obtain q :: "(i32, DeviceInfo) result" and u2 where q: "bio_info F (ev_partition_dev e) u1 = (q, u2)" by fastforce
  obtain info where u2: "bio_inv u2" "q = Ok info" "bio_callback u2 = bio_callback u1" using bio_info_inv [OF t(2) q] by auto
  have "send_request_span rng F recording e u = (Ok (), u2\<lparr>bio_callback := bio_callback u2 @ [Message_Event (Event_Span
      \<lparr>span_name = span_status e @ '' '' @ format_bytes (ev_bytes e), span_id = request_id e XOR start_ns e, start_timestamp = start_ns e,
        end_timestamp = end_ns e, span_track_id = TrackId_Custom i, span_labels = span_labels_of e info\<rparr>)]\<rparr>)"
    by (simp add: send_request_span_def try_bind_def t(1) q u2(2))
  then show ?thesis using Some t(3) u2
    by (simp add: on_span_record_def status_def bio_inv_def declared_snoc counters_declared_snoc' spans_declared_snoc)
qed

text \<open>
  The ring buffer calls the handler and changes the state in no other way: what every call of a handler
  keeps, it keeps.
\<close>

definition ring_delivers :: "'c ring \<Rightarrow> bool" where
  "ring_delivers ring \<longleftrightarrow> (\<forall>h P u. (\<forall>r v. P v \<longrightarrow> P (snd (h r v))) \<longrightarrow> P u \<longrightarrow> P (snd (ring h u)))"

primrec deliver :: "RequestSpanEvent option list \<Rightarrow> 'c ring" where
  "deliver [] h u = (Ok (), u)"
| "deliver (r # rs) h u = (case h r u of (st, u') \<Rightarrow> if st <s 0 then (Err ''callback'', u') else deliver rs h u')"

lemma deliver_delivers: "ring_delivers (deliver rs)"
  unfolding ring_delivers_def
proof (intro allI impI)
  fix h :: "RequestSpanEvent option \<Rightarrow> 'a BlockIo \<Rightarrow> i32 \<times> 'a BlockIo" and P :: "'a BlockIo \<Rightarrow> bool" and u
  assume h: "\<forall>r v. P v \<longrightarrow> P (snd (h r v))" and "P u"
  from \<open>P u\<close> show "P (snd (deliver rs h u))"
  proof (induction rs arbitrary: u)
    case (Cons r rs)
    have "P (snd (h r u))" using h Cons.prems by blast
    then show ?case using Cons.IH [of "snd (h r u)"] by (simp add: case_prod_beta)
  qed simp
qed

datatype bio_method = Consume | Poll | Flush

primrec bio_call :: "bio_method \<Rightarrow> 'c ring \<Rightarrow> (nat \<Rightarrow> u64) \<Rightarrow> fs \<Rightarrow> 'c callback \<Rightarrow> block_reader \<Rightarrow> u64 \<Rightarrow> ('c BlockIo, BpfError, unit) stm" where
  "bio_call Consume = bio_consume"
| "bio_call Poll = bio_poll"
| "bio_call Flush = bio_flush"

lemma bio_call_inv:
  assumes "ring_delivers ring" "bio_inv u"
  shows "bio_inv (snd (bio_call c ring rng F recording rd now u))"
proof -
  have "bio_inv (snd (ring (on_span_record rng F recording) v))" if "bio_inv v" for v
    by (rule assms(1) [unfolded ring_delivers_def, rule_format, where P = bio_inv]) (simp_all add: on_span_record_inv that)
  then have d: "keeps (drain verb ring rng F recording)" for verb
    by (auto simp: triple_def case_prod_beta drain_def map_err_def split: sum.split)
  have s: "keeps (bio_sample_if_due rng F recording rd now force)" for force
    by (simp add: triple_def case_prod_beta bio_sample_if_due_def bio_sample_inv)
  have "keeps (bio_call c ring rng F recording rd now)"
    by (cases c) (simp_all add: bio_consume_def bio_poll_def bio_flush_def keeps_bind d s)
  from triple_snd [OF this assms(2)] show ?thesis .
qed

section \<open>Percentiles\<close>

definition histogram :: "u64 list \<Rightarrow> u64 list" where
  "histogram ls = fold (\<lambda>l. bump (latency_bucket l)) ls (replicate HISTOGRAM_BUCKETS 0)"

definition in_bucket :: "u64 list \<Rightarrow> nat \<Rightarrow> nat" where
  "in_bucket ls b = length (filter (\<lambda>l. latency_bucket l = b) ls)"

lemma histogram_counts: "histogram ls = map (\<lambda>b. word_of_nat (in_bucket ls b)) [0..<32]"
proof -
  have "fold (\<lambda>l. bump (latency_bucket l)) ls (map (\<lambda>b. word_of_nat (f b)) [0..<32]) = map (\<lambda>b. word_of_nat (f b + in_bucket ls b)) [0..<32]" for f
  proof (induction ls arbitrary: f)
    case (Cons l ls)
    have "bump (latency_bucket l) (map (\<lambda>b. word_of_nat (f b)) [0..<32]) = map (\<lambda>b. word_of_nat ((f(latency_bucket l := f (latency_bucket l) + 1)) b)) [0..<32]"
      using latency_bucket_spec(1) [of l] by (intro nth_equalityI) (auto simp: bump_def nth_list_update)
    then show ?case using Cons.IH [of "f(latency_bucket l := f (latency_bucket l) + 1)"] by (auto simp: in_bucket_def)
  qed (simp add: in_bucket_def)
  from this [of "\<lambda>_. 0"] show ?thesis by (simp add: histogram_def HISTOGRAM_BUCKETS_def map_replicate_const)
qed

lemma below_bucket: "sum_list (map (in_bucket ls) [0..<k]) = length (filter (\<lambda>l. latency_bucket l < k) ls)"
proof -
  have "length (filter (\<lambda>l. latency_bucket l < Suc k) ls) = length (filter (\<lambda>l. latency_bucket l < k) ls) + in_bucket ls k" for k
    by (induction ls) (auto simp: in_bucket_def less_Suc_eq)
  then show ?thesis by (induction k) simp_all
qed

lemma sum_histogram: "sum_list (histogram ls) = word_of_nat (length ls)"
proof -
  have "sum_list (map (\<lambda>b. word_of_nat (g b) :: u64) bs) = word_of_nat (sum_list (map g bs))" for g :: "nat \<Rightarrow> nat" and bs
    by (induction bs) simp_all
  moreover have "filter (\<lambda>l. latency_bucket l < 32) ls = ls" using latency_bucket_spec(1) by (simp add: filter_id_conv)
  ultimately show ?thesis by (simp add: histogram_counts below_bucket)
qed

definition bucket_bound :: "nat \<Rightarrow> u64" where
  "bucket_bound b = (if b = 0 then 1 else 2 ^ min (b + 1) 32)"

lemma percentile_loop_finds:
  assumes "c < unat t" "unat t \<le> c + sum_list ns" "c + sum_list ns < 2 ^ 64"
  shows "\<exists>k<length ns. percentile_loop (map word_of_nat ns) b (word_of_nat c) t = f64_of_u64 (bucket_bound (b + k)) \<and>
    c + sum_list (take k ns) < unat t \<and> unat t \<le> c + sum_list (take (Suc k) ns)"
  using assms
proof (induction ns arbitrary: b c)
  case (Cons n ns)
  have "c + n < 2 ^ LENGTH(64)" using Cons.prems(3) by simp
  then have u: "unat (word_of_nat (c + n) :: u64) = c + n" by (simp only: unat_of_nat mod_less)
  have test: "t \<le> word_of_nat c + word_of_nat n \<longleftrightarrow> unat t \<le> c + n" using u by (simp add: word_le_nat_alt)
  show ?case
  proof (cases "unat t \<le> c + n")
    case True
    then show ?thesis using Cons.prems test by (intro exI [of _ 0]) (simp add: bucket_bound_def)
  next
    case False
    then obtain k where "k < length ns" "percentile_loop (map word_of_nat ns) (b + 1) (word_of_nat (c + n)) t = f64_of_u64 (bucket_bound (b + 1 + k))"
        "c + n + sum_list (take k ns) < unat t" "unat t \<le> c + n + sum_list (take (Suc k) ns)"
      using Cons.IH [of "c + n" "b + 1"] Cons.prems by auto
    then show ?thesis using False test by (intro exI [of _ "Suc k"]) (simp add: add.assoc)
  qed
qed simp

lemma length_filter_mono: "(\<And>x. x \<in> set xs \<Longrightarrow> P x \<Longrightarrow> Q x) \<Longrightarrow> length (filter P xs) \<le> length (filter Q xs)"
  by (induction xs) (auto intro: le_SucI)

text \<open>The position of the sample that is looked for: at least one and at most all.\<close>

lemma f64_mul_commute: "f64_mul x y = f64_mul y x"
  by (simp add: f64_mul_def mult.commute split: prod.split)

lemma f64_mul_one: "f64_mul (f64_of_u64 n) 0x3ff0000000000000 = f64_of_u64 n" if "uint n < 2 ^ 53"
proof -
  obtain a b where ab: "f64_ratio (f64_of_u64 n) = (a, b)" "0 \<le> a" "0 < b"
    using f64_ratio_pos [of "f64_of_u64 n"] by (cases "f64_ratio (f64_of_u64 n)") auto
  have one: "f64_ratio 0x3ff0000000000000 = (2 ^ 52, 2 ^ 52)" by code_simp
  have v: "val (a, b) = of_int (uint n)" using f64_of_u64_exact [OF that] by (simp add: f64_value_def ab)
  have "val (a * 2 ^ 52, b * 2 ^ 52) = val (uint n, 1)" using v by (simp add: val_def)
  then have "f64_of_ratio (a * 2 ^ 52, b * 2 ^ 52) = f64_of_ratio (uint n, 1)"
    using ab by (intro antisym f64_of_ratio_mono) simp_all
  then show ?thesis unfolding f64_mul_def ab(1) one by (simp add: f64_of_u64_def)
qed

lemma uint_ceil:
  assumes "f64_value x \<le> of_int m" "m < 2 ^ 64"
  shows "uint (f64_ceil_u64 x) \<le> m" "x \<noteq> 0 \<Longrightarrow> 1 \<le> uint (f64_ceil_u64 x)"
proof -
  obtain a b where ab: "f64_ratio x = (a, b)" "0 \<le> a" "0 < b" using f64_ratio_pos [of x] by (cases "f64_ratio x") auto
  have "real_of_int a \<le> real_of_int (m * b)" using assms(1) ab by (simp add: f64_value_def val_def field_simps)
  then have "a \<le> m * b" by (simp only: of_int_le_iff)
  then have "(a + b - 1) div b \<le> (b - 1 + m * b) div b" using ab by (intro zdiv_mono1) simp_all
  then have hi: "(a + b - 1) div b \<le> m" using ab by simp
  have lo: "0 \<le> (a + b - 1) div b" using ab by (simp add: pos_imp_zdiv_nonneg_iff)
  have c: "uint (f64_ceil_u64 x) = (a + b - 1) div b" using ab hi lo assms(2) by (simp add: f64_ceil_u64_def uint_word_of_int)
  show "uint (f64_ceil_u64 x) \<le> m" using c hi by simp
  assume "x \<noteq> 0"
  then have "a \<noteq> 0" using f64_value_0_iff [of x] ab by (simp add: f64_value_def val_def)
  then have "b div b \<le> (a + b - 1) div b" using ab by (intro zdiv_mono1) simp_all
  then have "1 \<le> (a + b - 1) div b" using ab by simp
  then show "1 \<le> uint (f64_ceil_u64 x)" using c by simp
qed

lemma percentile_target_bounds:
  assumes "q50 \<le> q" "q \<le> 0x3ff0000000000000" "ls \<noteq> []" "length ls < 2 ^ 53"
  shows "1 \<le> unat (percentile_target (histogram ls) q) \<and> unat (percentile_target (histogram ls) q) \<le> length ls"
proof -
  define n :: u64 where "n = word_of_nat (length ls)"
  have "length ls < 2 ^ LENGTH(64)" using assms(4) by simp
  then have u: "unat n = length ls" unfolding n_def by (simp only: unat_of_nat mod_less)
  have "int (unat n) < 2 ^ 53" using assms(4) by (simp only: u) simp
  then have n: "uint n < 2 ^ 53" by simp
  have "1 \<le> unat n" using assms(3) by (simp only: u) (simp add: Suc_le_eq)
  then have n1: "1 \<le> n" by (simp add: word_le_nat_alt)
  define x where "x = f64_mul (f64_of_u64 n) q"
  have x: "x = f64_mul q (f64_of_u64 n)" unfolding x_def by (rule f64_mul_commute)
  have "x \<le> f64_mul 0x3ff0000000000000 (f64_of_u64 n)" unfolding x by (rule f64_mul_mono [OF assms(2)])
  also have "\<dots> = f64_of_u64 n" unfolding f64_mul_commute [of "0x3ff0000000000000"] by (rule f64_mul_one [OF n])
  finally have "f64_value x \<le> f64_value (f64_of_u64 n)" by (rule f64_value_mono)
  then have v: "f64_value x \<le> of_int (uint n)" unfolding f64_of_u64_exact [OF n] .
  have lt: "uint n < 2 ^ 64" using n by simp
  have "f64_mul (f64_of_u64 1) q50 \<le> f64_mul (f64_of_u64 n) q50" by (rule f64_mul_mono [OF f64_of_u64_mono [OF n1]])
  also have "\<dots> = f64_mul q50 (f64_of_u64 n)" by (rule f64_mul_commute)
  also have "\<dots> \<le> x" unfolding x by (rule f64_mul_mono [OF assms(1)])
  finally have "f64_mul (f64_of_u64 1) q50 \<le> x" .
  moreover have "f64_mul (f64_of_u64 1) q50 = 0x3fe0000000000000" by code_simp
  ultimately have "x \<noteq> 0" by auto
  then have "1 \<le> f64_ceil_u64 x" "f64_ceil_u64 x \<le> n" using uint_ceil [OF v lt] by (simp_all add: word_le_def)
  moreover have "percentile_target (histogram ls) q = f64_ceil_u64 x" by (simp add: percentile_target_def sum_histogram n_def x_def)
  ultimately show ?thesis using u by (simp add: word_le_nat_alt)
qed

lemma bucket_bound_unat: "b < 32 \<Longrightarrow> unat (bucket_bound b) = (if b = 0 then 1 else 2 ^ (b + 1))"
proof -
  assume b: "b < 32"
  then have "unat (2 ^ (b + 1) :: u64) = 2 ^ (b + 1)" by (intro unat_pow2) simp
  moreover have "min (b + 1) 32 = b + 1" using b by simp
  ultimately show ?thesis by (simp only: bucket_bound_def) simp
qed

lemma micros_bounds:
  assumes "unat l div 1000 < 2 ^ 32" "b < 32"
  shows "latency_bucket l \<le> b \<Longrightarrow> unat l div 1000 \<le> unat (bucket_bound b)"
    "0 < b \<Longrightarrow> 2 * (unat l div 1000) < unat (bucket_bound b) \<Longrightarrow> latency_bucket l < b"
proof -
  have le: "unat l div 1000 < 2 ^ (latency_bucket l + 1)"
  proof (cases "latency_bucket l < 31")
    case False
    then have "latency_bucket l = 31" using latency_bucket_spec(1) [of l] by simp
    then show ?thesis using assms(1) by simp
  qed (rule latency_bucket_spec(3))
  show "latency_bucket l \<le> b \<Longrightarrow> unat l div 1000 \<le> unat (bucket_bound b)"
  proof (cases "b = 0")
    case False
    assume "latency_bucket l \<le> b"
    then have "(2 :: nat) ^ (latency_bucket l + 1) \<le> 2 ^ (b + 1)" by (intro power_increasing) simp_all
    then have "unat l div 1000 \<le> 2 ^ (b + 1)" using le by (meson less_imp_le less_le_trans)
    then show ?thesis using False bucket_bound_unat [OF assms(2)] by simp
  qed (use le bucket_bound_unat [OF assms(2)] in simp)
  assume b: "0 < b" "2 * (unat l div 1000) < unat (bucket_bound b)"
  show "latency_bucket l < b"
  proof (rule ccontr)
    assume "\<not> latency_bucket l < b"
    then have "(2 :: nat) ^ b \<le> 2 ^ latency_bucket l" by (intro power_increasing) simp_all
    moreover have "0 < latency_bucket l" using b(1) \<open>\<not> latency_bucket l < b\<close> by simp
    ultimately have "2 ^ b \<le> unat l div 1000" using latency_bucket_spec(2) [of l] le_trans by blast
    then show False using b bucket_bound_unat [OF assms(2)] by simp
  qed
qed

section \<open>Properties\<close>




definition example_span :: RequestSpanEvent where
  "example_span = \<lparr>request_id = 5, start_ns = 20, end_ns = 50, ev_queue_ns = 10, ev_service_ns = 30, ev_total_ns = 40, ev_sector = 64, ev_dev = 8,
    ev_partition_dev = 8, ev_bytes = 4096, ev_tgid = 7, ev_pid = 7, ev_requeues = 0, ev_error = 0, ev_operation = 1, ev_completed = True,
    ev_comm = [100, 100, 0]\<rparr>"

definition example_block_run :: "Message list BlockIo" where
  "example_block_run = fold (\<lambda>(c, ring, rd, now) u. snd (bio_call c ring (\<lambda>n. word_of_nat n) (example_fs []) recording rd now u))
    [(Flush, deliver [Some example_span], \<lparr>lookup_stats = Ok [(8, zero_device_stats)], lookup_depths = Ok []\<rparr>, 1000)]
    (BlockIo_init (BlockIoConfig_default\<lparr>bio_timeline := True, bio_metrics := [Metric_Errors]\<rparr>) (DeviceRegistry_new (example_fs [])) 0 [])"


end
