(* ===== verification/Spec2Isabelle.thy ===== *)
theory Spec2Isabelle
  imports MpscConcurrent Converter AgentClient InternedSymbolizer TracingLayer
    CpuUtil ThreadTrack SchedTrace Profiler PerfCounter NetTrack BlockTrack
begin

text \<open>placeholder\<close>

end
